(* ===== verification/Prelude.thy ===== *)
theory Prelude
  imports Main "HOL-Library.Word"
begin

text \<open>
  Shared vocabulary of the development: the machine types of the C++ code, the outcome of a
  run that an \<^verbatim>\<open>assert\<close> may abort, little-endian byte codecs (the server runs on x86, where
  \<^verbatim>\<open>memcpy\<close> of an integer stores its bytes from the lowest), decimal printing, bounded
  character access, and the general list lemmas the components share.
\<close>

unbundle bit_operations_syntax

type_synonym u8 = "8 word"
type_synonym u16 = "16 word"
type_synonym u32 = "32 word"
type_synonym u64 = "64 word"
type_synonym bytes = "8 word list"

named_theorems codec \<open>round trips and lengths of the byte codecs\<close>
named_theorems run_simps \<open>unfolding of checked runs\<close>

section \<open>Runs that an assertion may abort\<close>

datatype failure = Assertion_failed | Undefined_behaviour | Out_of_fuel

type_synonym 'a run = "failure + 'a"

definition require :: "bool \<Rightarrow> 'a run \<Rightarrow> 'a run" where
  "require b k = (if b then k else Inl Assertion_failed)"

definition bind_run :: "'a run \<Rightarrow> ('a \<Rightarrow> 'b run) \<Rightarrow> 'b run" where
  "bind_run m f = (case m of Inl e \<Rightarrow> Inl e | Inr a \<Rightarrow> f a)"

lemma require_Inr [run_simps]: "require b k = Inr r \<longleftrightarrow> b \<and> k = Inr r"
  by (simp add: require_def)

lemma require_True [simp]: "require True k = k"
  by (simp add: require_def)

lemma require_False [simp]: "require False k = Inl Assertion_failed"
  by (simp add: require_def)

lemma bind_run_simps [simp]: "bind_run (Inl e) f = Inl e" "bind_run (Inr a) f = f a"
  by (simp_all add: bind_run_def)

lemma bind_run_Inr [run_simps]: "bind_run m f = Inr r \<longleftrightarrow> (\<exists>a. m = Inr a \<and> f a = Inr r)"
  by (cases m) auto

section \<open>Little-endian codecs\<close>

fun le_encode :: "nat \<Rightarrow> nat \<Rightarrow> bytes" where
  "le_encode 0 v = []"
| "le_encode (Suc n) v = word_of_nat v # le_encode n (v div 256)"

fun le_decode :: "bytes \<Rightarrow> nat" where
  "le_decode [] = 0"
| "le_decode (b # bs) = unat b + 256 * le_decode bs"

lemma length_le_encode [simp, codec]: "length (le_encode n v) = n"
  by (induction n arbitrary: v) auto

lemma unat_byte_of_nat: "unat (word_of_nat v :: u8) = v mod 256"
  by (simp add: unat_of_nat)

lemma byte_of_nat_eqI: "v mod 256 = unat b \<Longrightarrow> (word_of_nat v :: u8) = b"
  by (simp add: word_unat_eq_iff unat_byte_of_nat)

lemma le_decode_encode [simp, codec]: "le_decode (le_encode n v) = v mod 256 ^ n"
proof (induction n arbitrary: v)
  case 0
  then show ?case by simp
next
  case (Suc n)
  then show ?case by (simp add: unat_byte_of_nat mod_mult2_eq)
qed

lemma le_encode_decode [simp, codec]: "le_encode (length bs) (le_decode bs) = bs"
proof (induction bs)
  case Nil
  then show ?case by simp
next
  case (Cons b bs)
  have lt: "unat b < 256" using unsigned_less [of b] by simp
  then have "(unat b + 256 * le_decode bs) div 256 = le_decode bs" by simp
  moreover have "(word_of_nat (unat b + 256 * le_decode bs) :: u8) = b"
    by (rule byte_of_nat_eqI) (use lt in simp)
  ultimately show ?case using Cons by simp
qed

lemma le_decode_bound: "le_decode bs < 256 ^ length bs"
proof (induction bs)
  case (Cons b bs)
  have "unat b < 256" using unsigned_less [of b] by simp
  then have "unat b + 256 * le_decode bs < 256 * (le_decode bs + 1)" by simp
  also have "\<dots> \<le> 256 * 256 ^ length bs" using Cons by (simp add: Suc_le_eq)
  finally show ?case by simp
qed simp

section \<open>Widening\<close>

lemma unat_16_bound: "unat (x :: u16) < 65536"
  using unsigned_less [of x] by simp

lemma unat_ucast_16_32 [simp]: "unat (ucast (x :: u16) :: u32) = unat x"
proof -
  have "unat x < 2 ^ 32" using unat_16_bound [of x] by simp
  then show ?thesis unfolding unsigned_ucast_eq by (simp add: take_bit_nat_eq_self)
qed

lemma unat_ucast_8_16 [simp]: "unat (ucast (z :: u8) :: u16) = unat z"
proof -
  have "unat z < 2 ^ 8" using unsigned_less [of z] by simp
  then show ?thesis unfolding unsigned_ucast_eq by (simp add: take_bit_nat_eq_self)
qed

lemma unat_ucast_8_32 [simp]: "unat (ucast (z :: u8) :: u32) = unat z"
proof -
  have "unat z < 2 ^ 8" using unsigned_less [of z] by simp
  then show ?thesis unfolding unsigned_ucast_eq by (simp add: take_bit_nat_eq_self)
qed

section \<open>Characters and decimal text\<close>

definition digit_char :: "nat \<Rightarrow> char" where
  "digit_char n = char_of (48 + n)"

fun show_nat :: "nat \<Rightarrow> string" where
  "show_nat n = (if n < 10 then [digit_char n] else show_nat (n div 10) @ [digit_char (n mod 10)])"

declare show_nat.simps [simp del]

definition show_int :: "int \<Rightarrow> string" where
  "show_int i = (if i < 0 then CHR ''-'' # show_nat (nat (- i)) else show_nat (nat i))"

definition char_code :: "char \<Rightarrow> nat" where
  "char_code c = of_char c"

lemma char_code_less: "char_code c < 256"
  by (simp add: char_code_def)

lemma char_code_inj: "char_code a = char_code b \<longleftrightarrow> a = b"
  by (simp add: char_code_def)

lemma char_code_digit: "n < 10 \<Longrightarrow> char_code (digit_char n) = 48 + n"
  by (simp add: char_code_def digit_char_def)

definition is_digit :: "char \<Rightarrow> bool" where
  "is_digit c \<longleftrightarrow> 48 \<le> char_code c \<and> char_code c \<le> 57"

fun read_nat :: "nat \<Rightarrow> string \<Rightarrow> nat" where
  "read_nat acc [] = acc"
| "read_nat acc (c # cs) = (if is_digit c then read_nat (10 * acc + (char_code c - 48)) cs else acc)"

lemma is_digit_digit_char: "n < 10 \<Longrightarrow> is_digit (digit_char n)"
  by (simp add: is_digit_def char_code_digit)

lemma show_nat_digits: "c \<in> set (show_nat n) \<Longrightarrow> is_digit c"
proof (induction n rule: show_nat.induct)
  case (1 n)
  then show ?case
    by (subst (asm) (2) show_nat.simps) (auto simp: is_digit_digit_char split: if_splits)
qed

lemma show_nat_not_Nil [simp]: "show_nat n \<noteq> []"
  by (subst show_nat.simps) simp

lemma read_nat_append:
  "\<forall>c \<in> set xs. is_digit c \<Longrightarrow> read_nat acc (xs @ ys) = read_nat (read_nat acc xs) ys"
  by (induction xs arbitrary: acc) auto

lemma read_show_nat: "read_nat 0 (show_nat n) = n"
proof (induction n rule: show_nat.induct)
  case (1 n)
  show ?case
  proof (cases "n < 10")
    case True
    then show ?thesis
      by (subst show_nat.simps) (simp add: is_digit_digit_char char_code_digit)
  next
    case False
    have "\<forall>c \<in> set (show_nat (n div 10)). is_digit c" by (simp add: show_nat_digits)
    then have "read_nat 0 (show_nat (n div 10) @ [digit_char (n mod 10)])
        = 10 * (n div 10) + n mod 10"
      using 1 False by (simp add: read_nat_append is_digit_digit_char char_code_digit)
    then show ?thesis using False by (subst show_nat.simps) simp
  qed
qed

lemma show_nat_inj: "show_nat m = show_nat n \<longleftrightarrow> m = n"
  by (metis read_show_nat)

text \<open>
  \<^verbatim>\<open>std::string\<close> gives a zero character one past its end; further out is undefined, and the
  modelled code does not read there unless its model says so.
\<close>

definition str_at :: "string \<Rightarrow> nat \<Rightarrow> char" where
  "str_at s i = (if i < length s then s ! i else CHR 0x00)"

section \<open>Loops\<close>

text \<open>The values of \<open>i\<close> in \<^verbatim>\<open>for (i = a; i <= b; i += s)\<close> for a positive step.\<close>

function range_step :: "int \<Rightarrow> int \<Rightarrow> int \<Rightarrow> int list" where
  "range_step a b s = (if a \<le> b \<and> 0 < s then a # range_step (a + s) b s else [])"
  by pat_completeness auto
termination
  by (relation "measure (\<lambda>(a, b, s). nat (b + 1 - a))") auto

declare range_step.simps [simp del]

lemma set_range_step_1: "set (range_step a b 1) = {a..b}"
proof (induction a b "1::int" rule: range_step.induct)
  case (1 a b)
  then show ?case by (subst range_step.simps) auto
qed

lemma distinct_range_step: "0 < s \<Longrightarrow> distinct (range_step a b s) \<and> (\<forall>x \<in> set (range_step a b s). a \<le> x)"
proof (induction a b s rule: range_step.induct)
  case (1 a b s)
  then show ?case by (subst (1 2) range_step.simps) fastforce
qed

lemma range_step_two: "0 < d \<Longrightarrow> range_step (- d) d (2 * d) = [- d, d]"
  by (simp add: range_step.simps)

end
