(* ===== verification/Constants.thy ===== *)
theory Constants
  imports Prelude
begin

text \<open>
  The enumerations of \<^verbatim>\<open>src/sources/const.h\<close> that the modelled components use, each as a
  datatype with the source's enumerators (an enumerator that is an alias of an earlier one,
  such as \<^verbatim>\<open>MAGIC_EFFECT_LAST\<close>, is not a constructor), and the integer value the source gives
  each enumerator.  The two fluid tables of the network protocol close the theory.
\<close>

datatype (plugins only: code) magic_effect =
    MAGIC_EFFECT_DRAW_BLOOD
  | MAGIC_EFFECT_LOSE_ENERGY
  | MAGIC_EFFECT_POFF
  | MAGIC_EFFECT_BLOCKHIT
  | MAGIC_EFFECT_EXPLOSION_AREA
  | MAGIC_EFFECT_EXPLOSION_DAMAGE
  | MAGIC_EFFECT_FIRE_AREA
  | MAGIC_EFFECT_YELLOW_RINGS
  | MAGIC_EFFECT_POISON_RINGS
  | MAGIC_EFFECT_HIT_AREA
  | MAGIC_EFFECT_TELEPORT
  | MAGIC_EFFECT_ENERGY_DAMAGE
  | MAGIC_EFFECT_WRAPS_BLUE
  | MAGIC_EFFECT_WRAPS_RED
  | MAGIC_EFFECT_WRAPS_GREEN
  | MAGIC_EFFECT_HITBY_FIRE
  | MAGIC_EFFECT_POISON
  | MAGIC_EFFECT_MORT_AREA
  | MAGIC_EFFECT_SOUND_GREEN
  | MAGIC_EFFECT_SOUND_RED
  | MAGIC_EFFECT_POISON_AREA
  | MAGIC_EFFECT_SOUND_YELLOW
  | MAGIC_EFFECT_SOUND_PURPLE
  | MAGIC_EFFECT_SOUND_BLUE
  | MAGIC_EFFECT_SOUND_WHITE
  | MAGIC_EFFECT_BUBBLES
  | MAGIC_EFFECT_CRAPS
  | MAGIC_EFFECT_GIFT_WRAPS
  | MAGIC_EFFECT_FIREWORK_YELLOW
  | MAGIC_EFFECT_FIREWORK_RED
  | MAGIC_EFFECT_FIREWORK_BLUE
  | MAGIC_EFFECT_STUN
  | MAGIC_EFFECT_SLEEP
  | MAGIC_EFFECT_WATERCREATURE
  | MAGIC_EFFECT_GROUNDSHAKER
  | MAGIC_EFFECT_HEARTS
  | MAGIC_EFFECT_FIREATTACK
  | MAGIC_EFFECT_ENERGY_AREA
  | MAGIC_EFFECT_SMALLCLOUDS
  | MAGIC_EFFECT_HOLYDAMAGE
  | MAGIC_EFFECT_BIGCLOUDS
  | MAGIC_EFFECT_ICEAREA
  | MAGIC_EFFECT_ICETORNADO
  | MAGIC_EFFECT_ICEATTACK
  | MAGIC_EFFECT_STONES
  | MAGIC_EFFECT_SMALLPLANTS
  | MAGIC_EFFECT_CARNIPHILA
  | MAGIC_EFFECT_PURPLEENERGY
  | MAGIC_EFFECT_YELLOWENERGY
  | MAGIC_EFFECT_HOLYAREA
  | MAGIC_EFFECT_BIGPLANTS
  | MAGIC_EFFECT_CAKE
  | MAGIC_EFFECT_GIANTICE
  | MAGIC_EFFECT_WATERSPLASH
  | MAGIC_EFFECT_PLANTATTACK
  | MAGIC_EFFECT_TUTORIALARROW
  | MAGIC_EFFECT_TUTORIALSQUARE
  | MAGIC_EFFECT_MIRRORHORIZONTAL
  | MAGIC_EFFECT_MIRRORVERTICAL
  | MAGIC_EFFECT_SKULLHORIZONTAL
  | MAGIC_EFFECT_SKULLVERTICAL
  | MAGIC_EFFECT_ASSASSIN
  | MAGIC_EFFECT_STEPSHORIZONTAL
  | MAGIC_EFFECT_BLOODYSTEPS
  | MAGIC_EFFECT_STEPSVERTICAL
  | MAGIC_EFFECT_YALAHARIGHOST
  | MAGIC_EFFECT_BATS
  | MAGIC_EFFECT_SMOKE
  | MAGIC_EFFECT_INSECTS
  | MAGIC_EFFECT_DRAGONHEAD
  | MAGIC_EFFECT_NONE
  | MAGIC_EFFECT_UNKNOWN

primrec magic_effect_value :: "magic_effect \<Rightarrow> int" where
    "magic_effect_value MAGIC_EFFECT_DRAW_BLOOD = 0"
  | "magic_effect_value MAGIC_EFFECT_LOSE_ENERGY = 1"
  | "magic_effect_value MAGIC_EFFECT_POFF = 2"
  | "magic_effect_value MAGIC_EFFECT_BLOCKHIT = 3"
  | "magic_effect_value MAGIC_EFFECT_EXPLOSION_AREA = 4"
  | "magic_effect_value MAGIC_EFFECT_EXPLOSION_DAMAGE = 5"
  | "magic_effect_value MAGIC_EFFECT_FIRE_AREA = 6"
  | "magic_effect_value MAGIC_EFFECT_YELLOW_RINGS = 7"
  | "magic_effect_value MAGIC_EFFECT_POISON_RINGS = 8"
  | "magic_effect_value MAGIC_EFFECT_HIT_AREA = 9"
  | "magic_effect_value MAGIC_EFFECT_TELEPORT = 10"
  | "magic_effect_value MAGIC_EFFECT_ENERGY_DAMAGE = 11"
  | "magic_effect_value MAGIC_EFFECT_WRAPS_BLUE = 12"
  | "magic_effect_value MAGIC_EFFECT_WRAPS_RED = 13"
  | "magic_effect_value MAGIC_EFFECT_WRAPS_GREEN = 14"
  | "magic_effect_value MAGIC_EFFECT_HITBY_FIRE = 15"
  | "magic_effect_value MAGIC_EFFECT_POISON = 16"
  | "magic_effect_value MAGIC_EFFECT_MORT_AREA = 17"
  | "magic_effect_value MAGIC_EFFECT_SOUND_GREEN = 18"
  | "magic_effect_value MAGIC_EFFECT_SOUND_RED = 19"
  | "magic_effect_value MAGIC_EFFECT_POISON_AREA = 20"
  | "magic_effect_value MAGIC_EFFECT_SOUND_YELLOW = 21"
  | "magic_effect_value MAGIC_EFFECT_SOUND_PURPLE = 22"
  | "magic_effect_value MAGIC_EFFECT_SOUND_BLUE = 23"
  | "magic_effect_value MAGIC_EFFECT_SOUND_WHITE = 24"
  | "magic_effect_value MAGIC_EFFECT_BUBBLES = 25"
  | "magic_effect_value MAGIC_EFFECT_CRAPS = 26"
  | "magic_effect_value MAGIC_EFFECT_GIFT_WRAPS = 27"
  | "magic_effect_value MAGIC_EFFECT_FIREWORK_YELLOW = 28"
  | "magic_effect_value MAGIC_EFFECT_FIREWORK_RED = 29"
  | "magic_effect_value MAGIC_EFFECT_FIREWORK_BLUE = 30"
  | "magic_effect_value MAGIC_EFFECT_STUN = 31"
  | "magic_effect_value MAGIC_EFFECT_SLEEP = 32"
  | "magic_effect_value MAGIC_EFFECT_WATERCREATURE = 33"
  | "magic_effect_value MAGIC_EFFECT_GROUNDSHAKER = 34"
  | "magic_effect_value MAGIC_EFFECT_HEARTS = 35"
  | "magic_effect_value MAGIC_EFFECT_FIREATTACK = 36"
  | "magic_effect_value MAGIC_EFFECT_ENERGY_AREA = 37"
  | "magic_effect_value MAGIC_EFFECT_SMALLCLOUDS = 38"
  | "magic_effect_value MAGIC_EFFECT_HOLYDAMAGE = 39"
  | "magic_effect_value MAGIC_EFFECT_BIGCLOUDS = 40"
  | "magic_effect_value MAGIC_EFFECT_ICEAREA = 41"
  | "magic_effect_value MAGIC_EFFECT_ICETORNADO = 42"
  | "magic_effect_value MAGIC_EFFECT_ICEATTACK = 43"
  | "magic_effect_value MAGIC_EFFECT_STONES = 44"
  | "magic_effect_value MAGIC_EFFECT_SMALLPLANTS = 45"
  | "magic_effect_value MAGIC_EFFECT_CARNIPHILA = 46"
  | "magic_effect_value MAGIC_EFFECT_PURPLEENERGY = 47"
  | "magic_effect_value MAGIC_EFFECT_YELLOWENERGY = 48"
  | "magic_effect_value MAGIC_EFFECT_HOLYAREA = 49"
  | "magic_effect_value MAGIC_EFFECT_BIGPLANTS = 50"
  | "magic_effect_value MAGIC_EFFECT_CAKE = 51"
  | "magic_effect_value MAGIC_EFFECT_GIANTICE = 52"
  | "magic_effect_value MAGIC_EFFECT_WATERSPLASH = 53"
  | "magic_effect_value MAGIC_EFFECT_PLANTATTACK = 54"
  | "magic_effect_value MAGIC_EFFECT_TUTORIALARROW = 55"
  | "magic_effect_value MAGIC_EFFECT_TUTORIALSQUARE = 56"
  | "magic_effect_value MAGIC_EFFECT_MIRRORHORIZONTAL = 57"
  | "magic_effect_value MAGIC_EFFECT_MIRRORVERTICAL = 58"
  | "magic_effect_value MAGIC_EFFECT_SKULLHORIZONTAL = 59"
  | "magic_effect_value MAGIC_EFFECT_SKULLVERTICAL = 60"
  | "magic_effect_value MAGIC_EFFECT_ASSASSIN = 61"
  | "magic_effect_value MAGIC_EFFECT_STEPSHORIZONTAL = 62"
  | "magic_effect_value MAGIC_EFFECT_BLOODYSTEPS = 63"
  | "magic_effect_value MAGIC_EFFECT_STEPSVERTICAL = 64"
  | "magic_effect_value MAGIC_EFFECT_YALAHARIGHOST = 65"
  | "magic_effect_value MAGIC_EFFECT_BATS = 66"
  | "magic_effect_value MAGIC_EFFECT_SMOKE = 67"
  | "magic_effect_value MAGIC_EFFECT_INSECTS = 68"
  | "magic_effect_value MAGIC_EFFECT_DRAGONHEAD = 69"
  | "magic_effect_value MAGIC_EFFECT_NONE = 70"
  | "magic_effect_value MAGIC_EFFECT_UNKNOWN = 71"

datatype (plugins only: code) shoot_effect =
    SHOOT_EFFECT_SPEAR
  | SHOOT_EFFECT_BOLT
  | SHOOT_EFFECT_ARROW
  | SHOOT_EFFECT_FIRE
  | SHOOT_EFFECT_ENERGY
  | SHOOT_EFFECT_POISONARROW
  | SHOOT_EFFECT_BURSTARROW
  | SHOOT_EFFECT_THROWINGSTAR
  | SHOOT_EFFECT_THROWINGKNIFE
  | SHOOT_EFFECT_SMALLSTONE
  | SHOOT_EFFECT_DEATH
  | SHOOT_EFFECT_LARGEROCK
  | SHOOT_EFFECT_SNOWBALL
  | SHOOT_EFFECT_POWERBOLT
  | SHOOT_EFFECT_POISONFIELD
  | SHOOT_EFFECT_INFERNALBOLT
  | SHOOT_EFFECT_HUNTINGSPEAR
  | SHOOT_EFFECT_ENCHANTEDSPEAR
  | SHOOT_EFFECT_REDSTAR
  | SHOOT_EFFECT_GREENSTAR
  | SHOOT_EFFECT_ROYALSPEAR
  | SHOOT_EFFECT_SNIPERARROW
  | SHOOT_EFFECT_ONYXARROW
  | SHOOT_EFFECT_PIERCINGBOLT
  | SHOOT_EFFECT_WHIRLWINDSWORD
  | SHOOT_EFFECT_WHIRLWINDAXE
  | SHOOT_EFFECT_WHIRLWINDCLUB
  | SHOOT_EFFECT_ETHEREALSPEAR
  | SHOOT_EFFECT_ICE
  | SHOOT_EFFECT_EARTH
  | SHOOT_EFFECT_HOLY
  | SHOOT_EFFECT_SUDDENDEATH
  | SHOOT_EFFECT_FLASHARROW
  | SHOOT_EFFECT_FLAMMINGARROW
  | SHOOT_EFFECT_SHIVERARROW
  | SHOOT_EFFECT_ENERGYBALL
  | SHOOT_EFFECT_SMALLICE
  | SHOOT_EFFECT_SMALLHOLY
  | SHOOT_EFFECT_SMALLEARTH
  | SHOOT_EFFECT_EARTHARROW
  | SHOOT_EFFECT_EXPLOSION
  | SHOOT_EFFECT_CAKE
  | SHOOT_EFFECT_WEAPONTYPE
  | SHOOT_EFFECT_NONE
  | SHOOT_EFFECT_UNKNOWN

primrec shoot_effect_value :: "shoot_effect \<Rightarrow> int" where
    "shoot_effect_value SHOOT_EFFECT_SPEAR = 0"
  | "shoot_effect_value SHOOT_EFFECT_BOLT = 1"
  | "shoot_effect_value SHOOT_EFFECT_ARROW = 2"
  | "shoot_effect_value SHOOT_EFFECT_FIRE = 3"
  | "shoot_effect_value SHOOT_EFFECT_ENERGY = 4"
  | "shoot_effect_value SHOOT_EFFECT_POISONARROW = 5"
  | "shoot_effect_value SHOOT_EFFECT_BURSTARROW = 6"
  | "shoot_effect_value SHOOT_EFFECT_THROWINGSTAR = 7"
  | "shoot_effect_value SHOOT_EFFECT_THROWINGKNIFE = 8"
  | "shoot_effect_value SHOOT_EFFECT_SMALLSTONE = 9"
  | "shoot_effect_value SHOOT_EFFECT_DEATH = 10"
  | "shoot_effect_value SHOOT_EFFECT_LARGEROCK = 11"
  | "shoot_effect_value SHOOT_EFFECT_SNOWBALL = 12"
  | "shoot_effect_value SHOOT_EFFECT_POWERBOLT = 13"
  | "shoot_effect_value SHOOT_EFFECT_POISONFIELD = 14"
  | "shoot_effect_value SHOOT_EFFECT_INFERNALBOLT = 15"
  | "shoot_effect_value SHOOT_EFFECT_HUNTINGSPEAR = 16"
  | "shoot_effect_value SHOOT_EFFECT_ENCHANTEDSPEAR = 17"
  | "shoot_effect_value SHOOT_EFFECT_REDSTAR = 18"
  | "shoot_effect_value SHOOT_EFFECT_GREENSTAR = 19"
  | "shoot_effect_value SHOOT_EFFECT_ROYALSPEAR = 20"
  | "shoot_effect_value SHOOT_EFFECT_SNIPERARROW = 21"
  | "shoot_effect_value SHOOT_EFFECT_ONYXARROW = 22"
  | "shoot_effect_value SHOOT_EFFECT_PIERCINGBOLT = 23"
  | "shoot_effect_value SHOOT_EFFECT_WHIRLWINDSWORD = 24"
  | "shoot_effect_value SHOOT_EFFECT_WHIRLWINDAXE = 25"
  | "shoot_effect_value SHOOT_EFFECT_WHIRLWINDCLUB = 26"
  | "shoot_effect_value SHOOT_EFFECT_ETHEREALSPEAR = 27"
  | "shoot_effect_value SHOOT_EFFECT_ICE = 28"
  | "shoot_effect_value SHOOT_EFFECT_EARTH = 29"
  | "shoot_effect_value SHOOT_EFFECT_HOLY = 30"
  | "shoot_effect_value SHOOT_EFFECT_SUDDENDEATH = 31"
  | "shoot_effect_value SHOOT_EFFECT_FLASHARROW = 32"
  | "shoot_effect_value SHOOT_EFFECT_FLAMMINGARROW = 33"
  | "shoot_effect_value SHOOT_EFFECT_SHIVERARROW = 34"
  | "shoot_effect_value SHOOT_EFFECT_ENERGYBALL = 35"
  | "shoot_effect_value SHOOT_EFFECT_SMALLICE = 36"
  | "shoot_effect_value SHOOT_EFFECT_SMALLHOLY = 37"
  | "shoot_effect_value SHOOT_EFFECT_SMALLEARTH = 38"
  | "shoot_effect_value SHOOT_EFFECT_EARTHARROW = 39"
  | "shoot_effect_value SHOOT_EFFECT_EXPLOSION = 40"
  | "shoot_effect_value SHOOT_EFFECT_CAKE = 41"
  | "shoot_effect_value SHOOT_EFFECT_WEAPONTYPE = 254"
  | "shoot_effect_value SHOOT_EFFECT_NONE = 255"
  | "shoot_effect_value SHOOT_EFFECT_UNKNOWN = 65535"

datatype (plugins only: code) fluid_color =
    FLUID_EMPTY
  | FLUID_BLUE
  | FLUID_RED
  | FLUID_BROWN
  | FLUID_GREEN
  | FLUID_YELLOW
  | FLUID_WHITE
  | FLUID_PURPLE

primrec fluid_color_value :: "fluid_color \<Rightarrow> int" where
    "fluid_color_value FLUID_EMPTY = 0"
  | "fluid_color_value FLUID_BLUE = 1"
  | "fluid_color_value FLUID_RED = 2"
  | "fluid_color_value FLUID_BROWN = 3"
  | "fluid_color_value FLUID_GREEN = 4"
  | "fluid_color_value FLUID_YELLOW = 5"
  | "fluid_color_value FLUID_WHITE = 6"
  | "fluid_color_value FLUID_PURPLE = 7"

datatype (plugins only: code) fluid_type =
    FLUID_NONE
  | FLUID_WATER
  | FLUID_BLOOD
  | FLUID_BEER
  | FLUID_SLIME
  | FLUID_LEMONADE
  | FLUID_MILK
  | FLUID_MANA
  | FLUID_LIFE
  | FLUID_OIL
  | FLUID_URINE
  | FLUID_COCONUTMILK
  | FLUID_WINE
  | FLUID_MUD
  | FLUID_FRUITJUICE
  | FLUID_LAVA
  | FLUID_RUM
  | FLUID_SWAMP

primrec fluid_type_value :: "fluid_type \<Rightarrow> int" where
    "fluid_type_value FLUID_NONE = 0"
  | "fluid_type_value FLUID_WATER = 1"
  | "fluid_type_value FLUID_BLOOD = 2"
  | "fluid_type_value FLUID_BEER = 3"
  | "fluid_type_value FLUID_SLIME = 4"
  | "fluid_type_value FLUID_LEMONADE = 5"
  | "fluid_type_value FLUID_MILK = 6"
  | "fluid_type_value FLUID_MANA = 7"
  | "fluid_type_value FLUID_LIFE = 10"
  | "fluid_type_value FLUID_OIL = 11"
  | "fluid_type_value FLUID_URINE = 13"
  | "fluid_type_value FLUID_COCONUTMILK = 14"
  | "fluid_type_value FLUID_WINE = 15"
  | "fluid_type_value FLUID_MUD = 19"
  | "fluid_type_value FLUID_FRUITJUICE = 21"
  | "fluid_type_value FLUID_LAVA = 26"
  | "fluid_type_value FLUID_RUM = 27"
  | "fluid_type_value FLUID_SWAMP = 28"

datatype (plugins only: code) client_fluid =
    CLIENTFLUID_EMPTY
  | CLIENTFLUID_BLUE
  | CLIENTFLUID_PURPLE
  | CLIENTFLUID_BROWN_1
  | CLIENTFLUID_BROWN_2
  | CLIENTFLUID_RED
  | CLIENTFLUID_GREEN
  | CLIENTFLUID_BROWN
  | CLIENTFLUID_YELLOW
  | CLIENTFLUID_WHITE

primrec client_fluid_value :: "client_fluid \<Rightarrow> int" where
    "client_fluid_value CLIENTFLUID_EMPTY = 0"
  | "client_fluid_value CLIENTFLUID_BLUE = 1"
  | "client_fluid_value CLIENTFLUID_PURPLE = 2"
  | "client_fluid_value CLIENTFLUID_BROWN_1 = 3"
  | "client_fluid_value CLIENTFLUID_BROWN_2 = 4"
  | "client_fluid_value CLIENTFLUID_RED = 5"
  | "client_fluid_value CLIENTFLUID_GREEN = 6"
  | "client_fluid_value CLIENTFLUID_BROWN = 7"
  | "client_fluid_value CLIENTFLUID_YELLOW = 8"
  | "client_fluid_value CLIENTFLUID_WHITE = 9"

datatype (plugins only: code) ammo =
    AMMO_NONE
  | AMMO_BOLT
  | AMMO_ARROW
  | AMMO_SPEAR
  | AMMO_THROWINGSTAR
  | AMMO_THROWINGKNIFE
  | AMMO_STONE
  | AMMO_SNOWBALL

primrec ammo_value :: "ammo \<Rightarrow> int" where
    "ammo_value AMMO_NONE = 0"
  | "ammo_value AMMO_BOLT = 1"
  | "ammo_value AMMO_ARROW = 2"
  | "ammo_value AMMO_SPEAR = 3"
  | "ammo_value AMMO_THROWINGSTAR = 4"
  | "ammo_value AMMO_THROWINGKNIFE = 5"
  | "ammo_value AMMO_STONE = 6"
  | "ammo_value AMMO_SNOWBALL = 7"

datatype (plugins only: code) ammo_action =
    AMMOACTION_NONE
  | AMMOACTION_REMOVECOUNT
  | AMMOACTION_REMOVECHARGE
  | AMMOACTION_MOVE
  | AMMOACTION_MOVEBACK

primrec ammo_action_value :: "ammo_action \<Rightarrow> int" where
    "ammo_action_value AMMOACTION_NONE = 0"
  | "ammo_action_value AMMOACTION_REMOVECOUNT = 1"
  | "ammo_action_value AMMOACTION_REMOVECHARGE = 2"
  | "ammo_action_value AMMOACTION_MOVE = 3"
  | "ammo_action_value AMMOACTION_MOVEBACK = 4"

datatype (plugins only: code) skull =
    SKULL_NONE
  | SKULL_YELLOW
  | SKULL_GREEN
  | SKULL_WHITE
  | SKULL_RED
  | SKULL_BLACK

primrec skull_value :: "skull \<Rightarrow> int" where
    "skull_value SKULL_NONE = 0"
  | "skull_value SKULL_YELLOW = 1"
  | "skull_value SKULL_GREEN = 2"
  | "skull_value SKULL_WHITE = 3"
  | "skull_value SKULL_RED = 4"
  | "skull_value SKULL_BLACK = 5"

datatype (plugins only: code) party_shield =
    SHIELD_NONE
  | SHIELD_WHITEYELLOW
  | SHIELD_WHITEBLUE
  | SHIELD_BLUE
  | SHIELD_YELLOW
  | SHIELD_BLUE_SHAREDEXP
  | SHIELD_YELLOW_SHAREDEXP
  | SHIELD_BLUE_NOSHAREDEXP_BLINK
  | SHIELD_YELLOW_NOSHAREDEXP_BLINK
  | SHIELD_BLUE_NOSHAREDEXP
  | SHIELD_YELLOW_NOSHAREDEXP

primrec party_shield_value :: "party_shield \<Rightarrow> int" where
    "party_shield_value SHIELD_NONE = 0"
  | "party_shield_value SHIELD_WHITEYELLOW = 1"
  | "party_shield_value SHIELD_WHITEBLUE = 2"
  | "party_shield_value SHIELD_BLUE = 3"
  | "party_shield_value SHIELD_YELLOW = 4"
  | "party_shield_value SHIELD_BLUE_SHAREDEXP = 5"
  | "party_shield_value SHIELD_YELLOW_SHAREDEXP = 6"
  | "party_shield_value SHIELD_BLUE_NOSHAREDEXP_BLINK = 7"
  | "party_shield_value SHIELD_YELLOW_NOSHAREDEXP_BLINK = 8"
  | "party_shield_value SHIELD_BLUE_NOSHAREDEXP = 9"
  | "party_shield_value SHIELD_YELLOW_NOSHAREDEXP = 10"

datatype (plugins only: code) encryption =
    ENCRYPTION_PLAIN
  | ENCRYPTION_MD5
  | ENCRYPTION_SHA1

primrec encryption_value :: "encryption \<Rightarrow> int" where
    "encryption_value ENCRYPTION_PLAIN = 0"
  | "encryption_value ENCRYPTION_MD5 = 1"
  | "encryption_value ENCRYPTION_SHA1 = 2"

datatype (plugins only: code) violation_action =
    ACTION_NOTATION
  | ACTION_NAMEREPORT
  | ACTION_BANISHMENT
  | ACTION_BANREPORT
  | ACTION_BANFINAL
  | ACTION_BANREPORTFINAL
  | ACTION_STATEMENT
  | ACTION_DELETION
  | ACTION_NAMELOCK
  | ACTION_BANLOCK
  | ACTION_BANLOCKFINAL
  | ACTION_PLACEHOLDER

primrec violation_action_value :: "violation_action \<Rightarrow> int" where
    "violation_action_value ACTION_NOTATION = 0"
  | "violation_action_value ACTION_NAMEREPORT = 1"
  | "violation_action_value ACTION_BANISHMENT = 2"
  | "violation_action_value ACTION_BANREPORT = 3"
  | "violation_action_value ACTION_BANFINAL = 4"
  | "violation_action_value ACTION_BANREPORTFINAL = 5"
  | "violation_action_value ACTION_STATEMENT = 6"
  | "violation_action_value ACTION_DELETION = 7"
  | "violation_action_value ACTION_NAMELOCK = 8"
  | "violation_action_value ACTION_BANLOCK = 9"
  | "violation_action_value ACTION_BANLOCKFINAL = 10"
  | "violation_action_value ACTION_PLACEHOLDER = 11"

datatype (plugins only: code) combat_type =
    COMBAT_NONE
  | COMBAT_PHYSICALDAMAGE
  | COMBAT_ENERGYDAMAGE
  | COMBAT_EARTHDAMAGE
  | COMBAT_FIREDAMAGE
  | COMBAT_UNDEFINEDDAMAGE
  | COMBAT_LIFEDRAIN
  | COMBAT_MANADRAIN
  | COMBAT_HEALING
  | COMBAT_DROWNDAMAGE
  | COMBAT_ICEDAMAGE
  | COMBAT_HOLYDAMAGE
  | COMBAT_DEATHDAMAGE

primrec combat_type_value :: "combat_type \<Rightarrow> int" where
    "combat_type_value COMBAT_NONE = 0"
  | "combat_type_value COMBAT_PHYSICALDAMAGE = 1"
  | "combat_type_value COMBAT_ENERGYDAMAGE = 2"
  | "combat_type_value COMBAT_EARTHDAMAGE = 4"
  | "combat_type_value COMBAT_FIREDAMAGE = 8"
  | "combat_type_value COMBAT_UNDEFINEDDAMAGE = 16"
  | "combat_type_value COMBAT_LIFEDRAIN = 32"
  | "combat_type_value COMBAT_MANADRAIN = 64"
  | "combat_type_value COMBAT_HEALING = 128"
  | "combat_type_value COMBAT_DROWNDAMAGE = 256"
  | "combat_type_value COMBAT_ICEDAMAGE = 512"
  | "combat_type_value COMBAT_HOLYDAMAGE = 1024"
  | "combat_type_value COMBAT_DEATHDAMAGE = 2048"

datatype (plugins only: code) combat_type_index =
    COMBATINDEX_NONE
  | COMBATINDEX_PHYSICALDAMAGE
  | COMBATINDEX_ENERGYDAMAGE
  | COMBATINDEX_EARTHDAMAGE
  | COMBATINDEX_FIREDAMAGE
  | COMBATINDEX_UNDEFINEDDAMAGE
  | COMBATINDEX_LIFEDRAIN
  | COMBATINDEX_MANADRAIN
  | COMBATINDEX_HEALING
  | COMBATINDEX_DROWNDAMAGE
  | COMBATINDEX_ICEDAMAGE
  | COMBATINDEX_HOLYDAMAGE
  | COMBATINDEX_DEATHDAMAGE
  | COMBATINDEX_COUNT

primrec combat_type_index_value :: "combat_type_index \<Rightarrow> int" where
    "combat_type_index_value COMBATINDEX_NONE = 0"
  | "combat_type_index_value COMBATINDEX_PHYSICALDAMAGE = 1"
  | "combat_type_index_value COMBATINDEX_ENERGYDAMAGE = 2"
  | "combat_type_index_value COMBATINDEX_EARTHDAMAGE = 3"
  | "combat_type_index_value COMBATINDEX_FIREDAMAGE = 4"
  | "combat_type_index_value COMBATINDEX_UNDEFINEDDAMAGE = 5"
  | "combat_type_index_value COMBATINDEX_LIFEDRAIN = 6"
  | "combat_type_index_value COMBATINDEX_MANADRAIN = 7"
  | "combat_type_index_value COMBATINDEX_HEALING = 8"
  | "combat_type_index_value COMBATINDEX_DROWNDAMAGE = 9"
  | "combat_type_index_value COMBATINDEX_ICEDAMAGE = 10"
  | "combat_type_index_value COMBATINDEX_HOLYDAMAGE = 11"
  | "combat_type_index_value COMBATINDEX_DEATHDAMAGE = 12"
  | "combat_type_index_value COMBATINDEX_COUNT = 13"

datatype (plugins only: code) skills =
    SKILL_FIST
  | SKILL_CLUB
  | SKILL_SWORD
  | SKILL_AXE
  | SKILL_DIST
  | SKILL_SHIELD
  | SKILL_FISH
  | SKILL__MAGLEVEL
  | SKILL__LEVEL

primrec skills_value :: "skills \<Rightarrow> int" where
    "skills_value SKILL_FIST = 0"
  | "skills_value SKILL_CLUB = 1"
  | "skills_value SKILL_SWORD = 2"
  | "skills_value SKILL_AXE = 3"
  | "skills_value SKILL_DIST = 4"
  | "skills_value SKILL_SHIELD = 5"
  | "skills_value SKILL_FISH = 6"
  | "skills_value SKILL__MAGLEVEL = 7"
  | "skills_value SKILL__LEVEL = 8"

datatype (plugins only: code) slots =
    SLOT_WHEREEVER
  | SLOT_HEAD
  | SLOT_NECKLACE
  | SLOT_BACKPACK
  | SLOT_ARMOR
  | SLOT_RIGHT
  | SLOT_LEFT
  | SLOT_LEGS
  | SLOT_FEET
  | SLOT_RING
  | SLOT_AMMO
  | SLOT_DEPOT
  | SLOT_HAND

primrec slots_value :: "slots \<Rightarrow> int" where
    "slots_value SLOT_WHEREEVER = 0"
  | "slots_value SLOT_HEAD = 1"
  | "slots_value SLOT_NECKLACE = 2"
  | "slots_value SLOT_BACKPACK = 3"
  | "slots_value SLOT_ARMOR = 4"
  | "slots_value SLOT_RIGHT = 5"
  | "slots_value SLOT_LEFT = 6"
  | "slots_value SLOT_LEGS = 7"
  | "slots_value SLOT_FEET = 8"
  | "slots_value SLOT_RING = 9"
  | "slots_value SLOT_AMMO = 10"
  | "slots_value SLOT_DEPOT = 11"
  | "slots_value SLOT_HAND = 12"

datatype (plugins only: code) return_value =
    RET_DONTSHOWMESSAGE
  | RET_NOERROR
  | RET_NOTPOSSIBLE
  | RET_NOTENOUGHROOM
  | RET_PLAYERISPZLOCKED
  | RET_PLAYERISNOTINVITED
  | RET_CANNOTTHROW
  | RET_THEREISNOWAY
  | RET_DESTINATIONOUTOFREACH
  | RET_CREATUREBLOCK
  | RET_NOTMOVEABLE
  | RET_DROPTWOHANDEDITEM
  | RET_BOTHHANDSNEEDTOBEFREE
  | RET_CANONLYUSEONEWEAPON
  | RET_NEEDEXCHANGE
  | RET_CANNOTBEDRESSED
  | RET_PUTTHISOBJECTINYOURHAND
  | RET_PUTTHISOBJECTINBOTHHANDS
  | RET_TOOFARAWAY
  | RET_FIRSTGODOWNSTAIRS
  | RET_FIRSTGOUPSTAIRS
  | RET_CONTAINERNOTENOUGHROOM
  | RET_NOTENOUGHCAPACITY
  | RET_CANNOTPICKUP
  | RET_THISISIMPOSSIBLE
  | RET_DEPOTISFULL
  | RET_CREATUREDOESNOTEXIST
  | RET_CANNOTUSETHISOBJECT
  | RET_PLAYERWITHTHISNAMEISNOTONLINE
  | RET_NOTREQUIREDLEVELTOUSERUNE
  | RET_YOUAREALREADYTRADING
  | RET_THISPLAYERISALREADYTRADING
  | RET_YOUMAYNOTLOGOUTDURINGAFIGHT
  | RET_DIRECTPLAYERSHOOT
  | RET_NOTENOUGHLEVEL
  | RET_NOTENOUGHMAGICLEVEL
  | RET_NOTENOUGHMANA
  | RET_NOTENOUGHSOUL
  | RET_YOUAREEXHAUSTED
  | RET_PLAYERISNOTREACHABLE
  | RET_CANONLYUSETHISRUNEONCREATURES
  | RET_ACTIONNOTPERMITTEDINPROTECTIONZONE
  | RET_YOUMAYNOTATTACKTHISPLAYER
  | RET_YOUMAYNOTATTACKAPERSONINPROTECTIONZONE
  | RET_YOUMAYNOTATTACKAPERSONWHILEINPROTECTIONZONE
  | RET_YOUMAYNOTATTACKTHISCREATURE
  | RET_YOUCANONLYUSEITONCREATURES
  | RET_CREATUREISNOTREACHABLE
  | RET_TURNSECUREMODETOATTACKUNMARKEDPLAYERS
  | RET_PREMIUM_REQUIRED
  | RET_YOUNEEDTOLEARNTHISSPELL
  | RET_YOURVOCATIONCANNOTUSETHISSPELL
  | RET_YOUNEEDAWEAPONTOUSETHISSPELL
  | RET_PLAYERISPZLOCKEDLEAVEPVPZONE
  | RET_PLAYERISPZLOCKEDENTERPVPZONE
  | RET_ACTIONNOTPERMITTEDINANOPVPZONE
  | RET_YOUCANNOTLOGOUTHERE
  | RET_YOUNEEDAMAGICITEMTOCASTSPELL
  | RET_CANNOTCONJUREITEMHERE
  | RET_YOUNEEDTOSPLITYOURSPEARS
  | RET_NAMEISTOOAMBIGUOUS
  | RET_CANONLYUSEONESHIELD
  | RET_YOUARENOTTHEOWNER
  | RET_YOUMAYNOTCASTAREAONBLACKSKULL
  | RET_TILEISFULL
  | RET_LOCKED

primrec return_value_value :: "return_value \<Rightarrow> int" where
    "return_value_value RET_DONTSHOWMESSAGE = 0"
  | "return_value_value RET_NOERROR = 1"
  | "return_value_value RET_NOTPOSSIBLE = 2"
  | "return_value_value RET_NOTENOUGHROOM = 3"
  | "return_value_value RET_PLAYERISPZLOCKED = 4"
  | "return_value_value RET_PLAYERISNOTINVITED = 5"
  | "return_value_value RET_CANNOTTHROW = 6"
  | "return_value_value RET_THEREISNOWAY = 7"
  | "return_value_value RET_DESTINATIONOUTOFREACH = 8"
  | "return_value_value RET_CREATUREBLOCK = 9"
  | "return_value_value RET_NOTMOVEABLE = 10"
  | "return_value_value RET_DROPTWOHANDEDITEM = 11"
  | "return_value_value RET_BOTHHANDSNEEDTOBEFREE = 12"
  | "return_value_value RET_CANONLYUSEONEWEAPON = 13"
  | "return_value_value RET_NEEDEXCHANGE = 14"
  | "return_value_value RET_CANNOTBEDRESSED = 15"
  | "return_value_value RET_PUTTHISOBJECTINYOURHAND = 16"
  | "return_value_value RET_PUTTHISOBJECTINBOTHHANDS = 17"
  | "return_value_value RET_TOOFARAWAY = 18"
  | "return_value_value RET_FIRSTGODOWNSTAIRS = 19"
  | "return_value_value RET_FIRSTGOUPSTAIRS = 20"
  | "return_value_value RET_CONTAINERNOTENOUGHROOM = 21"
  | "return_value_value RET_NOTENOUGHCAPACITY = 22"
  | "return_value_value RET_CANNOTPICKUP = 23"
  | "return_value_value RET_THISISIMPOSSIBLE = 24"
  | "return_value_value RET_DEPOTISFULL = 25"
  | "return_value_value RET_CREATUREDOESNOTEXIST = 26"
  | "return_value_value RET_CANNOTUSETHISOBJECT = 27"
  | "return_value_value RET_PLAYERWITHTHISNAMEISNOTONLINE = 28"
  | "return_value_value RET_NOTREQUIREDLEVELTOUSERUNE = 29"
  | "return_value_value RET_YOUAREALREADYTRADING = 30"
  | "return_value_value RET_THISPLAYERISALREADYTRADING = 31"
  | "return_value_value RET_YOUMAYNOTLOGOUTDURINGAFIGHT = 32"
  | "return_value_value RET_DIRECTPLAYERSHOOT = 33"
  | "return_value_value RET_NOTENOUGHLEVEL = 34"
  | "return_value_value RET_NOTENOUGHMAGICLEVEL = 35"
  | "return_value_value RET_NOTENOUGHMANA = 36"
  | "return_value_value RET_NOTENOUGHSOUL = 37"
  | "return_value_value RET_YOUAREEXHAUSTED = 38"
  | "return_value_value RET_PLAYERISNOTREACHABLE = 39"
  | "return_value_value RET_CANONLYUSETHISRUNEONCREATURES = 40"
  | "return_value_value RET_ACTIONNOTPERMITTEDINPROTECTIONZONE = 41"
  | "return_value_value RET_YOUMAYNOTATTACKTHISPLAYER = 42"
  | "return_value_value RET_YOUMAYNOTATTACKAPERSONINPROTECTIONZONE = 43"
  | "return_value_value RET_YOUMAYNOTATTACKAPERSONWHILEINPROTECTIONZONE = 44"
  | "return_value_value RET_YOUMAYNOTATTACKTHISCREATURE = 45"
  | "return_value_value RET_YOUCANONLYUSEITONCREATURES = 46"
  | "return_value_value RET_CREATUREISNOTREACHABLE = 47"
  | "return_value_value RET_TURNSECUREMODETOATTACKUNMARKEDPLAYERS = 48"
  | "return_value_value RET_PREMIUM_REQUIRED = 49"
  | "return_value_value RET_YOUNEEDTOLEARNTHISSPELL = 50"
  | "return_value_value RET_YOURVOCATIONCANNOTUSETHISSPELL = 51"
  | "return_value_value RET_YOUNEEDAWEAPONTOUSETHISSPELL = 52"
  | "return_value_value RET_PLAYERISPZLOCKEDLEAVEPVPZONE = 53"
  | "return_value_value RET_PLAYERISPZLOCKEDENTERPVPZONE = 54"
  | "return_value_value RET_ACTIONNOTPERMITTEDINANOPVPZONE = 55"
  | "return_value_value RET_YOUCANNOTLOGOUTHERE = 56"
  | "return_value_value RET_YOUNEEDAMAGICITEMTOCASTSPELL = 57"
  | "return_value_value RET_CANNOTCONJUREITEMHERE = 58"
  | "return_value_value RET_YOUNEEDTOSPLITYOURSPEARS = 59"
  | "return_value_value RET_NAMEISTOOAMBIGUOUS = 60"
  | "return_value_value RET_CANONLYUSEONESHIELD = 61"
  | "return_value_value RET_YOUARENOTTHEOWNER = 62"
  | "return_value_value RET_YOUMAYNOTCASTAREAONBLACKSKULL = 63"
  | "return_value_value RET_TILEISFULL = 64"
  | "return_value_value RET_LOCKED = 65"

datatype (plugins only: code) file_type =
    FILETYPE_CONFIG
  | FILETYPE_LOG
  | FILETYPE_MOD
  | FILETYPE_OTHER
  | FILETYPE_XML

primrec file_type_value :: "file_type \<Rightarrow> int" where
    "file_type_value FILETYPE_CONFIG = 0"
  | "file_type_value FILETYPE_LOG = 1"
  | "file_type_value FILETYPE_MOD = 2"
  | "file_type_value FILETYPE_OTHER = 3"
  | "file_type_value FILETYPE_XML = 4"

section \<open>The fluid tables of the network protocol\<close>

definition fluidMap :: "client_fluid list" where
  "fluidMap =
    [CLIENTFLUID_EMPTY, CLIENTFLUID_BLUE, CLIENTFLUID_RED, CLIENTFLUID_BROWN_1,
     CLIENTFLUID_GREEN, CLIENTFLUID_YELLOW, CLIENTFLUID_WHITE, CLIENTFLUID_PURPLE]"

definition reverseFluidMap :: "int list" where
  "reverseFluidMap =
    [fluid_color_value FLUID_EMPTY, fluid_type_value FLUID_WATER, fluid_type_value FLUID_MANA,
     fluid_type_value FLUID_BEER, fluid_color_value FLUID_EMPTY, fluid_type_value FLUID_BLOOD,
     fluid_type_value FLUID_SLIME, fluid_color_value FLUID_EMPTY, fluid_type_value FLUID_LEMONADE,
     fluid_type_value FLUID_MILK]"

end
