(* ===== verification/Positions.thy ===== *)
theory Positions
  imports Constants
begin

text \<open>
  Map coordinates: \<^verbatim>\<open>src/sources/position.h\<close> and \<^verbatim>\<open>src/sources/position.cpp\<close>, and the direction
  helpers of \<^verbatim>\<open>src/sources/tools.cpp\<close>.  The build never defines \<^verbatim>\<open>NDEBUG\<close>, so every
  \<^verbatim>\<open>assert\<close> is live: an operation that contains one returns a run, and copying a position
  (copy constructor, assignment, by-value argument) checks that it is valid or \<^verbatim>\<open>INVALID\<close>.
  Coordinates keep their width; the differences the code takes are between promoted
  \<^verbatim>\<open>int\<close>s and cannot overflow.
\<close>

section \<open>Directions\<close>

datatype direction =
    NORTH | EAST | SOUTH | WEST | SOUTH_WEST | SOUTH_EAST | NORTH_WEST | NORTH_EAST | DIR_NONE

primrec direction_text :: "direction \<Rightarrow> string" where
  "direction_text DIR_NONE = ''none''"
| "direction_text NORTH = ''north''"
| "direction_text EAST = ''east''"
| "direction_text WEST = ''west''"
| "direction_text SOUTH = ''south''"
| "direction_text SOUTH_WEST = ''south-west''"
| "direction_text SOUTH_EAST = ''south-east''"
| "direction_text NORTH_WEST = ''north-west''"
| "direction_text NORTH_EAST = ''north-east''"

section \<open>Position\<close>

record position =
  pos_x :: u16
  pos_y :: u16
  pos_z :: u8

definition MAX_X :: u16 where "MAX_X = 60000"
definition MAX_Y :: u16 where "MAX_Y = 60000"
definition MAX_Z :: u8 where "MAX_Z = 15"
definition MIN_X :: u16 where "MIN_X = 0"
definition MIN_Y :: u16 where "MIN_Y = 0"
definition MIN_Z :: u8 where "MIN_Z = 0"

lemmas limits = MAX_X_def MAX_Y_def MAX_Z_def MIN_X_def MIN_Y_def MIN_Z_def

definition INVALID :: position where
  "INVALID = \<lparr>pos_x = 65535, pos_y = 65535, pos_z = 255\<rparr>"

definition coordinates_isValid :: "int \<Rightarrow> int \<Rightarrow> int \<Rightarrow> bool" where
  "coordinates_isValid x y z \<longleftrightarrow>
     uint MIN_X \<le> x \<and> x \<le> uint MAX_X \<and> uint MIN_Y \<le> y \<and> y \<le> uint MAX_Y
     \<and> uint MIN_Z \<le> z \<and> z \<le> uint MAX_Z"

definition position_isValid :: "position \<Rightarrow> bool" where
  "position_isValid p = coordinates_isValid (uint (pos_x p)) (uint (pos_y p)) (uint (pos_z p))"

definition position_default :: position where
  "position_default = \<lparr>pos_x = 0, pos_y = 0, pos_z = 0\<rparr>"

definition position_new :: "u16 \<Rightarrow> u16 \<Rightarrow> u8 \<Rightarrow> position run" where
  "position_new x y z =
     (let p = \<lparr>pos_x = x, pos_y = y, pos_z = z\<rparr> in require (position_isValid p) (Inr p))"

definition position_copy :: "position \<Rightarrow> position run" where
  "position_copy p = require (position_isValid p \<or> p = INVALID) (Inr p)"

definition position_assign :: "position \<Rightarrow> position \<Rightarrow> position run" where
  "position_assign target p = require (position_isValid p \<or> p = INVALID)
     (Inr (target\<lparr>pos_x := pos_x p, pos_y := pos_y p, pos_z := pos_z p\<rparr>))"

definition position_eq :: "position \<Rightarrow> position \<Rightarrow> bool" where
  "position_eq p q \<longleftrightarrow> pos_x p = pos_x q \<and> pos_y p = pos_y q \<and> pos_z p = pos_z q"

definition position_neq :: "position \<Rightarrow> position \<Rightarrow> bool" where
  "position_neq p q \<longleftrightarrow> pos_x p \<noteq> pos_x q \<or> pos_y p \<noteq> pos_y q \<or> pos_z p \<noteq> pos_z q"

definition areInRange :: "position \<Rightarrow> position \<Rightarrow> position \<Rightarrow> bool" where
  "areInRange rng a b \<longleftrightarrow>
     \<bar>uint (pos_x a) - uint (pos_x b)\<bar> \<le> uint (pos_x rng)
     \<and> \<bar>uint (pos_y a) - uint (pos_y b)\<bar> \<le> uint (pos_y rng)
     \<and> \<bar>uint (pos_z a) - uint (pos_z b)\<bar> \<le> uint (pos_z rng)"

definition areInRange_xyz :: "nat \<Rightarrow> nat \<Rightarrow> nat \<Rightarrow> position \<Rightarrow> position \<Rightarrow> bool" where
  "areInRange_xyz rangeX rangeY rangeZ a b \<longleftrightarrow>
     \<bar>uint (pos_x a) - uint (pos_x b)\<bar> \<le> int rangeX
     \<and> \<bar>uint (pos_y a) - uint (pos_y b)\<bar> \<le> int rangeY
     \<and> \<bar>uint (pos_z a) - uint (pos_z b)\<bar> \<le> int rangeZ"

definition areInRange_xy :: "nat \<Rightarrow> nat \<Rightarrow> position \<Rightarrow> position \<Rightarrow> bool" where
  "areInRange_xy rangeX rangeY a b \<longleftrightarrow>
     \<bar>uint (pos_x a) - uint (pos_x b)\<bar> \<le> int rangeX
     \<and> \<bar>uint (pos_y a) - uint (pos_y b)\<bar> \<le> int rangeY"

definition distanceTo :: "position \<Rightarrow> position \<Rightarrow> int" where
  "distanceTo self position =
     (let dx = \<bar>uint (pos_x position) - uint (pos_x self)\<bar>;
          dy = \<bar>uint (pos_y position) - uint (pos_y self)\<bar>;
          dz = \<bar>uint (pos_z position) - uint (pos_z self)\<bar>
      in max dx (max dy dz))"

definition isNeighborOf :: "position \<Rightarrow> position \<Rightarrow> bool" where
  "isNeighborOf self position =
     (if pos_z position \<noteq> pos_z self then False
      else let dx = \<bar>uint (pos_x position) - uint (pos_x self)\<bar> in
        if dx > 1 then False
        else let dy = \<bar>uint (pos_y position) - uint (pos_y self)\<bar> in
          if dy > 1 then False
          else if dx + dy = 0 then False
          else True)"

definition position_plus :: "position \<Rightarrow> position \<Rightarrow> position run" where
  "position_plus self position =
     require (position_isValid self)
       (require (position_isValid position)
         (require (uint MAX_X - uint (pos_x position) \<le> uint (pos_x self)
                   \<and> uint MAX_Y - uint (pos_y position) \<le> uint (pos_y self)
                   \<and> uint MAX_Z - uint (pos_z position) \<le> uint (pos_z self))
           (position_new (pos_x self + pos_x position) (pos_y self + pos_y position)
              (pos_z self + pos_z position))))"

definition position_minus :: "position \<Rightarrow> position \<Rightarrow> position run" where
  "position_minus self position =
     require (position_isValid self)
       (require (position_isValid position)
         (require (pos_x position \<le> pos_x self \<and> pos_y position \<le> pos_y self
                   \<and> pos_z position \<le> pos_z self)
           (position_new (pos_x self - pos_x position) (pos_y self - pos_y position)
              (pos_z self - pos_z position))))"

text \<open>
  The two loops of \<^verbatim>\<open>neighbors\<close>.  The inner one runs over the y offsets of one column, the
  outer one over the x offsets; \<open>neighbor\<close> is the local variable both write.  The narrowing
  through \<^verbatim>\<open>int16_t\<close> keeps the sixteen bits.
\<close>

fun neighbors_column ::
  "position \<Rightarrow> int list \<Rightarrow> position \<Rightarrow> position list \<Rightarrow> (position \<times> position list) run" where
  "neighbors_column self [] neighbor target = Inr (neighbor, target)"
| "neighbors_column self (yOffset # yOffsets) neighbor target =
     (let y = uint (pos_y self) + yOffset in
      if y < uint MIN_Y \<or> uint MAX_Y < y
      then neighbors_column self yOffsets neighbor target
      else let neighbor = neighbor\<lparr>pos_y := word_of_int y\<rparr> in
        bind_run (position_copy neighbor)
          (\<lambda>copied. neighbors_column self yOffsets neighbor (target @ [copied])))"

fun neighbors_columns ::
  "position \<Rightarrow> int \<Rightarrow> int list \<Rightarrow> position \<Rightarrow> position list \<Rightarrow> position list run" where
  "neighbors_columns self endOffset [] neighbor target = Inr target"
| "neighbors_columns self endOffset (xOffset # xOffsets) neighbor target =
     (let startOffset = - endOffset; x = uint (pos_x self) + xOffset in
      if x < uint MIN_X \<or> uint MAX_X < x
      then neighbors_columns self endOffset xOffsets neighbor target
      else let neighbor = neighbor\<lparr>pos_x := word_of_int x\<rparr>;
               yOffsetIncrease =
                 (if xOffset = startOffset \<or> xOffset = endOffset then 1
                  else endOffset - startOffset)
        in bind_run
             (neighbors_column self (range_step startOffset endOffset yOffsetIncrease) neighbor target)
             (\<lambda>(neighbor, target). neighbors_columns self endOffset xOffsets neighbor target))"

definition position_neighbors :: "position \<Rightarrow> u16 \<Rightarrow> position list \<Rightarrow> position list run" where
  "position_neighbors self distance target =
     (if distance = 0 then Inr target
      else let startOffset = - uint distance; endOffset = uint distance in
        bind_run (position_copy self)
          (\<lambda>neighbor. neighbors_columns self endOffset (range_step startOffset endOffset 1)
             neighbor target))"

text \<open>\<^verbatim>\<open>operator <<\<close>: a \<^verbatim>\<open>uint8_t\<close> inserted into a stream is printed as a character.\<close>

definition position_text :: "position \<Rightarrow> string" where
  "position_text p =
     (if position_isValid p
      then show_nat (unat (pos_x p)) @ ''/'' @ show_nat (unat (pos_y p)) @ ''/''
           @ [char_of (unat (pos_z p))]
      else ''invalid'')"

section \<open>StackPosition\<close>

record stack_position = position +
  sp_index :: u8

definition MAX_INDEX :: u8 where "MAX_INDEX = 9"
definition MIN_INDEX :: u8 where "MIN_INDEX = 0"

definition withoutIndex :: "stack_position \<Rightarrow> position" where
  "withoutIndex s = \<lparr>pos_x = pos_x s, pos_y = pos_y s, pos_z = pos_z s\<rparr>"

definition stack_of :: "position \<Rightarrow> u8 \<Rightarrow> stack_position" where
  "stack_of p index =
     \<lparr>pos_x = pos_x p, pos_y = pos_y p, pos_z = pos_z p, sp_index = index\<rparr>"

definition STACK_INVALID :: stack_position where
  "STACK_INVALID = stack_of INVALID 255"

definition stack_coordinates_isValid :: "int \<Rightarrow> int \<Rightarrow> int \<Rightarrow> int \<Rightarrow> bool" where
  "stack_coordinates_isValid x y z index \<longleftrightarrow>
     coordinates_isValid x y z \<and> uint MIN_INDEX \<le> index \<and> index \<le> uint MAX_INDEX"

definition stack_isValid_at :: "position \<Rightarrow> int \<Rightarrow> bool" where
  "stack_isValid_at p index \<longleftrightarrow>
     position_isValid p \<and> uint MIN_INDEX \<le> index \<and> index \<le> uint MAX_INDEX"

definition stack_isValid :: "stack_position \<Rightarrow> bool" where
  "stack_isValid s = stack_isValid_at (withoutIndex s) (uint (sp_index s))"

definition stack_default :: stack_position where
  "stack_default = stack_of position_default 0"

definition stack_new :: "u16 \<Rightarrow> u16 \<Rightarrow> u8 \<Rightarrow> u8 \<Rightarrow> stack_position run" where
  "stack_new x y z index =
     bind_run (position_new x y z) (\<lambda>p. Inr (stack_of p index))"

definition stack_new_at :: "position \<Rightarrow> u8 \<Rightarrow> stack_position run" where
  "stack_new_at p index =
     bind_run (position_copy p)
       (\<lambda>p. let s = stack_of p index in require (stack_isValid s) (Inr s))"

definition stack_eq :: "stack_position \<Rightarrow> stack_position \<Rightarrow> bool" where
  "stack_eq s t \<longleftrightarrow> position_eq (withoutIndex s) (withoutIndex t) \<and> sp_index s = sp_index t"

definition stack_neq :: "stack_position \<Rightarrow> stack_position \<Rightarrow> bool" where
  "stack_neq s t \<longleftrightarrow> position_neq (withoutIndex s) (withoutIndex t) \<or> sp_index s \<noteq> sp_index t"

definition stack_copy :: "stack_position \<Rightarrow> stack_position run" where
  "stack_copy s =
     bind_run (position_copy (withoutIndex s))
       (\<lambda>p. let c = stack_of p (sp_index s) in
          require (stack_isValid c \<or> stack_eq c STACK_INVALID) (Inr c))"

definition stack_assign :: "stack_position \<Rightarrow> stack_position \<Rightarrow> stack_position run" where
  "stack_assign target s =
     require (stack_isValid s \<or> stack_eq s STACK_INVALID)
       (bind_run (position_assign (withoutIndex target) (withoutIndex s))
         (\<lambda>p. Inr (stack_of p (sp_index s))))"

definition stack_text :: "stack_position \<Rightarrow> string" where
  "stack_text s =
     (if stack_isValid s
      then position_text (withoutIndex s) @ ''#'' @ [char_of (unat (sp_index s))]
      else ''invalid'')"

section \<open>ExtendedPosition\<close>

text \<open>The variant \<^verbatim>\<open>ExtendedPosition::Value\<close>; \<^verbatim>\<open>getType\<close> is the index of the alternative.\<close>

datatype extended_position =
    Nowhere
  | Backpack (containerItemIndex: u8) (openedContainerId: u8)
  | Backpack_Search (clientItemKindId: u16) (fluidType: "8 word")
  | At_Position position
  | At_Slot slots
  | At_Stack stack_position

datatype extended_type =
    TYPE_NOWHERE | TYPE_BACKPACK | TYPE_BACKPACK_SEARCH | TYPE_POSITION | TYPE_SLOT
  | TYPE_STACK_POSITION

primrec getType :: "extended_position \<Rightarrow> extended_type" where
  "getType Nowhere = TYPE_NOWHERE"
| "getType (Backpack i c) = TYPE_BACKPACK"
| "getType (Backpack_Search k f) = TYPE_BACKPACK_SEARCH"
| "getType (At_Position p) = TYPE_POSITION"
| "getType (At_Slot s) = TYPE_SLOT"
| "getType (At_Stack s) = TYPE_STACK_POSITION"

definition forBackpack :: "u8 \<Rightarrow> u8 \<Rightarrow> extended_position" where
  "forBackpack openedContainer itemIndex = Backpack itemIndex openedContainer"

definition forBackpackSearch :: "u16 \<Rightarrow> 8 word \<Rightarrow> extended_position" where
  "forBackpackSearch kindId fluid = Backpack_Search kindId fluid"

definition forPosition :: "position \<Rightarrow> extended_position run" where
  "forPosition p = bind_run (position_copy p) (\<lambda>p. Inr (At_Position p))"

definition forSlot :: "slots \<Rightarrow> extended_position" where
  "forSlot slot = At_Slot slot"

definition forStackPosition :: "stack_position \<Rightarrow> extended_position run" where
  "forStackPosition s = bind_run (stack_copy s) (\<lambda>s. Inr (At_Stack s))"

definition getClientItemKindId :: "extended_position \<Rightarrow> u16 run" where
  "getClientItemKindId e =
     (if getType e \<noteq> TYPE_BACKPACK_SEARCH
      then require (getType e = TYPE_BACKPACK_SEARCH) (Inr 0)
      else Inr (clientItemKindId e))"

definition getContainerItemIndex :: "extended_position \<Rightarrow> u8 run" where
  "getContainerItemIndex e =
     (if getType e \<noteq> TYPE_BACKPACK
      then require (getType e = TYPE_BACKPACK) (Inr 0)
      else Inr (containerItemIndex e))"

definition getFluidType :: "extended_position \<Rightarrow> 8 word run" where
  "getFluidType e =
     (if getType e \<noteq> TYPE_BACKPACK_SEARCH
      then require (getType e = TYPE_BACKPACK_SEARCH) (Inr 0)
      else Inr (fluidType e))"

definition getOpenedContainerId :: "extended_position \<Rightarrow> u8 run" where
  "getOpenedContainerId e =
     (if getType e \<noteq> TYPE_BACKPACK
      then require (getType e = TYPE_BACKPACK) (Inr 0)
      else Inr (openedContainerId e))"

fun getPosition :: "extended_position \<Rightarrow> bool \<Rightarrow> position run" where
  "getPosition (At_Position p) converts = position_copy p"
| "getPosition (At_Stack s) converts =
     (if \<not> converts
      then require (getType (At_Stack s) = TYPE_POSITION
                    \<or> (converts \<and> getType (At_Stack s) = TYPE_STACK_POSITION))
             (Inr position_default)
      else position_copy (withoutIndex s))"
| "getPosition e converts =
     require (getType e = TYPE_POSITION \<or> (converts \<and> getType e = TYPE_STACK_POSITION))
       (Inr position_default)"

fun getSlot :: "extended_position \<Rightarrow> slots run" where
  "getSlot (At_Slot s) = Inr s"
| "getSlot e = require (getType e = TYPE_SLOT) (Inr SLOT_HEAD)"

fun getStackPosition :: "extended_position \<Rightarrow> bool \<Rightarrow> stack_position run" where
  "getStackPosition (At_Stack s) converts = stack_copy s"
| "getStackPosition (At_Position p) converts =
     (if \<not> converts
      then require (getType (At_Position p) = TYPE_STACK_POSITION
                    \<or> (converts \<and> getType (At_Position p) = TYPE_POSITION))
             (Inr stack_default)
      else stack_new_at p 0)"
| "getStackPosition e converts =
     require (getType e = TYPE_STACK_POSITION \<or> (converts \<and> getType e = TYPE_POSITION))
       (Inr stack_default)"

primrec hasPosition :: "extended_position \<Rightarrow> bool \<Rightarrow> bool" where
  "hasPosition (At_Position p) converts = True"
| "hasPosition (At_Stack s) converts = converts"
| "hasPosition (Backpack i c) converts = False"
| "hasPosition (Backpack_Search k f) converts = False"
| "hasPosition Nowhere converts = False"
| "hasPosition (At_Slot s) converts = False"

section \<open>The direction helpers of tools.cpp\<close>

definition getDirection :: "string \<Rightarrow> direction" where
  "getDirection s =
     (if s = ''north'' \<or> s = ''n'' \<or> s = ''0'' then NORTH
      else if s = ''east'' \<or> s = ''e'' \<or> s = ''1'' then EAST
      else if s = ''south'' \<or> s = ''s'' \<or> s = ''2'' then SOUTH
      else if s = ''west'' \<or> s = ''w'' \<or> s = ''3'' then WEST
      else if s = ''southwest'' \<or> s = ''south west'' \<or> s = ''south-west'' \<or> s = ''sw'' \<or> s = ''4''
        then SOUTH_WEST
      else if s = ''southeast'' \<or> s = ''south east'' \<or> s = ''south-east'' \<or> s = ''se'' \<or> s = ''5''
        then SOUTH_EAST
      else if s = ''northwest'' \<or> s = ''north west'' \<or> s = ''north-west'' \<or> s = ''nw'' \<or> s = ''6''
        then NORTH_WEST
      else if s = ''northeast'' \<or> s = ''north east'' \<or> s = ''north-east'' \<or> s = ''ne'' \<or> s = ''7''
        then NORTH_EAST
      else SOUTH)"

definition direction_between :: "position \<Rightarrow> position \<Rightarrow> bool \<Rightarrow> direction" where
  "direction_between pos1 pos2 extended =
     (if pos_x pos1 > pos_x pos2 then
        (if extended \<and> pos_y pos1 > pos_y pos2 then NORTH_WEST
         else if extended \<and> pos_y pos1 < pos_y pos2 then SOUTH_WEST
         else WEST)
      else if pos_x pos1 < pos_x pos2 then
        (if extended \<and> pos_y pos1 > pos_y pos2 then NORTH_EAST
         else if extended \<and> pos_y pos1 < pos_y pos2 then SOUTH_EAST
         else EAST)
      else if pos_y pos1 > pos_y pos2 then NORTH
      else if pos_y pos1 < pos_y pos2 then SOUTH
      else NORTH)"

definition getDirectionTo :: "position \<Rightarrow> position \<Rightarrow> bool \<Rightarrow> direction run" where
  "getDirectionTo p q extended =
     bind_run (position_copy p) (\<lambda>pos1. bind_run (position_copy q)
       (\<lambda>pos2. Inr (direction_between pos1 pos2 extended)))"

primrec getReverseDirection :: "direction \<Rightarrow> direction" where
  "getReverseDirection DIR_NONE = DIR_NONE"
| "getReverseDirection NORTH = SOUTH"
| "getReverseDirection SOUTH = NORTH"
| "getReverseDirection WEST = EAST"
| "getReverseDirection EAST = WEST"
| "getReverseDirection SOUTH_WEST = NORTH_EAST"
| "getReverseDirection NORTH_WEST = SOUTH_EAST"
| "getReverseDirection NORTH_EAST = SOUTH_WEST"
| "getReverseDirection SOUTH_EAST = NORTH_WEST"

primrec moved :: "direction \<Rightarrow> position \<Rightarrow> position" where
  "moved DIR_NONE pos = pos"
| "moved NORTH pos = pos\<lparr>pos_y := pos_y pos - 1\<rparr>"
| "moved SOUTH pos = pos\<lparr>pos_y := pos_y pos + 1\<rparr>"
| "moved WEST pos = pos\<lparr>pos_x := pos_x pos - 1\<rparr>"
| "moved EAST pos = pos\<lparr>pos_x := pos_x pos + 1\<rparr>"
| "moved SOUTH_WEST pos = pos\<lparr>pos_x := pos_x pos - 1, pos_y := pos_y pos + 1\<rparr>"
| "moved NORTH_WEST pos = pos\<lparr>pos_x := pos_x pos - 1, pos_y := pos_y pos - 1\<rparr>"
| "moved SOUTH_EAST pos = pos\<lparr>pos_x := pos_x pos + 1, pos_y := pos_y pos + 1\<rparr>"
| "moved NORTH_EAST pos = pos\<lparr>pos_x := pos_x pos + 1, pos_y := pos_y pos - 1\<rparr>"

text \<open>The result leaves by the defaulted move constructor, which asserts nothing.\<close>

definition getNextPosition :: "direction \<Rightarrow> position \<Rightarrow> position run" where
  "getNextPosition d p = bind_run (position_copy p) (\<lambda>pos. Inr (moved d pos))"


section \<open>Facts about positions\<close>

lemmas valid_defs = position_isValid_def coordinates_isValid_def limits

lemma valid_iff:
  "position_isValid p \<longleftrightarrow> uint (pos_x p) \<le> 60000 \<and> uint (pos_y p) \<le> 60000 \<and> uint (pos_z p) \<le> 15"
  by (simp add: valid_defs)

lemma invalid_INVALID [simp]: "\<not> position_isValid INVALID"
  by (simp add: valid_iff INVALID_def)

lemma position_copy_valid [simp]: "position_isValid p \<Longrightarrow> position_copy p = Inr p"
  by (simp add: position_copy_def)

lemma position_copy_Inr [run_simps]:
  "position_copy p = Inr q \<longleftrightarrow> q = p \<and> (position_isValid p \<or> p = INVALID)"
  by (auto simp: position_copy_def require_Inr)

lemma position_eq_iff: "position_eq p q \<longleftrightarrow> p = q"
  by (cases p; cases q) (simp add: position_eq_def)

lemma position_neq_iff: "position_neq p q \<longleftrightarrow> p \<noteq> q"
  by (cases p; cases q) (simp add: position_neq_def)

lemma position_new_Inr [run_simps]:
  "position_new x y z = Inr p \<longleftrightarrow>
     p = \<lparr>pos_x = x, pos_y = y, pos_z = z\<rparr> \<and> position_isValid p"
  by (auto simp: position_new_def Let_def require_Inr)

lemma uint_add_u16: "uint (a + b :: u16) = (uint a + uint b) mod 65536"
  by (simp add: uint_word_ariths)

lemma uint_add_u8: "uint (a + b :: u8) = (uint a + uint b) mod 256"
  by (simp add: uint_word_ariths)

lemma uint_sub_le: "b \<le> a \<Longrightarrow> uint (a - b) = uint a - uint b"
  by (simp add: uint_sub_lem word_le_def)

subsection \<open>Addition and subtraction\<close>

text \<open>
  Fact: \<^verbatim>\<open>operator +\<close> compares the wrong way round (\<^verbatim>\<open>MAX_X - position.x <= x\<close>, where an overflow
  check needs \<^verbatim>\<open>>=\<close>): two valid positions whose sum is a valid position are rejected by the
  assertion, except when every coordinate of the sum is exactly at its maximum.
\<close>

theorem position_plus_rejects_valid_sums:
  assumes "position_isValid a" "position_isValid b"
    and "uint (pos_x a) + uint (pos_x b) \<le> 60000"
    and "uint (pos_y a) + uint (pos_y b) \<le> 60000"
    and "uint (pos_z a) + uint (pos_z b) \<le> 15"
  shows "position_plus a b =
    (if uint (pos_x a) + uint (pos_x b) = 60000 \<and> uint (pos_y a) + uint (pos_y b) = 60000
        \<and> uint (pos_z a) + uint (pos_z b) = 15
     then Inr \<lparr>pos_x = 60000, pos_y = 60000, pos_z = 15\<rparr> else Inl Assertion_failed)"
proof (cases "uint (pos_x a) + uint (pos_x b) = 60000 \<and> uint (pos_y a) + uint (pos_y b) = 60000
        \<and> uint (pos_z a) + uint (pos_z b) = 15")
  case True
  then have "pos_x a + pos_x b = 60000" "pos_y a + pos_y b = 60000" "pos_z a + pos_z b = 15"
    by (simp_all add: word_uint_eq_iff uint_add_u16 uint_add_u8)
  with True assms show ?thesis
    by (simp add: position_plus_def position_new_def valid_iff limits)
next
  case False
  with assms show ?thesis
    by (auto simp: position_plus_def require_def limits)
qed

lemma position_plus_rejects_valid_sums_witness:
  "position_plus \<lparr>pos_x = 1, pos_y = 1, pos_z = 1\<rparr> \<lparr>pos_x = 2, pos_y = 2, pos_z = 2\<rparr>
     = Inl Assertion_failed"
  by (subst position_plus_rejects_valid_sums) (simp_all add: valid_iff)

text \<open>
  Fact: \<^verbatim>\<open>operator -\<close> returns exactly when no coordinate would go below zero; the result is then the
  exact difference and is again valid.
\<close>

theorem position_minus_spec:
  assumes "position_isValid a" "position_isValid b"
  shows "position_minus a b = Inr r \<longleftrightarrow>
    uint (pos_x r) = uint (pos_x a) - uint (pos_x b) \<and>
    uint (pos_y r) = uint (pos_y a) - uint (pos_y b) \<and>
    uint (pos_z r) = uint (pos_z a) - uint (pos_z b)" (is "?l \<longleftrightarrow> ?r")
proof
  assume ?l
  then show ?r
    by (auto simp: position_minus_def run_simps uint_sub_le)
next
  assume r: ?r
  have nonneg: "0 \<le> uint (pos_x r)" "0 \<le> uint (pos_y r)" "0 \<le> uint (pos_z r)" by simp_all
  with r have le: "pos_x b \<le> pos_x a" "pos_y b \<le> pos_y a" "pos_z b \<le> pos_z a"
    unfolding word_le_def by linarith+
  have "0 \<le> uint (pos_x b)" "0 \<le> uint (pos_y b)" "0 \<le> uint (pos_z b)" by simp_all
  with r assms have "position_isValid r" unfolding valid_iff by linarith
  moreover have "r = \<lparr>pos_x = pos_x a - pos_x b, pos_y = pos_y a - pos_y b, pos_z = pos_z a - pos_z b\<rparr>"
    using r le by (cases r) (simp add: word_uint_eq_iff uint_sub_le)
  ultimately show ?l using assms le by (simp add: position_minus_def position_new_def)
qed

lemma position_minus_spec_witness:
  "position_minus \<lparr>pos_x = 5, pos_y = 6, pos_z = 7\<rparr> \<lparr>pos_x = 1, pos_y = 2, pos_z = 3\<rparr>
     = Inr \<lparr>pos_x = 4, pos_y = 4, pos_z = 4\<rparr>"
  by (subst position_minus_spec) (simp_all add: valid_iff)

subsection \<open>Distances\<close>

lemma distance_refl: "distanceTo p p = 0"
  by (simp add: distanceTo_def)

lemma distance_zero_iff: "distanceTo p q = 0 \<longleftrightarrow> p = q"
  by (cases p; cases q) (auto simp: distanceTo_def Let_def word_uint_eq_iff max_def split: if_splits)

lemma distance_sym: "distanceTo p q = distanceTo q p"
  by (simp add: distanceTo_def abs_minus_commute)

lemma distance_le_iff:
  "distanceTo p q \<le> k \<longleftrightarrow> \<bar>uint (pos_x p) - uint (pos_x q)\<bar> \<le> k
     \<and> \<bar>uint (pos_y p) - uint (pos_y q)\<bar> \<le> k \<and> \<bar>uint (pos_z p) - uint (pos_z q)\<bar> \<le> k"
  by (simp add: distanceTo_def Let_def abs_minus_commute)

lemma distance_triangle: "distanceTo p r \<le> distanceTo p q + distanceTo q r"
  using distance_le_iff [of p q "distanceTo p q"] distance_le_iff [of q r "distanceTo q r"]
  unfolding distance_le_iff [of p r] by (intro conjI; simp; linarith)

lemma distance_nonneg: "0 \<le> distanceTo p q"
  by (auto simp: distanceTo_def Let_def)

text \<open>
  Fact: \<^verbatim>\<open>distanceTo\<close> is a metric on positions, its balls are the cubes that \<^verbatim>\<open>areInRange\<close> tests,
  and \<^verbatim>\<open>isNeighborOf\<close> holds exactly for the positions of the same floor at distance one.
\<close>

theorem distance_metric:
  "(distanceTo p q = 0 \<longleftrightarrow> p = q) \<and> distanceTo p q = distanceTo q p
   \<and> distanceTo p r \<le> distanceTo p q + distanceTo q r
   \<and> (distanceTo p q \<le> int n \<longleftrightarrow> areInRange_xyz n n n p q)
   \<and> (isNeighborOf p q \<longleftrightarrow> pos_z p = pos_z q \<and> distanceTo p q = 1)"
proof (intro conjI)
  show "distanceTo p q \<le> int n \<longleftrightarrow> areInRange_xyz n n n p q"
    by (auto simp: distanceTo_def areInRange_xyz_def Let_def)
  show "isNeighborOf p q \<longleftrightarrow> pos_z p = pos_z q \<and> distanceTo p q = 1"
    by (auto simp: isNeighborOf_def distanceTo_def Let_def max_def split: if_splits)
qed (rule distance_zero_iff distance_sym distance_triangle)+

lemma areInRange_instance:
  "areInRange rng a b \<longleftrightarrow>
     areInRange_xyz (unat (pos_x rng)) (unat (pos_y rng)) (unat (pos_z rng)) a b"
  by (simp add: areInRange_def areInRange_xyz_def)

lemma areInRange_same_floor:
  "pos_z a = pos_z b \<Longrightarrow> areInRange_xyz rx ry rz a b \<longleftrightarrow> areInRange_xy rx ry a b"
  by (simp add: areInRange_xyz_def areInRange_xy_def)


subsection \<open>Directions\<close>

lemma moved_reverse: "moved (getReverseDirection d) (moved d p) = p"
  by (cases d) simp_all

lemma getNextPosition_Inr [run_simps]:
  "getNextPosition d p = Inr q \<longleftrightarrow> q = moved d p \<and> (position_isValid p \<or> p = INVALID)"
  by (auto simp: getNextPosition_def run_simps)

lemma uint_dec_u16: "a \<noteq> 0 \<Longrightarrow> uint (a - 1 :: u16) = uint a - 1"
proof (rule uint_sub_le [of 1 a, simplified])
  assume "a \<noteq> 0"
  then have "uint a \<noteq> 0" by (simp add: word_uint_eq_iff)
  moreover have "0 \<le> uint a" by simp
  ultimately have "1 \<le> uint a" by linarith
  then show "1 \<le> a" by (simp add: word_le_def)
qed

lemma uint_inc_u16: "uint (a :: u16) \<le> 60000 \<Longrightarrow> uint (a + 1) = uint a + 1"
  by (simp add: uint_add_u16)

lemma direction_between_moved:
  assumes "position_isValid p" and "position_isValid (moved d p)" and "d \<noteq> DIR_NONE"
  shows "direction_between p (moved d p) True = d"
proof -
  have dec: "a - 1 < a \<and> \<not> a < a - 1" if "uint a \<le> 60000" "uint (a - 1) \<le> 60000" for a :: u16
  proof -
    have "a \<noteq> 0"
      using that(2) by (auto simp: unsigned_minus_1_eq_mask mask_eq_exp_minus_1)
    then show ?thesis by (simp add: word_less_def uint_dec_u16)
  qed
  have inc: "a < a + 1 \<and> \<not> a + 1 < a" if "uint a \<le> 60000" for a :: u16
    using that by (simp add: word_less_def uint_inc_u16)
  show ?thesis
    using assms by (cases d) (auto simp: direction_between_def valid_iff dest: dec inc)
qed

text \<open>
  Fact: one step in a direction and one step in its reverse return to the start, on every map
  position (the sixteen-bit coordinates wrap at the edge and wrap back), and as long as the
  step stays on the map \<^verbatim>\<open>getDirectionTo\<close> finds the direction again.
\<close>

theorem step_and_back:
  assumes "position_isValid p" "getNextPosition d p = Inr q" "position_isValid q"
  shows "getNextPosition (getReverseDirection d) q = Inr p
    \<and> (d \<noteq> DIR_NONE \<longrightarrow> getDirectionTo p q True = Inr d)"
  using assms
  by (auto simp: run_simps moved_reverse getDirectionTo_def direction_between_moved)

lemma step_and_back_witness:
  "getNextPosition SOUTH_WEST \<lparr>pos_x = 4, pos_y = 5, pos_z = 7\<rparr>
     = Inr \<lparr>pos_x = 3, pos_y = 6, pos_z = 7\<rparr>
   \<and> getNextPosition NORTH_EAST \<lparr>pos_x = 3, pos_y = 6, pos_z = 7\<rparr>
     = Inr \<lparr>pos_x = 4, pos_y = 5, pos_z = 7\<rparr>"
  using step_and_back [of "\<lparr>pos_x = 4, pos_y = 5, pos_z = 7\<rparr>" SOUTH_WEST
      "\<lparr>pos_x = 3, pos_y = 6, pos_z = 7\<rparr>"]
  by (simp add: valid_iff getNextPosition_Inr)

subsection \<open>Printed positions\<close>

lemma digits_slash_inj:
  assumes "show_nat a @ ''/'' @ r = show_nat b @ ''/'' @ t"
  shows "a = b \<and> r = t"
proof -
  have slash: "\<not> is_digit CHR ''/''" by (simp add: is_digit_def char_code_def)
  have tw: "takeWhile is_digit (show_nat n @ ''/'' @ u) = show_nat n" for n u
    using slash show_nat_digits by (simp add: takeWhile_append2)
  have "show_nat a = show_nat b" using arg_cong [OF assms, of "takeWhile is_digit"] by (simp only: tw)
  then show ?thesis using assms by (simp add: show_nat_inj)
qed

text \<open>
  Fact: the text that \<^verbatim>\<open>operator <<\<close> prints tells any two valid positions apart, but its last
  character is the raw byte of the floor, not its digits: \<^verbatim>\<open>z\<close> is a \<^verbatim>\<open>uint8_t\<close>, which a stream
  prints as a character, so the floor of a valid position is always printed as a control
  character.
\<close>

theorem position_text_injective_but_raw:
  assumes "position_isValid p" "position_isValid q"
  shows "(position_text p = position_text q \<longleftrightarrow> p = q)
    \<and> char_code (last (position_text p)) = unat (pos_z p) \<and> \<not> is_digit (last (position_text p))"
proof -
  have z: "unat (pos_z r) \<le> 15" if "position_isValid r" for r
    using that by (simp add: valid_iff nat_le_iff flip: nat_uint_eq)
  then have "char_code (char_of (unat (pos_z p))) = unat (pos_z p)"
    using assms(1) by (fastforce simp: char_code_def)
  then have last: "char_code (last (position_text p)) = unat (pos_z p)"
    using assms(1) by (simp add: position_text_def)
  have "position_text p = position_text q \<longleftrightarrow> p = q"
  proof
    assume eq: "position_text p = position_text q"
    have shape: "position_text r = show_nat (unat (pos_x r)) @ ''/'' @
        (show_nat (unat (pos_y r)) @ ''/'' @ [char_of (unat (pos_z r))])"
      if "position_isValid r" for r
      using that by (simp add: position_text_def)
    note xs = digits_slash_inj [OF eq [unfolded shape [OF assms(1)] shape [OF assms(2)]]]
    note ys = digits_slash_inj [OF conjunct2 [OF xs]]
    have "(char_of (unat (pos_z p)) :: char) = char_of (unat (pos_z q))" using ys by simp
    then have "(of_char (char_of (unat (pos_z p)) :: char) :: nat) = of_char (char_of (unat (pos_z q)) :: char)"
      by (rule arg_cong)
    then have "unat (pos_z p) = unat (pos_z q)"
      using z [OF assms(1)] z [OF assms(2)] by simp
    with conjunct1 [OF xs] conjunct1 [OF ys] show "p = q"
      by (cases p; cases q) (simp add: word_unat_eq_iff)
  qed simp
  then show ?thesis using last z assms(1) by (fastforce simp: is_digit_def)
qed

lemma position_text_injective_but_raw_witness:
  "char_code (last (position_text \<lparr>pos_x = 100, pos_y = 200, pos_z = 7\<rparr>)) = 7"
  using position_text_injective_but_raw
    [of "\<lparr>pos_x = 100, pos_y = 200, pos_z = 7\<rparr>" "\<lparr>pos_x = 100, pos_y = 200, pos_z = 7\<rparr>"]
  by (simp add: valid_iff)

subsection \<open>Extended positions\<close>

text \<open>
  Fact: \<^verbatim>\<open>hasPosition\<close> is the guard of \<^verbatim>\<open>getPosition\<close>: on an extended position whose payload is a valid
  position or stack position, \<^verbatim>\<open>getPosition\<close> returns (that position, without its index) when
  \<^verbatim>\<open>hasPosition\<close> holds for the same flag, and otherwise its assertion fails.
\<close>

theorem hasPosition_guards_getPosition:
  assumes "\<And>p. e = At_Position p \<Longrightarrow> position_isValid p"
    and "\<And>s. e = At_Stack s \<Longrightarrow> stack_isValid s"
  shows "getPosition e c =
    (if hasPosition e c
     then Inr (case e of At_Position p \<Rightarrow> p | At_Stack s \<Rightarrow> withoutIndex s | _ \<Rightarrow> position_default)
     else Inl Assertion_failed)"
  using assms by (cases e) (auto simp: stack_isValid_def stack_isValid_at_def)

lemma hasPosition_guards_getPosition_witness:
  "getPosition (At_Stack (stack_of \<lparr>pos_x = 1, pos_y = 2, pos_z = 3\<rparr> 4)) True
     = Inr \<lparr>pos_x = 1, pos_y = 2, pos_z = 3\<rparr>"
  by (subst hasPosition_guards_getPosition)
     (auto simp: stack_of_def withoutIndex_def stack_isValid_def stack_isValid_at_def valid_iff
        MIN_INDEX_def MAX_INDEX_def)


subsection \<open>The ring of neighbours\<close>

definition on_axis :: "int \<Rightarrow> bool" where
  "on_axis v \<longleftrightarrow> 0 \<le> v \<and> v \<le> 60000"

definition shifted :: "position \<Rightarrow> int \<Rightarrow> int \<Rightarrow> position" where
  "shifted p dx dy =
     \<lparr>pos_x = word_of_int (uint (pos_x p) + dx), pos_y = word_of_int (uint (pos_y p) + dy),
      pos_z = pos_z p\<rparr>"

definition ring_offsets :: "position \<Rightarrow> int \<Rightarrow> (int \<times> int) list" where
  "ring_offsets p d = concat (map
     (\<lambda>dx. map (Pair dx) (filter (\<lambda>dy. on_axis (uint (pos_y p) + dy))
        (range_step (- d) d (if dx = - d \<or> dx = d then 1 else 2 * d))))
     (filter (\<lambda>dx. on_axis (uint (pos_x p) + dx)) (range_step (- d) d 1)))"

lemma uint_on_axis: "on_axis v \<Longrightarrow> uint (word_of_int v :: u16) = v"
  by (simp add: on_axis_def unsigned_of_int take_bit_int_eq_self)

lemma neighbors_column_run:
  assumes "uint (pos_x n) \<le> 60000" "uint (pos_z n) \<le> 15"
  shows "\<exists>n'. neighbors_column self ys n target = Inr (n', target @
      map (\<lambda>dy. n\<lparr>pos_y := word_of_int (uint (pos_y self) + dy)\<rparr>)
        (filter (\<lambda>dy. on_axis (uint (pos_y self) + dy)) ys))
    \<and> pos_z n' = pos_z n"
  using assms
proof (induction ys arbitrary: n target)
  case Nil
  then show ?case by simp
next
  case (Cons y ys)
  show ?case
  proof (cases "on_axis (uint (pos_y self) + y)")
    case True
    let ?n = "n\<lparr>pos_y := word_of_int (uint (pos_y self) + y)\<rparr>"
    have "position_isValid ?n"
      using Cons.prems True uint_on_axis [OF True] by (simp add: valid_iff on_axis_def)
    moreover have "\<not> (uint (pos_y self) + y < uint MIN_Y \<or> uint MAX_Y < uint (pos_y self) + y)"
      using True by (simp add: on_axis_def limits)
    ultimately show ?thesis
      using Cons.IH [of ?n "target @ [?n]"] Cons.prems True by (auto simp: Let_def)
  next
    case False
    then have "uint (pos_y self) + y < uint MIN_Y \<or> uint MAX_Y < uint (pos_y self) + y"
      by (auto simp: on_axis_def limits)
    then show ?thesis using Cons.IH [of n target] Cons.prems False by (simp add: Let_def)
  qed
qed

lemma neighbors_columns_run:
  assumes "uint (pos_z n) \<le> 15" "pos_z n = pos_z self"
  shows "neighbors_columns self d xs n target = Inr (target @ concat (map
     (\<lambda>dx. map (shifted self dx) (filter (\<lambda>dy. on_axis (uint (pos_y self) + dy))
        (range_step (- d) d (if dx = - d \<or> dx = d then 1 else 2 * d))))
     (filter (\<lambda>dx. on_axis (uint (pos_x self) + dx)) xs)))"
  using assms
proof (induction xs arbitrary: n target)
  case Nil
  then show ?case by simp
next
  case (Cons x xs)
  show ?case
  proof (cases "on_axis (uint (pos_x self) + x)")
    case True
    let ?n = "n\<lparr>pos_x := word_of_int (uint (pos_x self) + x)\<rparr>"
    let ?ys = "range_step (- d) d (if x = - d \<or> x = d then 1 else 2 * d)"
    have step: "(if x = - d \<or> x = d then 1 else d - - d) = (if x = - d \<or> x = d then 1 else 2 * d)"
      by simp
    have "uint (pos_x ?n) \<le> 60000" using uint_on_axis [OF True] True by (simp add: on_axis_def)
    then obtain n' where n': "neighbors_column self ?ys ?n target = Inr (n', target @
        map (\<lambda>dy. ?n\<lparr>pos_y := word_of_int (uint (pos_y self) + dy)\<rparr>)
          (filter (\<lambda>dy. on_axis (uint (pos_y self) + dy)) ?ys))" "pos_z n' = pos_z n"
      using neighbors_column_run [of ?n self ?ys target] Cons.prems by auto
    have shift: "(\<lambda>dy. ?n\<lparr>pos_y := word_of_int (uint (pos_y self) + dy)\<rparr>) = shifted self x"
      using Cons.prems by (simp add: shifted_def fun_eq_iff)
    have "\<not> (uint (pos_x self) + x < uint MIN_X \<or> uint MAX_X < uint (pos_x self) + x)"
      using True by (simp add: on_axis_def limits)
    moreover note n'(1) [unfolded shift]
    ultimately show ?thesis
      using n'(2) Cons.IH [of n'] Cons.prems True by (simp add: Let_def step del: diff_minus_eq_add)
  next
    case False
    then have "uint (pos_x self) + x < uint MIN_X \<or> uint MAX_X < uint (pos_x self) + x"
      by (auto simp: on_axis_def limits)
    then show ?thesis using Cons.IH [of n target] Cons.prems False by (simp add: Let_def)
  qed
qed

lemma position_neighbors_run:
  assumes "position_isValid self" "0 < d"
  shows "position_neighbors self d target =
    Inr (target @ map (\<lambda>(dx, dy). shifted self dx dy) (ring_offsets self (uint d)))"
proof -
  have "d \<noteq> 0" using assms(2) by auto
  moreover have "uint (pos_z self) \<le> 15" using assms(1) by (simp add: valid_iff)
  ultimately show ?thesis
    using assms(1) by (simp add: position_neighbors_def Let_def neighbors_columns_run
        ring_offsets_def map_concat comp_def)
qed

lemma set_ring_offsets:
  assumes "0 < d"
  shows "(dx, dy) \<in> set (ring_offsets p d) \<longleftrightarrow>
    max \<bar>dx\<bar> \<bar>dy\<bar> = d \<and> on_axis (uint (pos_x p) + dx) \<and> on_axis (uint (pos_y p) + dy)"
proof -
  have ys: "set (range_step (- d) d (if x = - d \<or> x = d then 1 else 2 * d))
      = (if x = - d \<or> x = d then {- d..d} else {- d, d})" for x
    using assms by (simp add: set_range_step_1 range_step_two)
  have "(dx, dy) \<in> set (ring_offsets p d) \<longleftrightarrow>
      dx \<in> {- d..d} \<and> dy \<in> (if dx = - d \<or> dx = d then {- d..d} else {- d, d})
      \<and> on_axis (uint (pos_x p) + dx) \<and> on_axis (uint (pos_y p) + dy)"
    unfolding ring_offsets_def set_concat set_map set_filter image_image ys set_range_step_1
    by blast
  moreover have "dx \<in> {- d..d} \<and> dy \<in> (if dx = - d \<or> dx = d then {- d..d} else {- d, d})
      \<longleftrightarrow> max \<bar>dx\<bar> \<bar>dy\<bar> = d"
    using assms by (simp add: max_def) arith
  ultimately show ?thesis by blast
qed

lemma distinct_pairs:
  "distinct xs \<Longrightarrow> (\<And>x. distinct (f x)) \<Longrightarrow> distinct (concat (map (\<lambda>x. map (Pair x) (f x)) xs))"
  by (induction xs) (auto simp: distinct_map inj_on_def)

lemma distinct_ring_offsets: "0 < d \<Longrightarrow> distinct (ring_offsets p d)"
  unfolding ring_offsets_def
  by (rule distinct_pairs) (simp_all add: distinct_range_step)

text \<open>
  Fact: for a valid position and a positive distance \<^verbatim>\<open>neighbors\<close> appends, each exactly once, the
  valid positions of the same floor whose distance is exactly the given one; the border
  columns' full walk and the inner columns' stride of twice the distance together visit the
  whole square ring, clipped to the map.
\<close>

theorem neighbors_is_the_ring:
  assumes "position_isValid self" "0 < d"
  shows "\<exists>ns. position_neighbors self d target = Inr (target @ ns) \<and> distinct ns
    \<and> set ns = {q. position_isValid q \<and> pos_z q = pos_z self \<and> distanceTo self q = uint d}"
proof (intro exI conjI)
  let ?ns = "map (\<lambda>(dx, dy). shifted self dx dy) (ring_offsets self (uint d))"
  have d: "0 < uint d" using assms(2) by (simp add: word_less_def)
  note mem = set_ring_offsets [OF d, of _ _ self]
  have xy: "uint (pos_x (shifted self dx dy)) = uint (pos_x self) + dx
      \<and> uint (pos_y (shifted self dx dy)) = uint (pos_y self) + dy"
    if "(dx, dy) \<in> set (ring_offsets self (uint d))" for dx dy
    using that uint_on_axis unfolding mem shifted_def by (simp only: position.select_convs)
  show "position_neighbors self d target = Inr (target @ ?ns)"
    by (rule position_neighbors_run [OF assms])
  have "inj_on (\<lambda>(dx, dy). shifted self dx dy) (set (ring_offsets self (uint d)))"
  proof (rule inj_onI, clarify)
    fix a b a' b'
    assume h: "(a, b) \<in> set (ring_offsets self (uint d))" "(a', b') \<in> set (ring_offsets self (uint d))"
      and same: "shifted self a b = shifted self a' b'"
    show "a = a' \<and> b = b'" using xy [OF h(1)] xy [OF h(2)] unfolding same by linarith
  qed
  then show "distinct ?ns" by (simp add: distinct_map distinct_ring_offsets [OF d])
  show "set ?ns = {q. position_isValid q \<and> pos_z q = pos_z self \<and> distanceTo self q = uint d}"
  proof (intro equalityI subsetI)
    fix q assume "q \<in> set ?ns"
    then obtain dx dy where q: "q = shifted self dx dy" "(dx, dy) \<in> set (ring_offsets self (uint d))"
      by auto
    have z: "pos_z q = pos_z self" by (simp add: q(1) shifted_def)
    have "position_isValid q"
      using z xy [OF q(2)] q(2) assms(1) unfolding mem valid_iff on_axis_def q(1) [symmetric]
      by simp
    with z show "q \<in> {q. position_isValid q \<and> pos_z q = pos_z self \<and> distanceTo self q = uint d}"
      using xy [OF q(2)] q(2) unfolding q(1) [symmetric] mem by (simp add: distanceTo_def)
  next
    fix q assume "q \<in> {q. position_isValid q \<and> pos_z q = pos_z self \<and> distanceTo self q = uint d}"
    then have q: "position_isValid q" "pos_z q = pos_z self" "distanceTo self q = uint d" by auto
    let ?dx = "uint (pos_x q) - uint (pos_x self)" and ?dy = "uint (pos_y q) - uint (pos_y self)"
    have "shifted self ?dx ?dy = q" using q(2) by (cases q) (simp add: shifted_def)
    moreover have "(?dx, ?dy) \<in> set (ring_offsets self (uint d))"
      using q by (auto simp: mem on_axis_def valid_iff distanceTo_def Let_def)
    ultimately show "q \<in> set ?ns" by force
  qed
qed

lemma neighbors_is_the_ring_witness:
  "\<exists>ns. position_neighbors \<lparr>pos_x = 0, pos_y = 0, pos_z = 7\<rparr> 1 [] = Inr ns \<and> distinct ns
    \<and> \<lparr>pos_x = 1, pos_y = 1, pos_z = 7\<rparr> \<in> set ns"
  using neighbors_is_the_ring [of "\<lparr>pos_x = 0, pos_y = 0, pos_z = 7\<rparr>" 1 "[]"]
  by (fastforce simp: valid_iff distanceTo_def)

end
