(* ===== verification/Text_Tools.thy ===== *)
theory Text_Tools
  imports Constants
begin

text \<open>
  The string helpers of \<^verbatim>\<open>src/sources/tools.cpp\<close>.  A \<^verbatim>\<open>std::string\<close> is a list of bytes; the
  standard library's \<^verbatim>\<open>find\<close>, \<^verbatim>\<open>erase\<close>, \<^verbatim>\<open>atoi\<close> and \<^verbatim>\<open>tolower\<close> (in the "C" locale: the
  program never calls \<^verbatim>\<open>setlocale\<close>) are modelled as documented.  Loops that need not stop are
  partial functions into \<open>option\<close>, where \<open>None\<close> is "does not return".
\<close>

section \<open>The library functions the code uses\<close>

definition npos_erase_from :: "string \<Rightarrow> nat option \<Rightarrow> string" where
  "npos_erase_from s p = (case p of None \<Rightarrow> [] | Some i \<Rightarrow> take (Suc i) s)"

definition npos_erase_to :: "string \<Rightarrow> nat option \<Rightarrow> string" where
  "npos_erase_to s p = (case p of None \<Rightarrow> [] | Some i \<Rightarrow> drop i s)"

primrec find_first_not_of :: "string \<Rightarrow> string \<Rightarrow> nat option" where
  "find_first_not_of [] t = None"
| "find_first_not_of (c # s) t =
     (if c \<notin> set t then Some 0 else map_option Suc (find_first_not_of s t))"

primrec find_last_not_of :: "string \<Rightarrow> string \<Rightarrow> nat option" where
  "find_last_not_of [] t = None"
| "find_last_not_of (c # s) t =
     (case find_last_not_of s t of Some i \<Rightarrow> Some (Suc i)
      | None \<Rightarrow> if c \<notin> set t then Some 0 else None)"

fun find_sub :: "string \<Rightarrow> string \<Rightarrow> nat option" where
  "find_sub pat [] = (if pat = [] then Some 0 else None)"
| "find_sub pat (c # s) =
     (if take (length pat) (c # s) = pat then Some 0 else map_option Suc (find_sub pat s))"

definition str_find :: "string \<Rightarrow> string \<Rightarrow> nat \<Rightarrow> nat option" where
  "str_find s pat start =
     (if start \<le> length s then map_option ((+) start) (find_sub pat (drop start s)) else None)"

definition char_tolower :: "char \<Rightarrow> char" where
  "char_tolower c = (if 65 \<le> char_code c \<and> char_code c \<le> 90 then char_of (char_code c + 32) else c)"

definition c_str :: "string \<Rightarrow> string" where
  "c_str s = takeWhile (\<lambda>c. char_code c \<noteq> 0) s"

definition strcasecmp_equal :: "string \<Rightarrow> string \<Rightarrow> bool" where
  "strcasecmp_equal a b \<longleftrightarrow> map char_tolower (c_str a) = map char_tolower (c_str b)"

definition c_space :: "char \<Rightarrow> bool" where
  "c_space c \<longleftrightarrow> char_code c = 32 \<or> (9 \<le> char_code c \<and> char_code c \<le> 13)"

text \<open>\<^verbatim>\<open>atoi\<close> is \<^verbatim>\<open>(int) strtol(s, NULL, 10)\<close>: saturating at the 64-bit \<^verbatim>\<open>long\<close>, then narrowed.\<close>

definition c_atoi :: "string \<Rightarrow> int" where
  "c_atoi s =
     (let t = dropWhile c_space s;
          neg = (t \<noteq> [] \<and> hd t = CHR ''-'');
          ds = (if t \<noteq> [] \<and> (hd t = CHR ''-'' \<or> hd t = CHR ''+'') then tl t else t);
          v = int (read_nat 0 ds)
      in signed_take_bit 31 (if neg then max (- (2 ^ 63)) (- v) else min (2 ^ 63 - 1) v))"

section \<open>Case and trimming\<close>

definition signed_char :: "char \<Rightarrow> int" where
  "signed_char c = (if char_code c < 128 then int (char_code c) else int (char_code c) - 256)"

definition upchar :: "char \<Rightarrow> char" where
  "upchar character =
     (if (signed_char character \<ge> 97 \<and> signed_char character \<le> 122)
         \<or> (signed_char character \<le> -1 \<and> signed_char character \<ge> -32)
      then char_of (char_code character - 32) else character)"

definition asLowerCaseString :: "string \<Rightarrow> string" where
  "asLowerCaseString source = map char_tolower source"

definition asUpperCaseString :: "string \<Rightarrow> string" where
  "asUpperCaseString source = map upchar source"

definition trim_right :: "string \<Rightarrow> string \<Rightarrow> string" where
  "trim_right source t = npos_erase_from source (find_last_not_of source t)"

definition trim_left :: "string \<Rightarrow> string \<Rightarrow> string" where
  "trim_left source t = npos_erase_to source (find_first_not_of source t)"

definition trimString :: "string \<Rightarrow> string" where
  "trimString str =
     (let str = npos_erase_from str (find_last_not_of str '' '')
      in npos_erase_to str (find_first_not_of str '' ''))"

definition checkText :: "string \<Rightarrow> string \<Rightarrow> bool" where
  "checkText content str \<longleftrightarrow> asLowerCaseString (trimString content) = str"

definition booleanString :: "string \<Rightarrow> bool" where
  "booleanString source =
     (let source = asLowerCaseString source
      in source = ''yes'' \<or> source = ''true'' \<or> c_atoi source > 0)"

definition hasBitSet :: "u32 \<Rightarrow> u32 \<Rightarrow> bool" where
  "hasBitSet flag flags \<longleftrightarrow> (flags AND flag) = flag"

section \<open>Character classes and validation\<close>

definition isNumber :: "char \<Rightarrow> bool" where
  "isNumber c \<longleftrightarrow> signed_char c \<ge> 48 \<and> signed_char c \<le> 57"

definition isLowercaseLetter :: "char \<Rightarrow> bool" where
  "isLowercaseLetter c \<longleftrightarrow> signed_char c \<ge> 97 \<and> signed_char c \<le> 122"

definition isUppercaseLetter :: "char \<Rightarrow> bool" where
  "isUppercaseLetter c \<longleftrightarrow> signed_char c \<ge> 65 \<and> signed_char c \<le> 90"

definition isPasswordCharacter :: "char \<Rightarrow> bool" where
  "isPasswordCharacter c \<longleftrightarrow>
     (signed_char c \<ge> 33 \<and> signed_char c \<le> 47) \<or> (signed_char c \<ge> 58 \<and> signed_char c \<le> 64)
     \<or> (signed_char c \<ge> 91 \<and> signed_char c \<le> 96) \<or> (signed_char c \<ge> 123 \<and> signed_char c \<le> 126)"

definition isValidAccountName :: "string \<Rightarrow> bool" where
  "isValidAccountName content =
     list_all (\<lambda>c. isLowercaseLetter c \<or> isNumber c) (asLowerCaseString content)"

definition isValidPassword :: "string \<Rightarrow> bool" where
  "isValidPassword content =
     list_all (\<lambda>c. isLowercaseLetter c \<or> isNumber c \<or> isPasswordCharacter c) (asLowerCaseString content)"

definition isNumbers :: "string \<Rightarrow> bool" where
  "isNumbers content = list_all isNumber content"

text \<open>
  The loop of \<^verbatim>\<open>isValidName\<close>: its five counters, one iteration (\<open>None\<close> is \<^verbatim>\<open>return false\<close>) and
  the walk over the indices from one.
\<close>

record name_state =
  lenBeforeSpace :: nat
  lenBeforeQuote :: nat
  lenBeforeDash :: nat
  repeatedCharacter :: nat
  lastChar :: char

definition name_break :: "string \<Rightarrow> nat \<Rightarrow> nat \<Rightarrow> bool" where
  "name_break content sz len \<longleftrightarrow>
     len \<le> 1 \<or> sz = length content - 1 \<or> str_at content (sz + 1) = CHR '' ''"

definition name_count :: "string \<Rightarrow> nat \<Rightarrow> name_state \<Rightarrow> name_state option" where
  "name_count content sz st =
     (let c = str_at content sz in
      if c \<noteq> CHR '' '' then
        let st = st\<lparr>lenBeforeSpace := lenBeforeSpace st + 1\<rparr> in
        if c = CHR 0x27 \<and> name_break content sz (lenBeforeQuote st) then None
        else let st = st\<lparr>lenBeforeQuote := (if c \<noteq> CHR 0x27 then lenBeforeQuote st + 1 else 0)\<rparr> in
        if c = CHR ''-'' \<and> name_break content sz (lenBeforeDash st) then None
        else let st = st\<lparr>lenBeforeDash := (if c \<noteq> CHR ''-'' then lenBeforeDash st + 1 else 0)\<rparr> in
        if c = lastChar st then
          (if repeatedCharacter st + 1 > 2 then None
           else Some (st\<lparr>repeatedCharacter := repeatedCharacter st + 1, lastChar := c\<rparr>))
        else Some (st\<lparr>repeatedCharacter := 0, lastChar := c\<rparr>)
      else if name_break content sz (lenBeforeSpace st) then None
      else Some (st\<lparr>lenBeforeSpace := 0, lenBeforeQuote := 0, lenBeforeDash := 0\<rparr>))"

definition name_step :: "string \<Rightarrow> nat \<Rightarrow> name_state \<Rightarrow> name_state option" where
  "name_step content sz st =
     (case name_count content sz st of None \<Rightarrow> None
      | Some st \<Rightarrow>
          let c = str_at content sz in
          if isLowercaseLetter c \<or> c = CHR '' '' \<or> c = CHR 0x27 \<or> c = CHR ''-''
             \<or> (isUppercaseLetter c \<and> str_at content (sz - 1) = CHR '' '')
          then Some st else None)"

fun name_loop :: "string \<Rightarrow> nat list \<Rightarrow> name_state \<Rightarrow> bool" where
  "name_loop content [] st = True"
| "name_loop content (sz # szs) st =
     (case name_step content sz st of None \<Rightarrow> False | Some st \<Rightarrow> name_loop content szs st)"

definition isValidName :: "string \<Rightarrow> bool \<Rightarrow> bool" where
  "isValidName content forceUppercaseOnFirstLetter =
     (let st = \<lparr>lenBeforeSpace = 1, lenBeforeQuote = 1, lenBeforeDash = 1,
                repeatedCharacter = 0, lastChar = CHR '' ''\<rparr>
      in if forceUppercaseOnFirstLetter \<and> \<not> isUppercaseLetter (str_at content 0) then False
         else if \<not> forceUppercaseOnFirstLetter \<and> \<not> isLowercaseLetter (str_at content 0)
                 \<and> \<not> isUppercaseLetter (str_at content 0) then False
         else name_loop content [1..<length content] st)"

section \<open>Splitting and replacing\<close>

partial_function (option) explode_loop ::
  "string \<Rightarrow> string \<Rightarrow> nat \<Rightarrow> string list \<Rightarrow> string list option" where
  "explode_loop str separator start returnVector =
     (case str_find str separator start of
        None \<Rightarrow> Some (returnVector @ [drop start str])
      | Some e \<Rightarrow> explode_loop str separator (e + length separator)
                   (returnVector @ [take (e - start) (drop start str)]))"

definition explodeString :: "string \<Rightarrow> string \<Rightarrow> string list option" where
  "explodeString str separator = explode_loop str separator 0 []"

definition vectorAtoi :: "string list \<Rightarrow> int list" where
  "vectorAtoi stringVector = map c_atoi stringVector"

partial_function (option) replace_loop :: "string \<Rightarrow> string \<Rightarrow> string \<Rightarrow> string option" where
  "replace_loop content key val =
     (case find_sub key content of
        None \<Rightarrow> Some content
      | Some keyStart \<Rightarrow>
          replace_loop (take keyStart content @ val @ drop (keyStart + length key) content) key val)"

definition replaceString :: "string \<Rightarrow> string \<Rightarrow> string \<Rightarrow> string option" where
  "replaceString content key val =
     (if find_sub key val \<noteq> None then Some content else replace_loop content key val)"

text \<open>One piece of \<^verbatim>\<open>parseIntegerVec\<close>: a number, or the inclusive range \<^verbatim>\<open>a-b\<close>.\<close>

definition integer_piece :: "string \<Rightarrow> int list \<Rightarrow> int list" where
  "integer_piece piece tmpIntVector =
     (if tmpIntVector ! 0 = 0 \<and> take 1 piece \<noteq> ''0'' then []
      else if length tmpIntVector > 1
        then tmpIntVector ! 0 # [tmpIntVector ! 0 + 1 .. tmpIntVector ! 1]
      else [tmpIntVector ! 0])"

fun integer_pieces :: "string list \<Rightarrow> int list \<Rightarrow> int list option" where
  "integer_pieces [] intVector = Some intVector"
| "integer_pieces (piece # pieces) intVector =
     (case explodeString piece ''-'' of None \<Rightarrow> None
      | Some ss \<Rightarrow> integer_pieces pieces (intVector @ integer_piece piece (vectorAtoi ss)))"

definition parseIntegerVec :: "string \<Rightarrow> int list \<Rightarrow> int list option" where
  "parseIntegerVec str intVector =
     (case explodeString str '';'' of None \<Rightarrow> None
      | Some strVector \<Rightarrow> integer_pieces strVector intVector)"

text \<open>
  \<^verbatim>\<open>parseParams\<close> reads one, possibly quoted, parameter off a token list.  On an opening token
  that is only the quote, \<^verbatim>\<open>tmp[tmp.length() - 1]\<close> reads in front of the string's buffer.
\<close>

fun parseParams_loop :: "string \<Rightarrow> string list \<Rightarrow> (string \<times> string list) run" where
  "parseParams_loop tmp [] = Inr (tmp, [])"
| "parseParams_loop tmp (tok # toks) =
     (if tmp = [] then Inl Undefined_behaviour
      else if last tmp = CHR 0x22 then Inr (tmp, tok # toks)
      else parseParams_loop (tmp @ '' '' @ tok) toks)"

fun parseParams :: "string list \<Rightarrow> (string \<times> string list) run" where
  "parseParams [] = Inr ([], [])"
| "parseParams (tmp # toks) =
     (if str_at tmp 0 = CHR 0x22
      then bind_run (parseParams_loop (drop 1 tmp) toks)
        (\<lambda>(tmp, toks). Inr
          (if length tmp > 0 \<and> last tmp = CHR 0x22 then butlast tmp else tmp, toks))
      else Inr (tmp, toks))"

section \<open>Formatting\<close>

definition formatTime :: "int \<Rightarrow> int \<Rightarrow> string" where
  "formatTime hours minutes =
     (if hours \<noteq> 0
      then show_int hours @ '' '' @ (if hours > 1 then ''hours'' else ''hour'')
           @ (if minutes \<noteq> 0 then '' and '' else '''')
      else '''')
     @ (if minutes \<noteq> 0
        then show_int minutes @ '' '' @ (if minutes > 1 then ''minutes'' else ''minute'')
        else '''')"

definition convertIPAddress :: "u32 \<Rightarrow> string" where
  "convertIPAddress ip =
     show_int (uint (ip AND 0xFF)) @ ''.'' @ show_int (uint (drop_bit 8 ip AND 0xFF)) @ ''.''
     @ show_int (uint (drop_bit 16 ip AND 0xFF)) @ ''.'' @ show_int (uint (drop_bit 24 ip))"

fun vocation_string_loop :: "string \<Rightarrow> string \<Rightarrow> string list \<Rightarrow> string \<Rightarrow> string" where
  "vocation_string_loop front back [] str = str"
| "vocation_string_loop front back (it # its) str =
     (let str = (if it \<noteq> front then (if it \<noteq> back then str @ '', '' else str @ '' and '') else str)
      in vocation_string_loop front back its (str @ it @ ''s''))"

definition parseVocationString :: "string list \<Rightarrow> string" where
  "parseVocationString vocStringVec =
     (if vocStringVec \<noteq> []
      then vocation_string_loop (hd vocStringVec) (last vocStringVec) vocStringVec ''''
      else '''')"

definition getFilePath :: "string \<Rightarrow> file_type \<Rightarrow> string \<Rightarrow> string" where
  "getFilePath dataDirectory filetype filename =
     (let path = dataDirectory in
      case filetype of
        FILETYPE_OTHER \<Rightarrow> path @ filename
      | FILETYPE_XML \<Rightarrow> path @ ''XML/'' @ filename
      | FILETYPE_LOG \<Rightarrow> path @ ''logs/'' @ filename
      | FILETYPE_MOD \<Rightarrow> ''mods/'' @ filename
      | FILETYPE_CONFIG \<Rightarrow> filename)"


section \<open>Searching\<close>

definition occurs :: "string \<Rightarrow> string \<Rightarrow> bool" where
  "occurs pat s \<longleftrightarrow> (\<exists>a b. s = a @ pat @ b)"

lemma take_eq_append: "take (length pat) s = pat \<Longrightarrow> \<exists>b. s = pat @ b"
  by (metis append_take_drop_id)

lemma occurs_Cons: "occurs pat (c # s) \<longleftrightarrow> take (length pat) (c # s) = pat \<or> occurs pat s"
proof
  assume "occurs pat (c # s)"
  then obtain a b where "c # s = a @ pat @ b" by (auto simp: occurs_def)
  then show "take (length pat) (c # s) = pat \<or> occurs pat s"
    by (cases a) (auto simp: occurs_def)
next
  assume "take (length pat) (c # s) = pat \<or> occurs pat s"
  then show "occurs pat (c # s)"
  proof
    assume "take (length pat) (c # s) = pat"
    from take_eq_append [OF this] obtain b where "c # s = [] @ pat @ b" by auto
    then show ?thesis unfolding occurs_def by blast
  next
    assume "occurs pat s"
    then obtain a b where "c # s = (c # a) @ pat @ b" by (auto simp: occurs_def)
    then show ?thesis unfolding occurs_def by blast
  qed
qed

lemma find_sub_None: "find_sub pat s = None \<longleftrightarrow> \<not> occurs pat s"
proof (induction s)
  case Nil
  then show ?case by (auto simp: occurs_def)
next
  case (Cons c s)
  then show ?case by (auto simp: occurs_Cons)
qed

lemma find_sub_Some:
  "find_sub pat s = Some k \<Longrightarrow> \<exists>b. s = take k s @ pat @ b \<and> k + length pat + length b = length s
     \<and> (pat \<noteq> [] \<longrightarrow> \<not> occurs pat (take k s))"
proof (induction s arbitrary: k)
  case Nil
  then show ?case by (auto split: if_splits)
next
  case (Cons c s)
  show ?case
  proof (cases "take (length pat) (c # s) = pat")
    case True
    then obtain b where b: "c # s = pat @ b" using take_eq_append [OF True] by blast
    from True Cons.prems have "k = 0" by simp
    moreover from b have "length pat + length b = length (c # s)" by (metis length_append)
    moreover have "pat \<noteq> [] \<longrightarrow> \<not> occurs pat []" by (simp add: occurs_def)
    ultimately show ?thesis using b by (intro exI [of _ b]) simp
  next
    case False
    with Cons.prems obtain j where j: "find_sub pat s = Some j" "k = Suc j" by auto
    from Cons.IH [OF j(1)] obtain b where b: "s = take j s @ pat @ b"
      "j + length pat + length b = length s" "pat \<noteq> [] \<longrightarrow> \<not> occurs pat (take j s)" by blast
    have "take (length pat) (c # take j s) \<noteq> pat"
    proof
      assume eq: "take (length pat) (c # take j s) = pat"
      have "min (length (c # take j s)) (length pat) = length pat"
        using arg_cong [OF eq, of length] by (simp only: length_take)
      moreover have "length (c # take j s) \<le> Suc j" by simp
      ultimately have "length pat \<le> Suc j" by linarith
      then have "take (length pat) (c # s) = take (length pat) (take (Suc j) (c # s))"
        by (simp only: take_take min.absorb1)
      with eq False show False by simp
    qed
    with b j show ?thesis by (auto simp: occurs_Cons)
  qed
qed

lemma find_sub_drop:
  assumes "find_sub pat s = Some k"
  shows "s = take k s @ pat @ drop (k + length pat) s" "k + length pat \<le> length s"
proof -
  from find_sub_Some [OF assms] obtain b where b: "s = take k s @ pat @ b"
    and l: "k + length pat + length b = length s" by blast
  then show "k + length pat \<le> length s" by simp
  have "drop (k + length pat) s = drop (k + length pat) (take k s @ pat @ b)" using b by simp
  also have "\<dots> = b" using l by simp
  finally show "s = take k s @ pat @ drop (k + length pat) s" using b by simp
qed

section \<open>Splitting\<close>

fun join_with :: "string \<Rightarrow> string list \<Rightarrow> string" where
  "join_with sep [] = []"
| "join_with sep [p] = p"
| "join_with sep (p # q # ps) = p @ sep @ join_with sep (q # ps)"

lemma join_with_Cons: "ps \<noteq> [] \<Longrightarrow> join_with sep (p # ps) = p @ sep @ join_with sep ps"
  by (cases ps) auto

lemma explode_loop_total:
  assumes "sep \<noteq> []" "start \<le> length s"
  shows "\<exists>ps. explode_loop s sep start acc = Some (acc @ ps) \<and> ps \<noteq> []
    \<and> join_with sep ps = drop start s \<and> (\<forall>p \<in> set ps. \<not> occurs sep p)"
  using assms(2)
proof (induction "length s - start" arbitrary: start acc rule: less_induct)
  case less
  show ?case
  proof (cases "find_sub sep (drop start s)")
    case None
    then have "explode_loop s sep start acc = Some (acc @ [drop start s])"
      using less.prems by (subst explode_loop.simps) (simp add: str_find_def)
    then show ?thesis using None by (auto simp: find_sub_None)
  next
    case (Some k)
    note d = find_sub_drop [OF Some]
    let ?next = "start + k + length sep"
    have le: "?next \<le> length s" using d(2) less.prems by simp
    have "length s - ?next < length s - start" using assms(1) le by (cases sep) auto
    from less.hyps [OF this le, of "acc @ [take k (drop start s)]"] obtain ps where ps:
      "explode_loop s sep ?next (acc @ [take k (drop start s)]) = Some ((acc @ [take k (drop start s)]) @ ps)"
      "ps \<noteq> []" "join_with sep ps = drop ?next s" "\<forall>p \<in> set ps. \<not> occurs sep p" by blast
    have "explode_loop s sep start acc = Some (acc @ take k (drop start s) # ps)"
      using ps(1) Some less.prems by (subst explode_loop.simps) (simp add: str_find_def)
    moreover have "join_with sep (take k (drop start s) # ps) = drop start s"
      using d(1) [symmetric] ps(2,3) by (simp add: join_with_Cons ac_simps)
    moreover have "\<not> occurs sep (take k (drop start s))"
      using find_sub_Some [OF Some] assms(1) by blast
    ultimately show ?thesis using ps by (intro exI [of _ "take k (drop start s) # ps"]) simp
  qed
qed

lemma explode_loop_empty_separator:
  assumes "explode_loop s sep start acc = Some r"
  shows "\<not> (sep = [] \<and> start \<le> length s)"
proof (rule explode_loop.raw_induct
    [where P = "\<lambda>s sep start acc r. \<not> (sep = [] \<and> start \<le> length s)", OF _ assms])
  fix f s sep start acc r
  assume IH: "\<And>s sep start acc r. f s sep start acc = Some r \<Longrightarrow> \<not> (sep = [] \<and> start \<le> length s)"
    and eq: "(case str_find s sep start of None \<Rightarrow> Some (acc @ [drop start s])
      | Some e \<Rightarrow> f s sep (e + length sep) (acc @ [take (e - start) (drop start s)])) = Some r"
  show "\<not> (sep = [] \<and> start \<le> length s)"
  proof
    assume h: "sep = [] \<and> start \<le> length s"
    then have "str_find s sep start = Some start"
      by (cases "drop start s") (simp_all add: str_find_def)
    with eq IH h show False by (auto dest!: IH)
  qed
qed

text \<open>
  Fact: for a separator that is not empty \<^verbatim>\<open>explodeString\<close> returns at least one piece, no piece
  contains the separator, and joining the pieces with it gives the string back; with an empty
  separator the loop never returns.
\<close>

theorem explodeString_splits:
  "(separator \<noteq> [] \<longrightarrow> (\<exists>ps. explodeString str separator = Some ps \<and> ps \<noteq> []
      \<and> join_with separator ps = str \<and> (\<forall>p \<in> set ps. \<not> occurs separator p)))
   \<and> explodeString str [] = None"
proof (intro conjI impI)
  show "explodeString str [] = None"
    using explode_loop_empty_separator [of str "[]" 0 "[]"]
    by (cases "explode_loop str [] 0 []") (auto simp: explodeString_def)
qed (use explode_loop_total [of separator 0 str "[]"] in \<open>simp add: explodeString_def\<close>)

lemma explodeString_splits_witness:
  "\<exists>ps. explodeString ''a;b;;c'' '';'' = Some ps \<and> join_with '';'' ps = ''a;b;;c''"
  using explodeString_splits [of "'';''" "''a;b;;c''"] by auto

lemma occurs_char: "occurs [c] p \<longleftrightarrow> c \<in> set p"
  by (auto simp: occurs_def in_set_conv_decomp)

lemma join_with_char_inj:
  "ps \<noteq> [] \<Longrightarrow> qs \<noteq> [] \<Longrightarrow> \<forall>p \<in> set ps. c \<notin> set p \<Longrightarrow> \<forall>p \<in> set qs. c \<notin> set p \<Longrightarrow>
   join_with [c] ps = join_with [c] qs \<Longrightarrow> ps = qs"
proof (induction ps arbitrary: qs)
  case (Cons p ps)
  obtain q qs' where qs: "qs = q # qs'" using Cons.prems(2) by (cases qs) auto
  have tw: "takeWhile (\<lambda>x. x \<noteq> c) (join_with [c] (r # rs)) = r"
    and dw: "dropWhile (\<lambda>x. x \<noteq> c) (join_with [c] (r # rs))
      = (if rs = [] then [] else c # join_with [c] rs)"
    if "c \<notin> set r" for r rs
  proof -
    have all: "\<And>x. x \<in> set r \<Longrightarrow> x \<noteq> c" using that by auto
    show "takeWhile (\<lambda>x. x \<noteq> c) (join_with [c] (r # rs)) = r"
      using all by (cases rs) (simp_all add: takeWhile_append2)
    show "dropWhile (\<lambda>x. x \<noteq> c) (join_with [c] (r # rs))
        = (if rs = [] then [] else c # join_with [c] rs)"
      using all by (cases rs) (simp_all add: dropWhile_append2)
  qed
  have c: "c \<notin> set p" "c \<notin> set q" using Cons.prems qs by auto
  have "p = q" using arg_cong [OF Cons.prems(5), of "takeWhile (\<lambda>x. x \<noteq> c)"] tw c qs by simp
  moreover have "(if ps = [] then [] else c # join_with [c] ps)
      = (if qs' = [] then [] else c # join_with [c] qs')"
    using arg_cong [OF Cons.prems(5), of "dropWhile (\<lambda>x. x \<noteq> c)"] dw c qs by simp
  ultimately show ?case using Cons qs by (auto split: if_splits)
qed simp

lemma explodeString_join:
  assumes "ps \<noteq> []" "\<forall>p \<in> set ps. c \<notin> set p"
  shows "explodeString (join_with [c] ps) [c] = Some ps"
proof -
  obtain qs where qs: "explodeString (join_with [c] ps) [c] = Some qs" "qs \<noteq> []"
    "join_with [c] qs = join_with [c] ps" "\<forall>q \<in> set qs. \<not> occurs [c] q"
    using explode_loop_total [of "[c]" 0 "join_with [c] ps" "[]"] by (auto simp: explodeString_def)
  then show ?thesis using join_with_char_inj [of qs ps c] assms by (auto simp: occurs_char)
qed


section \<open>Replacing\<close>

lemma replace_loop_total:
  assumes "c \<in> set key" "c \<notin> set val"
  shows "\<exists>r. replace_loop content key val = Some r \<and> \<not> occurs key r"
proof (induction "count_list content c" arbitrary: content rule: less_induct)
  case less
  show ?case
  proof (cases "find_sub key content")
    case None
    then have "\<not> occurs key content" by (simp add: find_sub_None)
    with None show ?thesis by (subst replace_loop.simps) simp
  next
    case (Some k)
    let ?t = "take k content @ val @ drop (k + length key) content"
    have "count_list content c = count_list (take k content) c + count_list key c
        + count_list (drop (k + length key) content) c"
      using arg_cong [OF find_sub_drop(1) [OF Some], of "\<lambda>s. count_list s c"] by simp
    moreover have "count_list val c = 0" using assms(2) by (simp add: count_list_0_iff)
    moreover have "count_list key c \<noteq> 0" using assms(1) by (simp add: count_list_0_iff)
    ultimately have "count_list ?t c < count_list content c" by simp
    from less.hyps [OF this] show ?thesis
      using Some by (subst replace_loop.simps) simp
  qed
qed

lemma replace_loop_result:
  assumes "replace_loop content key val = Some r"
  shows "\<not> occurs key r"
proof (rule replace_loop.raw_induct [where P = "\<lambda>content key val r. \<not> occurs key r", OF _ assms])
  fix f content key val r
  assume IH: "\<And>content key val r. f content key val = Some r \<Longrightarrow> \<not> occurs key r"
    and eq: "(case find_sub key content of None \<Rightarrow> Some content
      | Some k \<Rightarrow> f (take k content @ val @ drop (k + length key) content) key val) = Some r"
  show "\<not> occurs key r"
    using eq IH by (auto split: option.splits simp: find_sub_None)
qed

text \<open>The texts that the loop passes through when it rewrites \<^verbatim>\<open>ab\<close> to \<^verbatim>\<open>bbaa\<close> in \<^verbatim>\<open>abb\<close>.\<close>

definition pumped :: "nat \<Rightarrow> nat \<Rightarrow> string" where
  "pumped m n = replicate m CHR ''b'' @ ''abb'' @ replicate n CHR ''a''"

lemma find_sub_pumped:
  "find_sub ''ab'' (replicate m CHR ''b'' @ CHR ''a'' # CHR ''b'' # s) = Some m"
  by (induction m) auto

lemma pumped_step1:
  "find_sub ''ab'' (pumped m n) = Some m"
  "take m (pumped m n) @ ''bbaa'' @ drop (m + 2) (pumped m n)
     = replicate (m + 2) CHR ''b'' @ ''aab'' @ replicate n CHR ''a''"
  by (simp_all add: pumped_def find_sub_pumped replicate_add numeral_2_eq_2 flip: replicate_append_same)

lemma find_sub_pumped2:
  "find_sub ''ab'' (replicate m CHR ''b'' @ CHR ''a'' # CHR ''a'' # CHR ''b'' # s) = Some (Suc m)"
  by (induction m) auto

lemma pumped_step2:
  fixes m n :: nat
  defines "t \<equiv> replicate m CHR ''b'' @ ''aab'' @ replicate n CHR ''a''"
  shows "find_sub ''ab'' t = Some (Suc m)"
    and "take (Suc m) t @ ''bbaa'' @ drop (Suc m + 2) t = pumped m (n + 2)"
  by (simp_all add: t_def find_sub_pumped2 pumped_def replicate_add numeral_2_eq_2)

lemma replace_loop_pumped:
  assumes "replace_loop content key val = Some r"
  shows "\<not> (key = ''ab'' \<and> val = ''bbaa'' \<and> (\<exists>m n. content = pumped m n
    \<or> content = replicate m CHR ''b'' @ ''aab'' @ replicate n CHR ''a''))"
    (is "\<not> ?Q content key val")
proof (rule replace_loop.raw_induct [where P = "\<lambda>content key val r. \<not> ?Q content key val", OF _ assms])
  fix f :: "string \<Rightarrow> string \<Rightarrow> string \<Rightarrow> string option" and content key val r
  assume IH: "\<And>content key val r. f content key val = Some r \<Longrightarrow> \<not> ?Q content key val"
    and eq: "(case find_sub key content of None \<Rightarrow> Some content
      | Some k \<Rightarrow> f (take k content @ val @ drop (k + length key) content) key val) = Some r"
  show "\<not> ?Q content key val"
  proof
    assume Q: "?Q content key val"
    then obtain m n where kv: "key = ''ab''" "val = ''bbaa''" and cases:
      "content = pumped m n \<or> content = replicate m CHR ''b'' @ ''aab'' @ replicate n CHR ''a''" by blast
    have len: "length key = 2" by (simp add: kv(1))
    from cases obtain k where k: "find_sub key content = Some k"
      and Q': "?Q (take k content @ val @ drop (k + length key) content) key val"
    proof (elim disjE)
      assume c: "content = pumped m n"
      have "find_sub key content = Some m" using pumped_step1(1) unfolding c kv(1) .
      moreover have "take m content @ val @ drop (m + length key) content
          = replicate (m + 2) CHR ''b'' @ ''aab'' @ replicate n CHR ''a''"
        using pumped_step1(2) unfolding c kv(2) len .
      ultimately show thesis using that kv by blast
    next
      assume c: "content = replicate m CHR ''b'' @ ''aab'' @ replicate n CHR ''a''"
      have "find_sub key content = Some (Suc m)" using pumped_step2(1) unfolding c kv(1) .
      moreover have "take (Suc m) content @ val @ drop (Suc m + length key) content = pumped m (n + 2)"
        using pumped_step2(2) unfolding c kv(2) len .
      ultimately show thesis using that kv by blast
    qed
    from eq k have "f (take k content @ val @ drop (k + length key) content) key val = Some r" by simp
    from IH [OF this] Q' show False by contradiction
  qed
qed

text \<open>
  Fact: \<^verbatim>\<open>replaceString\<close> returns whenever the key has a character that the value lacks, and what it
  returns then has no occurrence of the key left; its guard against endless loops (the val
  must not contain the key) is not enough, though: replacing \<^verbatim>\<open>ab\<close> by \<^verbatim>\<open>bbaa\<close> in \<^verbatim>\<open>abb\<close>
  passes the guard and never returns.
\<close>

theorem replaceString_returns:
  "(c \<in> set key \<and> c \<notin> set val \<longrightarrow>
      (\<exists>r. replaceString content key val = Some r \<and> \<not> occurs key r))
   \<and> \<not> occurs ''ab'' ''bbaa'' \<and> replaceString ''abb'' ''ab'' ''bbaa'' = None"
proof (intro conjI impI)
  assume c: "c \<in> set key \<and> c \<notin> set val"
  then have "\<not> occurs key val" by (auto simp: occurs_def)
  then show "\<exists>r. replaceString content key val = Some r \<and> \<not> occurs key r"
    using replace_loop_total [of c key val content] c
    by (simp add: replaceString_def find_sub_None)
next
  show no: "\<not> occurs ''ab'' ''bbaa''" by (simp flip: find_sub_None)
  have "''abb'' = pumped 0 0" by (simp add: pumped_def)
  then have "replace_loop ''abb'' ''ab'' ''bbaa'' = None"
    using replace_loop_pumped [of "''abb''" "''ab''" "''bbaa''"]
    by (cases "replace_loop ''abb'' ''ab'' ''bbaa''") blast+
  then show "replaceString ''abb'' ''ab'' ''bbaa'' = None"
    using no by (simp add: replaceString_def find_sub_None)
qed

lemma replaceString_returns_witness:
  "\<exists>r. replaceString ''Hi |NAME|!'' ''|NAME|'' ''Bob'' = Some r \<and> \<not> occurs ''|NAME|'' r"
  using replaceString_returns [of "CHR ''|''" "''|NAME|''" "''Bob''" "''Hi |NAME|!''"] by simp

section \<open>Trimming\<close>

lemma find_last_not_of_append:
  "find_last_not_of (s @ [c]) t = (if c \<notin> set t then Some (length s) else find_last_not_of s t)"
  by (induction s) (auto split: option.splits)

lemma trim_right_eq: "trim_right s t = rev (dropWhile (\<lambda>c. c \<in> set t) (rev s))"
proof (induction s rule: rev_induct)
  case Nil
  then show ?case by (simp add: trim_right_def npos_erase_from_def)
next
  case (snoc c s)
  have "find_last_not_of s t = Some i \<Longrightarrow> i < length s" for i
    by (induction s arbitrary: i) (auto split: option.splits if_splits)
  then show ?case using snoc
    by (fastforce simp: trim_right_def npos_erase_from_def find_last_not_of_append
        split: option.splits)
qed

lemma trim_left_eq: "trim_left s t = dropWhile (\<lambda>c. c \<in> set t) s"
  by (induction s) (auto simp: trim_left_def npos_erase_to_def split: option.splits)

lemma trimString_eq: "trimString s = trim_left (trim_right s '' '') '' ''"
  by (simp add: trimString_def trim_left_def trim_right_def Let_def)

text \<open>
  Fact: \<^verbatim>\<open>trimString\<close> removes exactly the spaces at both ends: what is left is a contiguous part of
  the string, with only spaces before and after it, that neither starts nor ends with one.
\<close>

theorem trimString_spec:
  "\<exists>a b. s = replicate a CHR '' '' @ trimString s @ replicate b CHR '' ''
    \<and> (trimString s \<noteq> [] \<longrightarrow> hd (trimString s) \<noteq> CHR '' '' \<and> last (trimString s) \<noteq> CHR '' '')"
proof -
  let ?sp = "\<lambda>c. c = CHR '' ''"
  have blank: "takeWhile ?sp u = replicate (length (takeWhile ?sp u)) CHR '' ''" for u
    by (induction u) auto
  let ?r = "trim_right s '' ''"
  have r: "?r = rev (dropWhile ?sp (rev s))" by (simp add: trim_right_eq)
  have "rev s = takeWhile ?sp (rev s) @ rev ?r" by (simp add: r)
  then have s: "s = ?r @ replicate (length (takeWhile ?sp (rev s))) CHR '' ''"
    by (metis blank rev_append rev_replicate rev_rev_ident)
  have l: "trimString s = dropWhile ?sp ?r" by (simp add: trimString_eq trim_left_eq)
  then have "?r = replicate (length (takeWhile ?sp ?r)) CHR '' '' @ trimString s"
    by (metis blank takeWhile_dropWhile_id)
  moreover have "hd (trimString s) \<noteq> CHR '' '' \<and> last (trimString s) \<noteq> CHR '' ''"
    if "trimString s \<noteq> []"
  proof
    show "hd (trimString s) \<noteq> CHR '' ''" using that hd_dropWhile [of ?sp ?r] unfolding l by simp
    have "last (trimString s) = last ?r"
      using that unfolding l by (metis last_appendR takeWhile_dropWhile_id)
    moreover have "?r \<noteq> []" using that l by auto
    moreover from this have "dropWhile ?sp (rev s) \<noteq> []" using r by simp
    then have "hd (dropWhile ?sp (rev s)) \<noteq> CHR '' ''" by (rule hd_dropWhile)
    ultimately show "last (trimString s) \<noteq> CHR '' ''" using r by (simp add: last_rev)
  qed
  ultimately show ?thesis using s by (metis append.assoc)
qed

lemma trimString_spec_witness:
  "\<exists>a b. ''  ab c '' = replicate a CHR '' '' @ trimString ''  ab c '' @ replicate b CHR '' ''
    \<and> hd (trimString ''  ab c '') \<noteq> CHR '' '' \<and> last (trimString ''  ab c '') \<noteq> CHR '' ''"
proof -
  have "trimString ''  ab c '' \<noteq> []" by code_simp
  then show ?thesis using trimString_spec [of "''  ab c ''"] by blast
qed


section \<open>Names\<close>

lemma name_loop_steps:
  "name_loop content szs st \<Longrightarrow> sz \<in> set szs \<Longrightarrow> \<exists>st st'. name_step content sz st = Some st'"
  by (induction szs arbitrary: st) (auto split: option.splits)

lemma name_step_char:
  assumes "name_step content sz st = Some st'"
  shows "isLowercaseLetter (str_at content sz) \<or> str_at content sz \<in> {CHR '' '', CHR 0x27, CHR ''-''}
      \<or> (isUppercaseLetter (str_at content sz) \<and> str_at content (sz - 1) = CHR '' '')"
    and "str_at content sz \<in> {CHR '' '', CHR 0x27, CHR ''-''} \<Longrightarrow>
      sz \<noteq> length content - 1 \<and> str_at content (sz + 1) \<noteq> CHR '' ''"
proof -
  obtain st'' where c: "name_count content sz st = Some st''"
    using assms by (auto simp: name_step_def split: option.splits)
  then show "isLowercaseLetter (str_at content sz) \<or> str_at content sz \<in> {CHR '' '', CHR 0x27, CHR ''-''}
      \<or> (isUppercaseLetter (str_at content sz) \<and> str_at content (sz - 1) = CHR '' '')"
    using assms by (auto simp: name_step_def Let_def split: if_splits)
  show "sz \<noteq> length content - 1 \<and> str_at content (sz + 1) \<noteq> CHR '' ''"
    if "str_at content sz \<in> {CHR '' '', CHR 0x27, CHR ''-''}"
    using c that by (auto simp: name_count_def name_break_def Let_def split: if_splits)
qed

text \<open>
  Fact: a name that \<^verbatim>\<open>isValidName\<close> accepts is not empty and starts with a capital letter; every
  further character is a lower-case letter, a space, an apostrophe or a dash, or a capital
  right after a space; and a space, apostrophe or dash is never the last character and never
  followed by a space.
\<close>

theorem isValidName_shape:
  assumes "isValidName name True"
  shows "name \<noteq> [] \<and> isUppercaseLetter (name ! 0) \<and>
    (\<forall>i. 0 < i \<and> i < length name \<longrightarrow>
      (isLowercaseLetter (name ! i) \<or> name ! i \<in> {CHR '' '', CHR 0x27, CHR ''-''}
        \<or> (isUppercaseLetter (name ! i) \<and> name ! (i - 1) = CHR '' ''))
      \<and> (name ! i \<in> {CHR '' '', CHR 0x27, CHR ''-''} \<longrightarrow>
          Suc i < length name \<and> name ! Suc i \<noteq> CHR '' ''))"
proof (intro conjI allI impI)
  have first: "isUppercaseLetter (str_at name 0)"
    using assms by (simp add: isValidName_def split: if_splits)
  show ne: "name \<noteq> []"
    using first by (auto simp: str_at_def isUppercaseLetter_def signed_char_def char_code_def)
  show "isUppercaseLetter (name ! 0)" using first ne by (simp add: str_at_def)
next
  fix i assume i: "0 < i \<and> i < length name"
  have "\<exists>st. name_loop name [1..<length name] st"
    using assms by (auto simp: isValidName_def Let_def split: if_splits)
  moreover have "i \<in> set [1..<length name]" using i by simp
  ultimately obtain st st' where step: "name_step name i st = Some st'"
    using name_loop_steps by blast
  show "isLowercaseLetter (name ! i) \<or> name ! i \<in> {CHR '' '', CHR 0x27, CHR ''-''}
      \<or> (isUppercaseLetter (name ! i) \<and> name ! (i - 1) = CHR '' '')"
    using name_step_char(1) [OF step] i by (simp add: str_at_def less_imp_diff_less)
  assume "name ! i \<in> {CHR '' '', CHR 0x27, CHR ''-''}"
  then have "i \<noteq> length name - 1 \<and> str_at name (i + 1) \<noteq> CHR '' ''"
    using name_step_char(2) [OF step] i by (simp add: str_at_def)
  moreover from this have lt: "Suc i < length name" using i by linarith
  ultimately show "name ! Suc i \<noteq> CHR '' ''" by (simp add: str_at_def)
  show "Suc i < length name" by (rule lt)
qed

lemma isValidName_shape_witness:
  "isValidName ''Alan Do'har'' True \<and> isUppercaseLetter (''Alan Do'har'' ! 0)"
proof -
  have "isValidName ''Alan Do'har'' True" by code_simp
  with isValidName_shape [OF this] show ?thesis by simp
qed

section \<open>Integer vectors\<close>

lemma take_31: "(v :: int) < 2 ^ 31 \<Longrightarrow> 0 \<le> v \<Longrightarrow> signed_take_bit 31 v = v"
  by (rule signed_take_bit_int_eq_self) simp_all

lemma is_digit_not_space: "is_digit c \<Longrightarrow> \<not> c_space c \<and> c \<noteq> CHR ''-'' \<and> c \<noteq> CHR ''+''"
  by (auto simp: is_digit_def c_space_def char_code_def)

lemma hd_show_nat: "is_digit (hd (show_nat n))"
  by (rule show_nat_digits [of _ n]) simp

lemma atoi_show_nat: "n < 2 ^ 31 \<Longrightarrow> c_atoi (show_nat n) = int n"
proof -
  assume n: "n < 2 ^ 31"
  have "dropWhile c_space (show_nat n) = show_nat n"
    using is_digit_not_space [OF hd_show_nat [of n]] by (cases "show_nat n") simp_all
  then show ?thesis
    using is_digit_not_space [OF hd_show_nat [of n]] n
    by (simp add: c_atoi_def Let_def read_show_nat take_31)
qed

lemma show_nat_char: "\<not> is_digit c \<Longrightarrow> c \<notin> set (show_nat n)"
  using show_nat_digits by blast

lemma show_nat_starts_with_0: "take 1 (show_nat 0) = ''0''"
  by code_simp

lemma show_nat_0: "show_nat 0 = ''0''"
  by code_simp

lemma explode_range: "explodeString (show_nat a @ CHR ''-'' # show_nat b) ''-'' = Some [show_nat a, show_nat b]"
proof -
  have "\<not> is_digit CHR ''-''" by (simp add: is_digit_def char_code_def)
  then have "explodeString (join_with ''-'' [show_nat a, show_nat b]) ''-'' = Some [show_nat a, show_nat b]"
    by (intro explodeString_join) (simp_all add: show_nat_char)
  then show ?thesis by simp
qed

lemma range_piece:
  assumes "a < 2 ^ 31" "b < 2 ^ 31"
  shows "integer_pieces ((show_nat a @ CHR ''-'' # show_nat b) # ps) v
    = integer_pieces ps (v @ (int a # [int a + 1 .. int b]))"
proof -
  have "take 1 (show_nat 0 @ CHR ''-'' # show_nat b) = ''0''" by (simp only: show_nat_0) simp
  then have "integer_piece (show_nat a @ CHR ''-'' # show_nat b) (vectorAtoi [show_nat a, show_nat b])
      = int a # [int a + 1 .. int b]"
    using assms by (cases "a = 0") (auto simp: vectorAtoi_def integer_piece_def atoi_show_nat)
  then show ?thesis by (simp add: explode_range)
qed

lemma integer_pieces_ranges:
  "\<forall>(a, b) \<in> set rs. a < 2 ^ 31 \<and> b < 2 ^ 31 \<Longrightarrow>
   integer_pieces (map (\<lambda>(a, b). show_nat a @ CHR ''-'' # show_nat b) rs) v
     = Some (v @ concat (map (\<lambda>(a, b). int a # [int a + 1 .. int b]) rs))"
proof (induction rs arbitrary: v)
  case (Cons r rs)
  obtain a b where r: "r = (a, b)" by (cases r)
  then have "a < 2 ^ 31" "b < 2 ^ 31" using Cons.prems by auto
  then have "integer_pieces (map (\<lambda>(a, b). show_nat a @ CHR ''-'' # show_nat b) (r # rs)) v
      = integer_pieces (map (\<lambda>(a, b). show_nat a @ CHR ''-'' # show_nat b) rs) (v @ (int a # [int a + 1 .. int b]))"
    using range_piece [of a b] by (simp only: r list.map prod.case)
  also have "\<dots> = Some ((v @ (int a # [int a + 1 .. int b])) @ concat (map (\<lambda>(a, b). int a # [int a + 1 .. int b]) rs))"
    using Cons.IH Cons.prems by simp
  finally show ?case by (simp add: r)
qed simp

text \<open>
  Fact: \<^verbatim>\<open>parseIntegerVec\<close> reads back what it documents: a list of \<^verbatim>\<open>a-b\<close> ranges of non-negative
  \<^verbatim>\<open>int\<close>s, printed in decimal and separated by semicolons, yields the integers of the ranges
  in order, appended to the vector it was given.
\<close>

theorem parseIntegerVec_ranges:
  assumes "rs \<noteq> []" "\<forall>(a, b) \<in> set rs. a \<le> b \<and> b < 2 ^ 31"
  shows "parseIntegerVec (join_with '';'' (map (\<lambda>(a, b). show_nat a @ CHR ''-'' # show_nat b) rs)) v
    = Some (v @ concat (map (\<lambda>(a, b). [int a .. int b]) rs))"
proof -
  have semi: "\<not> is_digit CHR '';''" by (simp add: is_digit_def char_code_def)
  let ?ps = "map (\<lambda>(a, b). show_nat a @ CHR ''-'' # show_nat b) rs"
  have "explodeString (join_with '';'' ?ps) '';'' = Some ?ps"
    using assms(1) by (intro explodeString_join) (auto simp: show_nat_char [OF semi])
  moreover have "map (\<lambda>(a, b). int a # [int a + 1 .. int b]) rs = map (\<lambda>(a, b). [int a .. int b]) rs"
    using assms(2) by (auto simp: upto_rec1)
  moreover have "\<forall>(a, b) \<in> set rs. a < 2 ^ 31 \<and> b < 2 ^ 31" using assms(2) by fastforce
  ultimately show ?thesis by (simp only: parseIntegerVec_def option.case integer_pieces_ranges)
qed

lemma parseIntegerVec_ranges_witness:
  "parseIntegerVec (join_with '';'' [show_nat 3 @ CHR ''-'' # show_nat 5, show_nat 0 @ CHR ''-'' # show_nat 1]) []
     = Some [3, 4, 5, 0, 1]"
  using parseIntegerVec_ranges [of "[(3, 5), (0, 1)]" "[]"] by (simp add: upto_rec1)

section \<open>Parameters, addresses and vocation lists\<close>

lemma parseParams_loop_quoted:
  "\<forall>w \<in> set ws. last w \<noteq> CHR 0x22 \<and> w \<noteq> [] \<Longrightarrow> tmp \<noteq> [] \<Longrightarrow> last tmp \<noteq> CHR 0x22 \<Longrightarrow>
   parseParams_loop tmp (ws @ (w @ [CHR 0x22]) # toks)
     = Inr (concat (tmp # map (\<lambda>w. '' '' @ w) ws) @ '' '' @ w @ [CHR 0x22], toks)"
proof (induction ws arbitrary: tmp)
  case Nil
  then show ?case by (cases toks) simp_all
next
  case (Cons u ws)
  have "last (tmp @ '' '' @ u) \<noteq> CHR 0x22" using Cons.prems(1) by simp
  then show ?case using Cons.IH [of "tmp @ '' '' @ u"] Cons.prems by simp
qed

text \<open>
  Fact: \<^verbatim>\<open>parseParams\<close> joins the words of a quoted parameter with single spaces, drops the quotes
  and leaves the following tokens unread; but when the opening token is the bare quote and
  another token follows, it reads one byte in front of the string's buffer.
\<close>

theorem parseParams_quoted:
  assumes "v \<noteq> []" "last v \<noteq> CHR 0x22" "\<forall>w \<in> set ws. w \<noteq> [] \<and> last w \<noteq> CHR 0x22"
  shows "parseParams ((CHR 0x22 # v) # ws @ (w @ [CHR 0x22]) # toks)
      = Inr (join_with '' '' (v # ws @ [w]), toks)
    \<and> parseParams ([CHR 0x22] # t # toks) = Inl Undefined_behaviour"
proof -
  have "concat (v # map (\<lambda>w. '' '' @ w) ws) @ '' '' @ w = join_with '' '' (v # ws @ [w])"
    by (induction ws arbitrary: v) (simp_all add: join_with_Cons)
  moreover have "parseParams_loop v (ws @ (w @ [CHR 0x22]) # toks)
      = Inr (concat (v # map (\<lambda>w. '' '' @ w) ws) @ '' '' @ w @ [CHR 0x22], toks)"
    using assms by (intro parseParams_loop_quoted) auto
  moreover have "butlast (concat (v # map (\<lambda>w. '' '' @ w) ws) @ '' '' @ w @ [CHR 0x22])
      = concat (v # map (\<lambda>w. '' '' @ w) ws) @ '' '' @ w"
    by (simp add: butlast_append)
  ultimately show ?thesis by (simp add: str_at_def)
qed

lemma parseParams_quoted_witness:
  "parseParams [CHR 0x22 # ''demon'', ''lord'' @ [CHR 0x22], ''5''] = Inr (''demon lord'', [''5''])"
  using parseParams_quoted [of "''demon''" "[]" "''lord''" "[''5'']"] by simp

lemma length_show_nat_byte: "n < 256 \<Longrightarrow> length (show_nat n) \<le> 3"
  by (subst show_nat.simps, subst show_nat.simps, subst show_nat.simps) simp

lemma uint_byte_at:
  fixes ip :: u32
  shows "uint (drop_bit n ip AND 0xFF) = int (unat ip div 2 ^ n mod 256)"
proof -
  have "drop_bit n ip AND 0xFF = take_bit 8 (drop_bit n ip)"
    by (simp add: take_bit_eq_mask mask_eq_exp_minus_1)
  then have "uint (drop_bit n ip AND 0xFF) = take_bit 8 (drop_bit n (uint ip))"
    using take_bit_word_eq_self [of 32 ip]
    by (simp only: unsigned_take_bit_eq unsigned_drop_bit_eq) (simp add: flip: unsigned_take_bit_eq)
  also have "\<dots> = int (unat ip) div 2 ^ n mod 2 ^ 8"
    by (simp only: take_bit_eq_mod drop_bit_eq_div uint_nat)
  finally show ?thesis by (simp add: zdiv_int zmod_int)
qed

lemma top_byte:
  fixes ip :: u32
  shows "uint (drop_bit 24 ip) = int (unat ip div 2 ^ 24 mod 256)"
proof -
  have "uint ip < 2 ^ 32" using uint_lt2p [of ip] by simp
  then have "uint ip div 2 ^ 24 < 2 ^ 8" by simp
  moreover have "uint (drop_bit 24 ip) = drop_bit 24 (uint ip)"
    using take_bit_word_eq_self [of 32 ip]
    by (simp only: unsigned_drop_bit_eq) (simp flip: unsigned_take_bit_eq)
  then have "uint (drop_bit 24 ip) = uint ip div 2 ^ 24" by (simp only: drop_bit_eq_div)
  moreover have "0 \<le> uint ip div 2 ^ 24" by (intro pos_imp_zdiv_nonneg_iff [THEN iffD2]) simp_all
  ultimately have "uint (drop_bit 24 ip) = int (unat ip) div 2 ^ 24 mod 2 ^ 8"
    by (simp only: uint_nat mod_pos_pos_trivial)
  then show ?thesis by (simp only: zdiv_int zmod_int of_nat_power of_nat_numeral) simp
qed

text \<open>
  Fact: every address \<^verbatim>\<open>convertIPAddress\<close> prints is the four bytes of the word from the lowest, in
  decimal and separated by dots, and with its terminator fits the 17-byte buffer it is
  formatted into.
\<close>

theorem convertIPAddress_fits:
  "convertIPAddress ip = join_with ''.''
      (map (\<lambda>i. show_nat (unat ip div 256 ^ i mod 256)) [0, 1, 2, 3])
   \<and> length (convertIPAddress ip) + 1 \<le> 17"
proof -
  have d: "show_int (int n) = show_nat n" for n by (simp add: show_int_def)
  have "convertIPAddress ip = show_nat (unat ip div 2 ^ 0 mod 256) @ ''.'' @ show_nat (unat ip div 2 ^ 8 mod 256)
      @ ''.'' @ show_nat (unat ip div 2 ^ 16 mod 256) @ ''.'' @ show_nat (unat ip div 2 ^ 24 mod 256)"
    using uint_byte_at [of 0 ip] unfolding convertIPAddress_def
    by (simp only: uint_byte_at top_byte d drop_bit_0 append_assoc id_apply)
  then have eq: "convertIPAddress ip = join_with ''.''
      (map (\<lambda>i. show_nat (unat ip div 256 ^ i mod 256)) [0, 1, 2, 3])" by simp
  have l: "length (show_nat (k mod 256)) \<le> 3" for k by (simp add: length_show_nat_byte)
  have "length (join_with ''.'' (map (\<lambda>i. show_nat (unat ip div 256 ^ i mod 256)) [0, 1, 2, 3])) \<le> 15"
    using l [of "unat ip div 256 ^ 0"] l [of "unat ip div 256 ^ 1"] l [of "unat ip div 256 ^ 2"]
      l [of "unat ip div 256 ^ 3"] by (simp del: show_nat.simps)
  then show ?thesis using eq by (simp del: show_nat.simps)
qed

lemma vocation_string_tail:
  "distinct (front # its @ [back]) \<Longrightarrow>
   vocation_string_loop front back (its @ [back]) str
     = str @ concat (map (\<lambda>v. '', '' @ v @ ''s'') its) @ '' and '' @ back @ ''s''"
  by (induction its arbitrary: str) (auto simp: Let_def)

text \<open>
  Fact: for pairwise different vocation names \<^verbatim>\<open>parseVocationString\<close> gives their plurals separated
  by commas, with \<^verbatim>\<open>and\<close> before the last; because it compares names instead of positions, a
  repeated first name loses its separator.
\<close>

theorem parseVocationString_lists:
  assumes "distinct (first # its @ [final])"
  shows "parseVocationString (first # its @ [final])
      = join_with '', '' (map (\<lambda>v. v @ ''s'') (first # its)) @ '' and '' @ final @ ''s''
    \<and> parseVocationString [first] = first @ ''s''
    \<and> parseVocationString [''a'', ''b'', ''a''] = ''as, bsas''"
proof -
  have "join_with '', '' (map (\<lambda>v. v @ ''s'') (first # its))
      = first @ ''s'' @ concat (map (\<lambda>v. '', '' @ v @ ''s'') its)"
    by (induction its arbitrary: first) (simp_all add: join_with_Cons)
  then show ?thesis
    using vocation_string_tail [OF assms] by (simp add: parseVocationString_def Let_def)
qed

lemma parseVocationString_lists_witness:
  "parseVocationString [''druid'', ''knight'', ''paladin''] = ''druids, knights and paladins''"
  using parseVocationString_lists [of "''druid''" "[''knight'']" "''paladin''"] by simp

end
