(* ===== verification/Name_Tables.thy ===== *)
theory Name_Tables
  imports Text_Tools
begin

text \<open>
  The name tables of \<^verbatim>\<open>src/sources/tools.cpp\<close>: the arrays that give the script names of magic
  effects, projectiles, damage types, ammunition, fluids and skills, the case-insensitive
  lookups over them, and the \<^verbatim>\<open>switch\<close> functions that go the other way.  Each table is a list of
  name and enumerator in the order of the source; a lookup returns the first entry whose name
  \<^verbatim>\<open>strcasecmp\<close> finds equal.
\<close>

type_synonym 'a name_table = "(string \<times> 'a) list"

primrec name_lookup :: "'a name_table \<Rightarrow> string \<Rightarrow> 'a option" where
  "name_lookup [] strValue = None"
| "name_lookup (entry # entries) strValue =
     (if strcasecmp_equal strValue (fst entry) then Some (snd entry)
      else name_lookup entries strValue)"

section \<open>Tables\<close>

definition magicEffectNames :: "magic_effect name_table" where
  "magicEffectNames =
    [ (''redspark'', MAGIC_EFFECT_DRAW_BLOOD),
      (''bluebubble'', MAGIC_EFFECT_LOSE_ENERGY),
      (''poff'', MAGIC_EFFECT_POFF),
      (''yellowspark'', MAGIC_EFFECT_BLOCKHIT),
      (''explosionarea'', MAGIC_EFFECT_EXPLOSION_AREA),
      (''explosion'', MAGIC_EFFECT_EXPLOSION_DAMAGE),
      (''firearea'', MAGIC_EFFECT_FIRE_AREA),
      (''yellowbubble'', MAGIC_EFFECT_YELLOW_RINGS),
      (''greenbubble'', MAGIC_EFFECT_POISON_RINGS),
      (''blackspark'', MAGIC_EFFECT_HIT_AREA),
      (''teleport'', MAGIC_EFFECT_TELEPORT),
      (''energy'', MAGIC_EFFECT_ENERGY_DAMAGE),
      (''blueshimmer'', MAGIC_EFFECT_WRAPS_BLUE),
      (''redshimmer'', MAGIC_EFFECT_WRAPS_RED),
      (''greenshimmer'', MAGIC_EFFECT_WRAPS_GREEN),
      (''fire'', MAGIC_EFFECT_HITBY_FIRE),
      (''greenspark'', MAGIC_EFFECT_POISON),
      (''mortarea'', MAGIC_EFFECT_MORT_AREA),
      (''greennote'', MAGIC_EFFECT_SOUND_GREEN),
      (''rednote'', MAGIC_EFFECT_SOUND_RED),
      (''poison'', MAGIC_EFFECT_POISON_AREA),
      (''yellownote'', MAGIC_EFFECT_SOUND_YELLOW),
      (''purplenote'', MAGIC_EFFECT_SOUND_PURPLE),
      (''bluenote'', MAGIC_EFFECT_SOUND_BLUE),
      (''whitenote'', MAGIC_EFFECT_SOUND_WHITE),
      (''bubbles'', MAGIC_EFFECT_BUBBLES),
      (''dice'', MAGIC_EFFECT_CRAPS),
      (''giftwraps'', MAGIC_EFFECT_GIFT_WRAPS),
      (''yellowfirework'', MAGIC_EFFECT_FIREWORK_YELLOW),
      (''redfirework'', MAGIC_EFFECT_FIREWORK_RED),
      (''bluefirework'', MAGIC_EFFECT_FIREWORK_BLUE),
      (''stun'', MAGIC_EFFECT_STUN),
      (''sleep'', MAGIC_EFFECT_SLEEP),
      (''watercreature'', MAGIC_EFFECT_WATERCREATURE),
      (''groundshaker'', MAGIC_EFFECT_GROUNDSHAKER),
      (''hearts'', MAGIC_EFFECT_HEARTS),
      (''fireattack'', MAGIC_EFFECT_FIREATTACK),
      (''energyarea'', MAGIC_EFFECT_ENERGY_AREA),
      (''smallclouds'', MAGIC_EFFECT_SMALLCLOUDS),
      (''holydamage'', MAGIC_EFFECT_HOLYDAMAGE),
      (''bigclouds'', MAGIC_EFFECT_BIGCLOUDS),
      (''icearea'', MAGIC_EFFECT_ICEAREA),
      (''icetornado'', MAGIC_EFFECT_ICETORNADO),
      (''iceattack'', MAGIC_EFFECT_ICEATTACK),
      (''stones'', MAGIC_EFFECT_STONES),
      (''smallplants'', MAGIC_EFFECT_SMALLPLANTS),
      (''carniphila'', MAGIC_EFFECT_CARNIPHILA),
      (''purpleenergy'', MAGIC_EFFECT_PURPLEENERGY),
      (''yellowenergy'', MAGIC_EFFECT_YELLOWENERGY),
      (''holyarea'', MAGIC_EFFECT_HOLYAREA),
      (''bigplants'', MAGIC_EFFECT_BIGPLANTS),
      (''cake'', MAGIC_EFFECT_CAKE),
      (''giantice'', MAGIC_EFFECT_GIANTICE),
      (''watersplash'', MAGIC_EFFECT_WATERSPLASH),
      (''plantattack'', MAGIC_EFFECT_PLANTATTACK),
      (''tutorialarrow'', MAGIC_EFFECT_TUTORIALARROW),
      (''tutorialsquare'', MAGIC_EFFECT_TUTORIALSQUARE),
      (''mirrorhorizontal'', MAGIC_EFFECT_MIRRORHORIZONTAL),
      (''mirrorvertical'', MAGIC_EFFECT_MIRRORVERTICAL),
      (''skullhorizontal'', MAGIC_EFFECT_SKULLHORIZONTAL),
      (''skullvertical'', MAGIC_EFFECT_SKULLVERTICAL),
      (''assassin'', MAGIC_EFFECT_ASSASSIN),
      (''stepshorizontal'', MAGIC_EFFECT_STEPSHORIZONTAL),
      (''bloodysteps'', MAGIC_EFFECT_BLOODYSTEPS),
      (''stepsvertical'', MAGIC_EFFECT_STEPSVERTICAL),
      (''yalaharighost'', MAGIC_EFFECT_YALAHARIGHOST),
      (''bats'', MAGIC_EFFECT_BATS),
      (''smoke'', MAGIC_EFFECT_SMOKE),
      (''insects'', MAGIC_EFFECT_INSECTS),
      (''dragonhead'', MAGIC_EFFECT_DRAGONHEAD)]"

definition shootTypeNames :: "shoot_effect name_table" where
  "shootTypeNames =
    [ (''spear'', SHOOT_EFFECT_SPEAR),
      (''bolt'', SHOOT_EFFECT_BOLT),
      (''arrow'', SHOOT_EFFECT_ARROW),
      (''fire'', SHOOT_EFFECT_FIRE),
      (''energy'', SHOOT_EFFECT_ENERGY),
      (''poisonarrow'', SHOOT_EFFECT_POISONARROW),
      (''burstarrow'', SHOOT_EFFECT_BURSTARROW),
      (''throwingstar'', SHOOT_EFFECT_THROWINGSTAR),
      (''throwingknife'', SHOOT_EFFECT_THROWINGKNIFE),
      (''smallstone'', SHOOT_EFFECT_SMALLSTONE),
      (''death'', SHOOT_EFFECT_DEATH),
      (''largerock'', SHOOT_EFFECT_LARGEROCK),
      (''snowball'', SHOOT_EFFECT_SNOWBALL),
      (''powerbolt'', SHOOT_EFFECT_POWERBOLT),
      (''poison'', SHOOT_EFFECT_POISONFIELD),
      (''infernalbolt'', SHOOT_EFFECT_INFERNALBOLT),
      (''huntingspear'', SHOOT_EFFECT_HUNTINGSPEAR),
      (''enchantedspear'', SHOOT_EFFECT_ENCHANTEDSPEAR),
      (''redstar'', SHOOT_EFFECT_REDSTAR),
      (''greenstar'', SHOOT_EFFECT_GREENSTAR),
      (''royalspear'', SHOOT_EFFECT_ROYALSPEAR),
      (''sniperarrow'', SHOOT_EFFECT_SNIPERARROW),
      (''onyxarrow'', SHOOT_EFFECT_ONYXARROW),
      (''piercingbolt'', SHOOT_EFFECT_PIERCINGBOLT),
      (''whirlwindsword'', SHOOT_EFFECT_WHIRLWINDSWORD),
      (''whirlwindaxe'', SHOOT_EFFECT_WHIRLWINDAXE),
      (''whirlwindclub'', SHOOT_EFFECT_WHIRLWINDCLUB),
      (''etherealspear'', SHOOT_EFFECT_ETHEREALSPEAR),
      (''ice'', SHOOT_EFFECT_ICE),
      (''earth'', SHOOT_EFFECT_EARTH),
      (''holy'', SHOOT_EFFECT_HOLY),
      (''suddendeath'', SHOOT_EFFECT_SUDDENDEATH),
      (''flasharrow'', SHOOT_EFFECT_FLASHARROW),
      (''flammingarrow'', SHOOT_EFFECT_FLAMMINGARROW),
      (''flamingarrow'', SHOOT_EFFECT_FLAMMINGARROW),
      (''shiverarrow'', SHOOT_EFFECT_SHIVERARROW),
      (''energyball'', SHOOT_EFFECT_ENERGYBALL),
      (''smallice'', SHOOT_EFFECT_SMALLICE),
      (''smallholy'', SHOOT_EFFECT_SMALLHOLY),
      (''smallearth'', SHOOT_EFFECT_SMALLEARTH),
      (''eartharrow'', SHOOT_EFFECT_EARTHARROW),
      (''explosion'', SHOOT_EFFECT_EXPLOSION),
      (''cake'', SHOOT_EFFECT_CAKE)]"

definition combatTypeNames :: "combat_type name_table" where
  "combatTypeNames =
    [ (''physical'', COMBAT_PHYSICALDAMAGE),
      (''energy'', COMBAT_ENERGYDAMAGE),
      (''earth'', COMBAT_EARTHDAMAGE),
      (''fire'', COMBAT_FIREDAMAGE),
      (''undefined'', COMBAT_UNDEFINEDDAMAGE),
      (''lifedrain'', COMBAT_LIFEDRAIN),
      (''life drain'', COMBAT_LIFEDRAIN),
      (''manadrain'', COMBAT_MANADRAIN),
      (''mana drain'', COMBAT_MANADRAIN),
      (''healing'', COMBAT_HEALING),
      (''drown'', COMBAT_DROWNDAMAGE),
      (''ice'', COMBAT_ICEDAMAGE),
      (''holy'', COMBAT_HOLYDAMAGE),
      (''death'', COMBAT_DEATHDAMAGE)]"

definition ammoTypeNames :: "ammo name_table" where
  "ammoTypeNames =
    [ (''spear'', AMMO_SPEAR),
      (''arrow'', AMMO_ARROW),
      (''poisonarrow'', AMMO_ARROW),
      (''burstarrow'', AMMO_ARROW),
      (''bolt'', AMMO_BOLT),
      (''powerbolt'', AMMO_BOLT),
      (''smallstone'', AMMO_STONE),
      (''largerock'', AMMO_STONE),
      (''throwingstar'', AMMO_THROWINGSTAR),
      (''throwingknife'', AMMO_THROWINGKNIFE),
      (''snowball'', AMMO_SNOWBALL),
      (''huntingspear'', AMMO_SPEAR),
      (''royalspear'', AMMO_SPEAR),
      (''enchantedspear'', AMMO_SPEAR),
      (''sniperarrow'', AMMO_ARROW),
      (''onyxarrow'', AMMO_ARROW),
      (''piercingbolt'', AMMO_BOLT),
      (''infernalbolt'', AMMO_BOLT),
      (''flasharrow'', AMMO_ARROW),
      (''flammingarrow'', AMMO_ARROW),
      (''flamingarrow'', AMMO_ARROW),
      (''shiverarrow'', AMMO_ARROW),
      (''eartharrow'', AMMO_ARROW),
      (''etherealspear'', AMMO_SPEAR)]"

definition ammoActionNames :: "ammo_action name_table" where
  "ammoActionNames =
    [ (''move'', AMMOACTION_MOVE),
      (''moveback'', AMMOACTION_MOVEBACK),
      (''move back'', AMMOACTION_MOVEBACK),
      (''removecharge'', AMMOACTION_REMOVECHARGE),
      (''remove charge'', AMMOACTION_REMOVECHARGE),
      (''removecount'', AMMOACTION_REMOVECOUNT),
      (''remove count'', AMMOACTION_REMOVECOUNT)]"

definition fluidTypeNames :: "fluid_type name_table" where
  "fluidTypeNames =
    [ (''none'', FLUID_NONE),
      (''water'', FLUID_WATER),
      (''blood'', FLUID_BLOOD),
      (''beer'', FLUID_BEER),
      (''slime'', FLUID_SLIME),
      (''lemonade'', FLUID_LEMONADE),
      (''milk'', FLUID_MILK),
      (''mana'', FLUID_MANA),
      (''life'', FLUID_LIFE),
      (''oil'', FLUID_OIL),
      (''urine'', FLUID_URINE),
      (''coconutmilk'', FLUID_COCONUTMILK),
      (''coconut milk'', FLUID_COCONUTMILK),
      (''wine'', FLUID_WINE),
      (''mud'', FLUID_MUD),
      (''fruitjuice'', FLUID_FRUITJUICE),
      (''fruit juice'', FLUID_FRUITJUICE),
      (''lava'', FLUID_LAVA),
      (''rum'', FLUID_RUM),
      (''swamp'', FLUID_SWAMP)]"

definition skillIdNames :: "skills name_table" where
  "skillIdNames =
    [ (''fist'', SKILL_FIST),
      (''club'', SKILL_CLUB),
      (''sword'', SKILL_SWORD),
      (''axe'', SKILL_AXE),
      (''distance'', SKILL_DIST),
      (''dist'', SKILL_DIST),
      (''shielding'', SKILL_SHIELD),
      (''shield'', SKILL_SHIELD),
      (''fishing'', SKILL_FISH),
      (''fish'', SKILL_FISH),
      (''level'', SKILL__LEVEL),
      (''magiclevel'', SKILL__MAGLEVEL),
      (''magic level'', SKILL__MAGLEVEL)]"

section \<open>Lookups by name\<close>

definition getMagicEffect :: "string \<Rightarrow> magic_effect" where
  "getMagicEffect strValue = (case name_lookup magicEffectNames strValue of Some r \<Rightarrow> r | None \<Rightarrow> MAGIC_EFFECT_UNKNOWN)"

definition getShootType :: "string \<Rightarrow> shoot_effect" where
  "getShootType strValue = (case name_lookup shootTypeNames strValue of Some r \<Rightarrow> r | None \<Rightarrow> SHOOT_EFFECT_UNKNOWN)"

definition getCombatType :: "string \<Rightarrow> combat_type" where
  "getCombatType strValue = (case name_lookup combatTypeNames strValue of Some r \<Rightarrow> r | None \<Rightarrow> COMBAT_NONE)"

definition getAmmoType :: "string \<Rightarrow> ammo" where
  "getAmmoType strValue = (case name_lookup ammoTypeNames strValue of Some r \<Rightarrow> r | None \<Rightarrow> AMMO_NONE)"

definition getAmmoAction :: "string \<Rightarrow> ammo_action" where
  "getAmmoAction strValue = (case name_lookup ammoActionNames strValue of Some r \<Rightarrow> r | None \<Rightarrow> AMMOACTION_NONE)"

definition getFluidType_tools :: "string \<Rightarrow> fluid_type" where
  "getFluidType_tools strValue = (case name_lookup fluidTypeNames strValue of Some r \<Rightarrow> r | None \<Rightarrow> FLUID_NONE)"

definition getSkillId :: "string \<Rightarrow> skills" where
  "getSkillId strValue = (case name_lookup skillIdNames strValue of Some r \<Rightarrow> r | None \<Rightarrow> SKILL_FIST)"

section \<open>Names of enumerators\<close>

primrec combatTypeIndexFromCombatType :: "combat_type \<Rightarrow> combat_type_index" where
  "combatTypeIndexFromCombatType COMBAT_NONE = COMBATINDEX_NONE"
| "combatTypeIndexFromCombatType COMBAT_PHYSICALDAMAGE = COMBATINDEX_PHYSICALDAMAGE"
| "combatTypeIndexFromCombatType COMBAT_ENERGYDAMAGE = COMBATINDEX_ENERGYDAMAGE"
| "combatTypeIndexFromCombatType COMBAT_EARTHDAMAGE = COMBATINDEX_EARTHDAMAGE"
| "combatTypeIndexFromCombatType COMBAT_FIREDAMAGE = COMBATINDEX_FIREDAMAGE"
| "combatTypeIndexFromCombatType COMBAT_UNDEFINEDDAMAGE = COMBATINDEX_UNDEFINEDDAMAGE"
| "combatTypeIndexFromCombatType COMBAT_LIFEDRAIN = COMBATINDEX_LIFEDRAIN"
| "combatTypeIndexFromCombatType COMBAT_MANADRAIN = COMBATINDEX_MANADRAIN"
| "combatTypeIndexFromCombatType COMBAT_HEALING = COMBATINDEX_HEALING"
| "combatTypeIndexFromCombatType COMBAT_DROWNDAMAGE = COMBATINDEX_DROWNDAMAGE"
| "combatTypeIndexFromCombatType COMBAT_ICEDAMAGE = COMBATINDEX_ICEDAMAGE"
| "combatTypeIndexFromCombatType COMBAT_HOLYDAMAGE = COMBATINDEX_HOLYDAMAGE"
| "combatTypeIndexFromCombatType COMBAT_DEATHDAMAGE = COMBATINDEX_DEATHDAMAGE"

primrec getCombatName :: "combat_type \<Rightarrow> string" where
  "getCombatName COMBAT_NONE = ''unknown''"
| "getCombatName COMBAT_PHYSICALDAMAGE = ''physical''"
| "getCombatName COMBAT_ENERGYDAMAGE = ''energy''"
| "getCombatName COMBAT_EARTHDAMAGE = ''earth''"
| "getCombatName COMBAT_FIREDAMAGE = ''fire''"
| "getCombatName COMBAT_UNDEFINEDDAMAGE = ''undefined''"
| "getCombatName COMBAT_LIFEDRAIN = ''life drain''"
| "getCombatName COMBAT_MANADRAIN = ''mana drain''"
| "getCombatName COMBAT_HEALING = ''healing''"
| "getCombatName COMBAT_DROWNDAMAGE = ''drown''"
| "getCombatName COMBAT_ICEDAMAGE = ''ice''"
| "getCombatName COMBAT_HOLYDAMAGE = ''holy''"
| "getCombatName COMBAT_DEATHDAMAGE = ''death''"

primrec action_text :: "violation_action \<Rightarrow> string" where
  "action_text ACTION_NOTATION = ''Notation''"
| "action_text ACTION_NAMEREPORT = ''Name Report''"
| "action_text ACTION_BANISHMENT = ''Banishment''"
| "action_text ACTION_BANREPORT = ''Name Report + Banishment''"
| "action_text ACTION_BANFINAL = ''Banishment + Final Warning''"
| "action_text ACTION_BANREPORTFINAL = ''Name Report + Banishment + Final Warning''"
| "action_text ACTION_STATEMENT = ''Statement Report''"
| "action_text ACTION_DELETION = ''Deletion''"
| "action_text ACTION_NAMELOCK = ''Name Lock''"
| "action_text ACTION_BANLOCK = ''Name Lock + Banishment''"
| "action_text ACTION_BANLOCKFINAL = ''Name Lock + Banishment + Final Warning''"
| "action_text ACTION_PLACEHOLDER = ''Unknown''"

definition getReason :: "int \<Rightarrow> string" where
  "getReason reasonId =
    (if reasonId = 0 then ''Offensive Name''
     else if reasonId = 1 then ''Invalid Name Format''
     else if reasonId = 2 then ''Unsuitable Name''
     else if reasonId = 3 then ''Name Inciting Rule Violation''
     else if reasonId = 4 then ''Offensive Statement''
     else if reasonId = 5 then ''Spamming''
     else if reasonId = 6 then ''Illegal Advertising''
     else if reasonId = 7 then ''Off-Topic Public Statement''
     else if reasonId = 8 then ''Non-English Public Statement''
     else if reasonId = 9 then ''Inciting Rule Violation''
     else if reasonId = 10 then ''Bug Abuse''
     else if reasonId = 11 then ''Game Weakness Abuse''
     else if reasonId = 12 then ''Using Unofficial Software to Play''
     else if reasonId = 13 then ''Hacking''
     else if reasonId = 14 then ''Multi-Clienting''
     else if reasonId = 15 then ''Account Trading or Sharing''
     else if reasonId = 16 then ''Threatening Gamemaster''
     else if reasonId = 17 then ''Pretending to Have Influence on Rule Enforcement''
     else if reasonId = 18 then ''False Report to Gamemaster''
     else if reasonId = 19 then ''Destructive Behaviour''
     else if reasonId = 20 then ''Excessive Unjustified Player Killing''
     else ''Unknown Reason'')"

definition getSkull :: "string \<Rightarrow> skull" where
  "getSkull strValue =
    (let tmpStrValue = asLowerCaseString strValue in
     if tmpStrValue = ''black'' \<or> tmpStrValue = ''5'' then SKULL_BLACK
     else if tmpStrValue = ''red'' \<or> tmpStrValue = ''4'' then SKULL_RED
     else if tmpStrValue = ''white'' \<or> tmpStrValue = ''3'' then SKULL_WHITE
     else if tmpStrValue = ''green'' \<or> tmpStrValue = ''2'' then SKULL_GREEN
     else if tmpStrValue = ''yellow'' \<or> tmpStrValue = ''1'' then SKULL_YELLOW
     else SKULL_NONE)"

definition getPartyShield :: "string \<Rightarrow> party_shield" where
  "getPartyShield strValue =
    (let tmpStrValue = asLowerCaseString strValue in
     if tmpStrValue = ''whitenoshareoff'' \<or> tmpStrValue = ''10'' then SHIELD_YELLOW_NOSHAREDEXP
     else if tmpStrValue = ''blueshareoff'' \<or> tmpStrValue = ''9'' then SHIELD_BLUE_NOSHAREDEXP
     else if tmpStrValue = ''yellowshareblink'' \<or> tmpStrValue = ''8'' then SHIELD_YELLOW_NOSHAREDEXP_BLINK
     else if tmpStrValue = ''blueshareblink'' \<or> tmpStrValue = ''7'' then SHIELD_BLUE_NOSHAREDEXP_BLINK
     else if tmpStrValue = ''yellowshareon'' \<or> tmpStrValue = ''6'' then SHIELD_YELLOW_SHAREDEXP
     else if tmpStrValue = ''blueshareon'' \<or> tmpStrValue = ''5'' then SHIELD_BLUE_SHAREDEXP
     else if tmpStrValue = ''yellow'' \<or> tmpStrValue = ''4'' then SHIELD_YELLOW
     else if tmpStrValue = ''blue'' \<or> tmpStrValue = ''3'' then SHIELD_BLUE
     else if tmpStrValue = ''whiteyellow'' \<or> tmpStrValue = ''2'' then SHIELD_WHITEYELLOW
     else if tmpStrValue = ''whiteblue'' \<or> tmpStrValue = ''1'' then SHIELD_WHITEBLUE
     else SHIELD_NONE)"


definition getAction :: "violation_action \<Rightarrow> bool \<Rightarrow> string" where
  "getAction actionId ipBanishment =
     action_text actionId @ (if ipBanishment then '' + IP Banishment'' else [])"

definition getSkillName :: "u16 \<Rightarrow> bool \<Rightarrow> string" where
  "getSkillName skillId suffix =
     (let fighting = (if suffix then '' fighting'' else []) in
      if uint skillId = skills_value SKILL_FIST then ''fist'' @ fighting
      else if uint skillId = skills_value SKILL_CLUB then ''club'' @ fighting
      else if uint skillId = skills_value SKILL_SWORD then ''sword'' @ fighting
      else if uint skillId = skills_value SKILL_AXE then ''axe'' @ fighting
      else if uint skillId = skills_value SKILL_DIST then ''distance'' @ fighting
      else if uint skillId = skills_value SKILL_SHIELD then ''shielding''
      else if uint skillId = skills_value SKILL_FISH then ''fishing''
      else if uint skillId = skills_value SKILL__MAGLEVEL then ''magic level''
      else if uint skillId = skills_value SKILL__LEVEL then ''level''
      else ''unknown'')"

section \<open>Lookups are first-match, and blind to case\<close>

lemma name_lookup_None:
  "name_lookup tab s = None \<longleftrightarrow> list_all (\<lambda>e. \<not> strcasecmp_equal s (fst e)) tab"
  by (induction tab) auto

lemma name_lookup_cong:
  "strcasecmp_equal s t \<Longrightarrow> name_lookup tab s = name_lookup tab t"
  by (induction tab) (auto simp: strcasecmp_equal_def)

lemma name_lookup_set: "name_lookup tab s = Some e \<Longrightarrow> e \<in> snd ` set tab"
  by (induction tab) (auto split: if_splits)

definition name_keys :: "'a name_table \<Rightarrow> string list" where
  "name_keys tab = map (\<lambda>entry. asLowerCaseString (c_str (fst entry))) tab"

lemma name_lookup_entry:
  "distinct (name_keys tab) \<Longrightarrow> (n, e) \<in> set tab \<Longrightarrow> strcasecmp_equal s n \<Longrightarrow>
   name_lookup tab s = Some e"
proof (induction tab)
  case (Cons p tab)
  show ?case
  proof (cases "(n, e) = p")
    case False
    then have "(n, e) \<in> set tab" using Cons.prems by simp
    moreover have "asLowerCaseString (c_str n) \<noteq> asLowerCaseString (c_str (fst p))"
    proof
      assume "asLowerCaseString (c_str n) = asLowerCaseString (c_str (fst p))"
      then have "asLowerCaseString (c_str (fst p)) \<in> set (name_keys tab)"
        using imageI [OF \<open>(n, e) \<in> set tab\<close>, of "\<lambda>entry. asLowerCaseString (c_str (fst entry))"]
        by (simp add: name_keys_def)
      then show False using Cons.prems(1) by (simp add: name_keys_def)
    qed
    then have "\<not> strcasecmp_equal n (fst p)"
      by (simp add: strcasecmp_equal_def asLowerCaseString_def)
    ultimately show ?thesis using Cons by (auto simp: strcasecmp_equal_def name_keys_def)
  qed (use Cons.prems in auto)
qed simp

lemma magicEffectNames_lower: "name_keys magicEffectNames = map fst magicEffectNames"
  by code_simp

lemma shootTypeNames_lower: "name_keys shootTypeNames = map fst shootTypeNames"
  by code_simp

lemma magicEffectNames_distinct: "distinct (name_keys magicEffectNames)"
  unfolding magicEffectNames_lower by (simp add: magicEffectNames_def)

lemma shootTypeNames_distinct: "distinct (name_keys shootTypeNames)"
  unfolding shootTypeNames_lower by (simp add: shootTypeNames_def)

lemma magic_effect_named:
  "(e \<in> set (map snd magicEffectNames)) = (e \<noteq> MAGIC_EFFECT_NONE \<and> e \<noteq> MAGIC_EFFECT_UNKNOWN)"
  by (induct e) code_simp+

lemma shoot_effect_named:
  "(e \<in> set (map snd shootTypeNames)) = (shoot_effect_value e < 254)"
  by (induct e) code_simp+

lemma magic_lookup_unknown:
  "(getMagicEffect s = MAGIC_EFFECT_UNKNOWN)
     = list_all (\<lambda>entry. \<not> strcasecmp_equal s (fst entry)) magicEffectNames"
proof -
  have "name_lookup magicEffectNames s \<noteq> Some MAGIC_EFFECT_UNKNOWN"
    using name_lookup_set [of magicEffectNames s] magic_effect_named [of MAGIC_EFFECT_UNKNOWN] by auto
  then show ?thesis
    by (auto simp: getMagicEffect_def name_lookup_None [symmetric] split: option.split)
qed

text \<open>
  Fact: a script reaches every magic effect and every projectile the client can draw by name: an
  effect is in its table exactly when it is not an internal one, any spelling of a table name,
  whatever the case of its letters, is looked up as the effect the table gives it, and a name
  outside the table is the unknown effect.
\<close>

theorem effect_names_complete:
  "list_all (\<lambda>(n, e). \<forall>s. strcasecmp_equal s n = False \<or> getMagicEffect s = e) magicEffectNames
   \<and> list_all (\<lambda>(n, e). \<forall>s. strcasecmp_equal s n = False \<or> getShootType s = e) shootTypeNames
   \<and> (m \<in> set (map snd magicEffectNames)) = (magic_effect_value m < magic_effect_value MAGIC_EFFECT_NONE)
   \<and> (t \<in> set (map snd shootTypeNames)) = (shoot_effect_value t < shoot_effect_value SHOOT_EFFECT_WEAPONTYPE)
   \<and> (getMagicEffect s = MAGIC_EFFECT_UNKNOWN)
       = list_all (\<lambda>entry. strcasecmp_equal s (fst entry) = False) magicEffectNames"
proof (intro conjI)
  show "list_all (\<lambda>(n, e). \<forall>s. strcasecmp_equal s n = False \<or> getMagicEffect s = e) magicEffectNames"
    using name_lookup_entry [OF magicEffectNames_distinct]
    by (fastforce simp: list_all_iff getMagicEffect_def)
  show "list_all (\<lambda>(n, e). \<forall>s. strcasecmp_equal s n = False \<or> getShootType s = e) shootTypeNames"
    using name_lookup_entry [OF shootTypeNames_distinct]
    by (fastforce simp: list_all_iff getShootType_def)
  show "(m \<in> set (map snd magicEffectNames)) = (magic_effect_value m < magic_effect_value MAGIC_EFFECT_NONE)"
    unfolding magic_effect_named by (cases m) simp_all
  show "(t \<in> set (map snd shootTypeNames)) = (shoot_effect_value t < shoot_effect_value SHOOT_EFFECT_WEAPONTYPE)"
    unfolding shoot_effect_named by simp
  show "(getMagicEffect s = MAGIC_EFFECT_UNKNOWN)
       = list_all (\<lambda>entry. strcasecmp_equal s (fst entry) = False) magicEffectNames"
    using magic_lookup_unknown by simp
qed

text \<open>
  Fact: the names the server prints are names its scripts understand: looking up the name of a
  damage type or of a skill (without its suffix) gives the same enumerator back, and the
  numeric code of a skull is read as that enumerator.  The codes of the party shields are read
  the same way, except that 1 and 2 are swapped: \<^verbatim>\<open>getPartyShield\<close> reads the code of
  \<^verbatim>\<open>SHIELD_WHITEYELLOW\<close> as \<^verbatim>\<open>SHIELD_WHITEBLUE\<close> and the reverse.
\<close>

theorem names_round_trip:
  "getCombatType (getCombatName c) = c
   \<and> getSkillId (getSkillName (word_of_int (skills_value s)) False) = s
   \<and> getSkull (show_int (skull_value k)) = k
   \<and> getPartyShield (show_int (party_shield_value p))
       = (if p = SHIELD_WHITEYELLOW then SHIELD_WHITEBLUE
          else if p = SHIELD_WHITEBLUE then SHIELD_WHITEYELLOW else p)"
proof (intro conjI)
  show "getCombatType (getCombatName c) = c" by (induct c) code_simp+
  show "getSkillId (getSkillName (word_of_int (skills_value s)) False) = s" by (induct s) code_simp+
  show "getSkull (show_int (skull_value k)) = k" by (induct k) code_simp+
  show "getPartyShield (show_int (party_shield_value p))
       = (if p = SHIELD_WHITEYELLOW then SHIELD_WHITEBLUE
          else if p = SHIELD_WHITEBLUE then SHIELD_WHITEYELLOW else p)" by (induct p) code_simp+
qed

text \<open>
  Fact: the index the server computes for a damage type is the number of its bit: a type is the
  power of two of its index less one, so that the index tables have a slot for every type and
  no two types share one.
\<close>

theorem combat_index_is_bit_number:
  "combat_type_value c
     = (if c = COMBAT_NONE then 0
        else 2 ^ nat (combat_type_index_value (combatTypeIndexFromCombatType c) - 1))
   \<and> combat_type_index_value (combatTypeIndexFromCombatType c) \<in> {0..<combat_type_index_value COMBATINDEX_COUNT}
   \<and> (combatTypeIndexFromCombatType c = combatTypeIndexFromCombatType d) = (c = d)"
proof (intro conjI)
  show "combat_type_value c
     = (if c = COMBAT_NONE then 0
        else 2 ^ nat (combat_type_index_value (combatTypeIndexFromCombatType c) - 1))"
    by (cases c) simp_all
  show "combat_type_index_value (combatTypeIndexFromCombatType c)
      \<in> {0..<combat_type_index_value COMBATINDEX_COUNT}"
    by (cases c) simp_all
  show "(combatTypeIndexFromCombatType c = combatTypeIndexFromCombatType d) = (c = d)"
    by (cases c; cases d) simp_all
qed

end
