(* ===== verification/Checksum.thy ===== *)
theory Checksum
  imports Prelude
begin

text \<open>
  \<^verbatim>\<open>adlerChecksum\<close> of \<^verbatim>\<open>src/sources/tools.cpp\<close>, the checksum of every network message, with its
  32-bit accumulators and its blocks of 5552 bytes, and the textbook Adler-32 sums it is
  compared with.
\<close>

definition NETWORKMESSAGE_MAXSIZE :: nat where
  "NETWORKMESSAGE_MAXSIZE = 15360"

text \<open>The inner \<^verbatim>\<open>do\<close> loop over one block.\<close>

fun adler_block :: "bytes \<Rightarrow> u32 \<Rightarrow> u32 \<Rightarrow> u32 \<times> u32" where
  "adler_block [] a b = (a, b)"
| "adler_block (d # ds) a b = (let a = a + ucast d; b = b + a in adler_block ds a b)"

function adler_loop :: "bytes \<Rightarrow> u32 \<Rightarrow> u32 \<Rightarrow> u32 \<times> u32" where
  "adler_loop data a b =
     (if length data > 0 then
        let tmp = (if length data > 5552 then 5552 else length data);
            (a, b) = adler_block (take tmp data) a b
        in adler_loop (drop tmp data) (a mod 65521) (b mod 65521)
      else (a, b))"
  by pat_completeness auto
termination by (relation "measure (\<lambda>(data, a, b). length data)") auto

declare adler_loop.simps [simp del]

definition adlerChecksum :: "bytes \<Rightarrow> u32" where
  "adlerChecksum data =
     (if length data > NETWORKMESSAGE_MAXSIZE then 0
      else let (a, b) = adler_loop data 1 0 in push_bit 16 b OR a)"

section \<open>Adler-32 in unbounded arithmetic\<close>

definition adler_a :: "bytes \<Rightarrow> nat" where
  "adler_a data = 1 + sum_list (map unat data)"

text \<open>The second sum adds the first after every byte.\<close>

fun adler_sums :: "bytes \<Rightarrow> nat \<Rightarrow> nat \<Rightarrow> nat \<times> nat" where
  "adler_sums [] a b = (a, b)"
| "adler_sums (d # ds) a b = adler_sums ds (a + unat d) (b + (a + unat d))"

definition adler32 :: "bytes \<Rightarrow> nat" where
  "adler32 data = (let (a, b) = adler_sums data 1 0 in (b mod 65521) * 65536 + a mod 65521)"

lemma adler_sums_bound:
  "adler_sums ds a b = (a', b') \<Longrightarrow>
   a' \<le> a + 255 * length ds \<and> 2 * b' \<le> 2 * b + 2 * length ds * a + 255 * length ds * (length ds + 1)"
proof (induction ds arbitrary: a b)
  case (Cons d ds)
  let ?n = "length ds"
  have "unat d < 256" using unsigned_less [of d, where 'a = nat] by simp
  then have d: "unat d \<le> 255" by simp
  have IH: "a' \<le> (a + unat d) + 255 * ?n"
      "2 * b' \<le> 2 * (b + (a + unat d)) + 2 * ?n * (a + unat d) + 255 * ?n * (?n + 1)"
    using Cons.IH [of "a + unat d" "b + (a + unat d)"] Cons.prems by simp_all
  have "2 * (b + (a + unat d)) + 2 * ?n * (a + unat d) + 255 * ?n * (?n + 1)
      \<le> 2 * (b + (a + 255)) + 2 * ?n * (a + 255) + 255 * ?n * (?n + 1)"
    using d by (intro add_mono mult_left_mono) simp_all
  then have "2 * b' \<le> 2 * (b + (a + 255)) + 2 * ?n * (a + 255) + 255 * ?n * (?n + 1)"
    using IH(2) by (rule order_trans [rotated])
  then show ?case using IH(1) d by (simp add: algebra_simps)
qed simp

lemma adler_sums_mono: "adler_sums ds a b = (a', b') \<Longrightarrow> a \<le> a' \<and> b \<le> b'"
proof (induction ds arbitrary: a b)
  case (Cons d ds)
  then have "adler_sums ds (a + unat d) (b + (a + unat d)) = (a', b')" by simp
  then have "a + unat d \<le> a' \<and> b + (a + unat d) \<le> b'" by (rule Cons.IH)
  then show ?case by linarith
qed simp

text \<open>A block does not wrap as long as the unbounded sums stay below 2^32.\<close>

lemma adler_block_exact:
  "adler_sums ds (unat a) (unat b) = (a', b') \<Longrightarrow> a' < 2 ^ 32 \<Longrightarrow> b' < 2 ^ 32 \<Longrightarrow>
   (case adler_block ds a b of (x, y) \<Rightarrow> unat x = a' \<and> unat y = b')"
proof (induction ds arbitrary: a b)
  case (Cons d ds)
  let ?a = "a + ucast d" and ?b = "b + (a + ucast d)"
  have m: "unat a + unat d \<le> a'" "unat b + (unat a + unat d) \<le> b'"
    using adler_sums_mono [of ds "unat a + unat d" "unat b + (unat a + unat d)" a' b'] Cons.prems(1)
    by simp_all
  have a: "unat ?a = unat a + unat d"
    using m(1) Cons.prems(2) by (simp add: unat_word_ariths(1) unat_ucast_8_32)
  moreover have "unat ?b = unat b + unat ?a"
    using m(2) Cons.prems(3) a by (simp only: unat_word_ariths(1) [of b]) simp
  ultimately have "adler_sums ds (unat ?a) (unat ?b) = (a', b')" using Cons.prems(1) by simp
  then show ?case using Cons.IH [of ?a ?b] Cons.prems(2,3) by (simp add: Let_def)
qed simp

text \<open>Reducing modulo 65521 between blocks does not change the residues.\<close>

lemma adler_sums_append:
  "adler_sums (xs @ ys) a b = (case adler_sums xs a b of (a, b) \<Rightarrow> adler_sums ys a b)"
  by (induction xs arbitrary: a b) simp_all

lemma adler_sums_mod:
  "a mod m = a2 mod m \<Longrightarrow> b mod m = b2 mod m \<Longrightarrow>
   (case adler_sums ds a b of (x, y) \<Rightarrow> (x mod m, y mod m))
     = (case adler_sums ds a2 b2 of (x, y) \<Rightarrow> (x mod m, y mod m))"
proof (induction ds arbitrary: a b a2 b2)
  case (Cons d ds)
  have "(a + unat d) mod m = (a2 + unat d) mod m" using Cons.prems(1) refl by (rule mod_add_cong)
  moreover from this have "(b + (a + unat d)) mod m = (b2 + (a2 + unat d)) mod m"
    by (rule mod_add_cong [OF Cons.prems(2)])
  ultimately show ?case unfolding adler_sums.simps by (rule Cons.IH)
qed simp

lemma block_sums_small:
  assumes "adler_sums ds a b = (a', b')" "a < 65521" "b < 65521" "length ds \<le> 5552"
  shows "a' < 2 ^ 32 \<and> b' < 2 ^ 32"
proof -
  have "a' \<le> a + 255 * length ds"
    "2 * b' \<le> 2 * b + 2 * length ds * a + 255 * length ds * (length ds + 1)"
    using adler_sums_bound [OF assms(1)] by simp_all
  moreover have "2 * length ds * a \<le> 2 * 5552 * 65520" "255 * length ds * (length ds + 1) \<le> 255 * 5552 * 5553"
    using assms(2,4) by (intro mult_mono; simp)+
  moreover have "(2 :: nat) ^ 32 = 4294967296" by simp
  ultimately show ?thesis using assms(2-4) by linarith
qed

lemma adler_loop_exact:
  "unat a < 65521 \<Longrightarrow> unat b < 65521 \<Longrightarrow>
   (case adler_loop data a b of (x, y) \<Rightarrow> (unat x, unat y))
     = (case adler_sums data (unat a) (unat b) of (x, y) \<Rightarrow> (x mod 65521, y mod 65521))"
proof (induction data a b rule: adler_loop.induct)
  case (1 data a b)
  show ?case
  proof (cases "data = []")
    case True
    then show ?thesis using "1.prems" by (simp add: adler_loop.simps)
  next
    case False
    let ?k = "if length data > 5552 then 5552 else length data"
    obtain a1 b1 where s: "adler_sums (take ?k data) (unat a) (unat b) = (a1, b1)" by fastforce
    obtain x y where xy: "adler_block (take ?k data) a b = (x, y)" by fastforce
    have small: "a1 < 2 ^ 32 \<and> b1 < 2 ^ 32" by (rule block_sums_small [OF s "1.prems"]) simp
    then have e: "unat x = a1" "unat y = b1" using adler_block_exact [OF s] xy by auto
    have r: "unat (x mod 65521) = a1 mod 65521" "unat (y mod 65521) = b1 mod 65521"
      using e by (simp_all add: unat_mod_distrib)
    have "(case adler_loop (drop ?k data) (x mod 65521) (y mod 65521) of (x, y) \<Rightarrow> (unat x, unat y))
      = (case adler_sums (drop ?k data) (a1 mod 65521) (b1 mod 65521) of (x, y) \<Rightarrow> (x mod 65521, y mod 65521))"
      using "1.IH" [OF _ refl xy [symmetric] refl] False r by simp
    also have "\<dots> = (case adler_sums (drop ?k data) a1 b1 of (x, y) \<Rightarrow> (x mod 65521, y mod 65521))"
      by (rule adler_sums_mod) simp_all
    also have "\<dots> = (case adler_sums (take ?k data @ drop ?k data) (unat a) (unat b) of (x, y) \<Rightarrow> (x mod 65521, y mod 65521))"
      by (simp only: adler_sums_append s prod.case)
    finally show ?thesis using False xy by (subst adler_loop.simps) (simp add: Let_def)
  qed
qed

text \<open>
  C40: the checksum of every message the server can hold is the Adler-32 checksum: no 32-bit
  accumulator wraps within a block, and reducing only between blocks does not change the result.
  Longer data have checksum 0.
\<close>

theorem adlerChecksum_is_adler32:
  "unat (adlerChecksum data) = (if length data \<le> 15360 then adler32 data else 0)"
proof (cases "length data \<le> 15360")
  case True
  obtain x y where xy: "adler_loop data 1 0 = (x, y)" by fastforce
  obtain a b where ab: "adler_sums data 1 0 = (a, b)" by fastforce
  have e: "unat x = a mod 65521" "unat y = b mod 65521"
    using adler_loop_exact [of 1 0 data] xy ab by auto
  have "push_bit 16 y AND x = 0"
  proof (rule bit_word_eqI)
    fix n
    have "\<not> bit x n" if "16 \<le> n"
    proof -
      have "unat x < 2 ^ 16" using e by simp
      also have "(2 :: nat) ^ 16 \<le> 2 ^ n" using that by (rule power_increasing) simp
      finally have "\<not> bit (unat x) n" by (simp add: bit_iff_odd)
      then show ?thesis by (simp add: bit_unsigned_iff)
    qed
    then show "bit (push_bit 16 y AND x) n = bit (0 :: u32) n" by (auto simp: bit_simps)
  qed
  then have "push_bit 16 y OR x = push_bit 16 y + x" by (rule disjunctive_add_eq_or [symmetric])
  moreover have "unat (push_bit 16 y) = unat y * 65536"
    using e by (simp add: push_bit_eq_mult unat_word_ariths)
  ultimately have "unat (push_bit 16 y OR x) = unat y * 65536 + unat x"
    using e by (simp add: unat_word_ariths)
  then show ?thesis
    using True xy ab e by (simp add: adlerChecksum_def NETWORKMESSAGE_MAXSIZE_def adler32_def)
next
  case False
  then show ?thesis by (simp add: adlerChecksum_def NETWORKMESSAGE_MAXSIZE_def)
qed

end
