(* ===== verification/Codecs.thy ===== *)
theory Codecs
  imports Prelude
begin

text \<open>
  The interface between the encoders of the server (\<^verbatim>\<open>PropWriteStream\<close>, \<^verbatim>\<open>NetworkMessage\<close>) and the
  readers that take their output apart again.  A codec is an encoder of values to bytes
  together with a reader on a stream; \<open>view\<close> is what the stream still holds.  The law says that
  the reader takes exactly the encoding off the front of the stream.  The clients are the sequences of fields that a
  serialiser writes and a deserialiser reads back.
\<close>

lemma unat_mod_width [simp]:
  "unat (a :: u8) mod 256 = unat a"
  "unat (b :: u16) mod 65536 = unat b"
  "unat (c :: u32) mod 4294967296 = unat c"
  "unat (d :: u64) mod 18446744073709551616 = unat d"
proof -
  have "unat a < 256" "unat b < 65536" "unat c < 4294967296" "unat d < 18446744073709551616"
    using unsigned_less [of a] unsigned_less [of b] unsigned_less [of c] unsigned_less [of d]
    by simp_all
  then show "unat a mod 256 = unat a" "unat b mod 65536 = unat b"
    "unat c mod 4294967296 = unat c" "unat d mod 18446744073709551616 = unat d"
    by simp_all
qed

locale byte_codec =
  fixes enc :: "'a \<Rightarrow> bytes"
    and get :: "'s \<Rightarrow> ('a option \<times> 's) run"
    and view :: "'s \<Rightarrow> bytes"
    and wf :: "'s \<Rightarrow> bool"
    and ok :: "'a \<Rightarrow> bool"
  assumes get_enc: "wf s \<Longrightarrow> ok a \<Longrightarrow> view s = enc a @ rest \<Longrightarrow>
      \<exists>s'. get s = Inr (Some a, s') \<and> view s' = rest \<and> wf s'"
begin

text \<open>The encoding is prefix-free: two values whose encodings agree on a stream are the same.\<close>

lemma enc_prefix_free:
  assumes "wf s" "ok a" "ok b" "view s = enc a @ r" "view s = enc b @ r'"
  shows "a = b"
  using get_enc [OF assms(1,2,4)] get_enc [OF assms(1,3,5)] by auto

lemma get_exact:
  assumes "wf s" "ok a" "view s = enc a"
  obtains s' where "get s = Inr (Some a, s')" "view s' = []" "wf s'"
  using get_enc [OF assms(1,2), of "[]"] assms(3) by auto

end

text \<open>
  A checked codec also refuses a stream that ends inside an encoding; the property streams check
  their bounds, the readers of a network message do not.
\<close>

locale checked_codec = byte_codec +
  assumes get_short: "wf s \<Longrightarrow> ok a \<Longrightarrow> enc a = view s @ more \<Longrightarrow> more \<noteq> [] \<Longrightarrow>
      \<exists>s'. get s = Inr (None, s')"

section \<open>Sequences of one codec\<close>

fun get_many :: "('s \<Rightarrow> ('a option \<times> 's) run) \<Rightarrow> nat \<Rightarrow> 's \<Rightarrow> ('a list option \<times> 's) run" where
  "get_many get 0 s = Inr (Some [], s)"
| "get_many get (Suc n) s =
     bind_run (get s) (\<lambda>(r, s). case r of None \<Rightarrow> Inr (None, s)
       | Some a \<Rightarrow> bind_run (get_many get n s) (\<lambda>(r, s). Inr (map_option ((#) a) r, s)))"

context byte_codec
begin

lemma get_many_enc:
  "wf s \<Longrightarrow> list_all ok as \<Longrightarrow> view s = concat (map enc as) @ rest \<Longrightarrow>
   \<exists>s'. get_many get (length as) s = Inr (Some as, s') \<and> view s' = rest \<and> wf s'"
proof (induction as arbitrary: s)
  case (Cons a as)
  then obtain s1 where s1: "get s = Inr (Some a, s1)" "view s1 = concat (map enc as) @ rest" "wf s1"
    using get_enc [of s a "concat (map enc as) @ rest"] by auto
  with Cons obtain s2 where "get_many get (length as) s1 = Inr (Some as, s2)" "view s2 = rest" "wf s2"
    by auto
  then show ?case using s1 by simp
qed simp

lemma concat_enc_inj:
  assumes "wf s" "list_all ok as" "list_all ok bs" "length as = length bs"
    and "view s = concat (map enc as)" "concat (map enc as) = concat (map enc bs)"
  shows "as = bs"
proof -
  have va: "view s = concat (map enc as) @ []" unfolding append_Nil2 by (rule assms(5))
  have vb: "view s = concat (map enc bs) @ []" unfolding append_Nil2 using assms(5,6) by (rule trans)
  obtain s1 where "get_many get (length as) s = Inr (Some as, s1)"
    using get_many_enc [OF assms(1,2) va] by (elim exE conjE) (rule that)
  then have s1: "get_many get (length bs) s = Inr (Some as, s1)" by (simp only: assms(4))
  obtain s2 where "get_many get (length bs) s = Inr (Some bs, s2)"
    using get_many_enc [OF assms(1,3) vb] by (elim exE conjE) (rule that)
  with s1 have "Inr (Some as, s1) = (Inr (Some bs, s2) :: ('a list option \<times> 's) run)" by (rule subst)
  then show ?thesis by (simp only: sum.inject prod.inject option.inject)
qed

end

end
