(* ===== verification/Prop_Stream.thy ===== *)
theory Prop_Stream
  imports Codecs
begin

text \<open>
  \<^verbatim>\<open>PropStream\<close> and \<^verbatim>\<open>PropWriteStream\<close> of \<^verbatim>\<open>src/sources/fileloader.h\<close>, the property streams in which
  items, players and map nodes are stored.  A reader is its buffer with the index \<^verbatim>\<open>p\<close> points to;
  \<^verbatim>\<open>end\<close> is the end of the buffer.  Every read gives the success value with what was read and
  the reader afterwards, because a string whose length was read but whose body is missing
  leaves the reader behind the length.  A writer is the bytes written so far with the
  allocated and the used size as the 32-bit counters of the class; a write behind the
  allocated block is undefined behaviour.
\<close>

section \<open>Reading\<close>

record prop_stream =
  ps_buffer :: bytes
  ps_p :: nat

definition ps_init :: "bytes \<Rightarrow> prop_stream" where
  "ps_init a = \<lparr>ps_buffer = a, ps_p = 0\<rparr>"

definition ps_size :: "prop_stream \<Rightarrow> int" where
  "ps_size s = signed_take_bit 31 (int (length (ps_buffer s)) - int (ps_p s))"

text \<open>Taking \<open>n\<close> bytes at \<^verbatim>\<open>p\<close>: the \<^verbatim>\<open>memcpy\<close> (or the cast) every read performs after its check.\<close>

definition ps_take :: "nat \<Rightarrow> prop_stream \<Rightarrow> (bytes option \<times> prop_stream) run" where
  "ps_take n s =
     (if ps_p s + n \<le> length (ps_buffer s)
      then Inr (Some (take n (drop (ps_p s) (ps_buffer s))), s\<lparr>ps_p := ps_p s + n\<rparr>)
      else Inl Undefined_behaviour)"

definition GET_STRUCT :: "nat \<Rightarrow> prop_stream \<Rightarrow> (bytes option \<times> prop_stream) run" where
  "GET_STRUCT n s = (if ps_size s < int n then Inr (None, s) else ps_take n s)"

definition GET_VALUE :: "nat \<Rightarrow> prop_stream \<Rightarrow> (nat option \<times> prop_stream) run" where
  "GET_VALUE n s =
     (if ps_size s < int n then Inr (None, s)
      else bind_run (ps_take n s) (\<lambda>(r, s). Inr (map_option le_decode r, s)))"

definition GET_TIME :: "prop_stream \<Rightarrow> (u64 option \<times> prop_stream) run" where
  "GET_TIME s = bind_run (GET_VALUE 8 s) (\<lambda>(r, s). Inr (map_option word_of_nat r, s))"

definition GET_ULONG :: "prop_stream \<Rightarrow> (u32 option \<times> prop_stream) run" where
  "GET_ULONG s = bind_run (GET_VALUE 4 s) (\<lambda>(r, s). Inr (map_option word_of_nat r, s))"

definition GET_USHORT :: "prop_stream \<Rightarrow> (u16 option \<times> prop_stream) run" where
  "GET_USHORT s = bind_run (GET_VALUE 2 s) (\<lambda>(r, s). Inr (map_option word_of_nat r, s))"

definition GET_UCHAR :: "prop_stream \<Rightarrow> (u8 option \<times> prop_stream) run" where
  "GET_UCHAR s = bind_run (GET_VALUE 1 s) (\<lambda>(r, s). Inr (map_option word_of_nat r, s))"

definition GET_NSTRING :: "u16 \<Rightarrow> prop_stream \<Rightarrow> (bytes option \<times> prop_stream) run" where
  "GET_NSTRING strLen s = (if ps_size s < uint strLen then Inr (None, s) else ps_take (unat strLen) s)"

definition GET_STRING :: "prop_stream \<Rightarrow> (bytes option \<times> prop_stream) run" where
  "GET_STRING s =
     bind_run (GET_USHORT s) (\<lambda>(r, s). case r of None \<Rightarrow> Inr (None, s)
       | Some strLen \<Rightarrow> if ps_size s < uint strLen then Inr (None, s) else ps_take (unat strLen) s)"

text \<open>\<^verbatim>\<open>GET_LSTRING\<close> compares its 32-bit length as an \<^verbatim>\<open>int32_t\<close>, so a length from \<^verbatim>\<open>2^31\<close> on is negative.\<close>

definition GET_LSTRING :: "prop_stream \<Rightarrow> (bytes option \<times> prop_stream) run" where
  "GET_LSTRING s =
     bind_run (GET_ULONG s) (\<lambda>(r, s). case r of None \<Rightarrow> Inr (None, s)
       | Some strLen \<Rightarrow> if ps_size s < sint strLen then Inr (None, s) else ps_take (unat strLen) s)"

definition SKIP_N :: "16 word \<Rightarrow> prop_stream \<Rightarrow> (bool \<times> prop_stream) run" where
  "SKIP_N n s =
     (if ps_size s < sint n then Inr (False, s)
      else if int (ps_p s) + sint n < 0 then Inl Undefined_behaviour
      else Inr (True, s\<lparr>ps_p := nat (int (ps_p s) + sint n)\<rparr>))"

section \<open>Writing\<close>

record prop_write_stream =
  ws_buffer :: bytes
  ws_bufferSize :: u32
  ws_size :: u32

definition ws_new :: prop_write_stream where
  "ws_new = \<lparr>ws_buffer = [], ws_bufferSize = 32, ws_size = 0\<rparr>"

definition getStream :: "prop_write_stream \<Rightarrow> bytes" where
  "getStream s = take (unat (ws_size s)) (ws_buffer s)"

text \<open>The growth step and the \<^verbatim>\<open>memcpy\<close> that every \<^verbatim>\<open>ADD\<close> operation ends with.\<close>

definition ws_append :: "bytes \<Rightarrow> prop_write_stream \<Rightarrow> prop_write_stream run" where
  "ws_append add s =
     (let n = length add;
          s = (if unat (ws_bufferSize s - ws_size s) < n
               then s\<lparr>ws_bufferSize := ws_bufferSize s + (word_of_nat (n + 0x1F) AND 0xFFFFFFE0)\<rparr> else s)
      in if unat (ws_size s) + n \<le> unat (ws_bufferSize s)
         then Inr (s\<lparr>ws_buffer := take (unat (ws_size s)) (ws_buffer s) @ add,
                     ws_size := ws_size s + word_of_nat n\<rparr>)
         else Inl Undefined_behaviour)"

definition ADD_VALUE :: "nat \<Rightarrow> nat \<Rightarrow> prop_write_stream \<Rightarrow> prop_write_stream run" where
  "ADD_VALUE n add s = ws_append (le_encode n add) s"

definition ADD_ULONG :: "u32 \<Rightarrow> prop_write_stream \<Rightarrow> prop_write_stream run" where
  "ADD_ULONG ret s = ADD_VALUE 4 (unat ret) s"

definition ADD_USHORT :: "u16 \<Rightarrow> prop_write_stream \<Rightarrow> prop_write_stream run" where
  "ADD_USHORT ret s = ADD_VALUE 2 (unat ret) s"

definition ADD_UCHAR :: "u8 \<Rightarrow> prop_write_stream \<Rightarrow> prop_write_stream run" where
  "ADD_UCHAR ret s = ADD_VALUE 1 (unat ret) s"

definition ADD_STRING :: "bytes \<Rightarrow> prop_write_stream \<Rightarrow> prop_write_stream run" where
  "ADD_STRING add s =
     (let strLen = word_of_nat (length add) :: u16 in
      bind_run (ADD_USHORT strLen s) (ws_append (take (unat strLen) add)))"

definition ADD_LSTRING :: "bytes \<Rightarrow> prop_write_stream \<Rightarrow> prop_write_stream run" where
  "ADD_LSTRING add s =
     (let strLen = word_of_nat (length add) :: u16 in
      bind_run (ADD_ULONG (ucast strLen) s) (ws_append (take (unat strLen) add)))"


section \<open>Readers as codecs\<close>

definition ps_view :: "prop_stream \<Rightarrow> bytes" where
  "ps_view s = drop (ps_p s) (ps_buffer s)"

definition ps_wf :: "prop_stream \<Rightarrow> bool" where
  "ps_wf s \<longleftrightarrow> ps_p s \<le> length (ps_buffer s) \<and> length (ps_buffer s) < 2 ^ 31"

lemma ps_size_wf [simp]: "ps_wf s \<Longrightarrow> ps_size s = int (length (ps_view s))"
  unfolding ps_size_def
  by (subst signed_take_bit_int_eq_self) (auto simp: ps_wf_def ps_view_def of_nat_diff)

lemma ps_take_enc:
  assumes "ps_wf s" "ps_view s = bs @ rest" "length bs = n"
  shows "\<exists>s'. ps_take n s = Inr (Some bs, s') \<and> ps_view s' = rest \<and> ps_wf s'"
proof -
  have len: "length (ps_buffer s) - ps_p s = n + length rest"
    using arg_cong [OF assms(2), of length] assms(3) by (simp add: ps_view_def)
  have le: "ps_p s \<le> length (ps_buffer s)" using assms(1) by (simp add: ps_wf_def)
  have "take n (drop (ps_p s) (ps_buffer s)) = bs" using assms(2,3) by (simp add: ps_view_def)
  moreover have "drop n (drop (ps_p s) (ps_buffer s)) = rest" using assms(2,3) by (simp add: ps_view_def)
  then have "drop (ps_p s + n) (ps_buffer s) = rest" by (simp add: add.commute)
  ultimately show ?thesis
    using len le assms(1) by (auto simp: ps_take_def ps_view_def ps_wf_def)
qed

lemma GET_VALUE_enc:
  assumes "ps_wf s" "ps_view s = bs @ rest" "length bs = n"
  shows "\<exists>s'. GET_VALUE n s = Inr (Some (le_decode bs), s') \<and> ps_view s' = rest \<and> ps_wf s'"
proof -
  obtain s' where "ps_take n s = Inr (Some bs, s')" "ps_view s' = rest" "ps_wf s'"
    using ps_take_enc [OF assms] by blast
  moreover have "\<not> ps_size s < int n" using assms by simp
  ultimately show ?thesis by (simp add: GET_VALUE_def)
qed

lemma GET_VALUE_short:
  "ps_wf s \<Longrightarrow> length (ps_view s) < n \<Longrightarrow> GET_VALUE n s = Inr (None, s)"
  by (simp add: GET_VALUE_def)

lemma GET_STRUCT_enc:
  assumes "ps_wf s" "ps_view s = bs @ rest" "length bs = n"
  shows "\<exists>s'. GET_STRUCT n s = Inr (Some bs, s') \<and> ps_view s' = rest \<and> ps_wf s'"
  using ps_take_enc [OF assms] assms by (auto simp: GET_STRUCT_def)

lemma prefix_length: "enc = front @ tail \<Longrightarrow> tail \<noteq> [] \<Longrightarrow> length front < length enc"
  by simp

interpretation ps_ulong: checked_codec "\<lambda>v. le_encode 4 (unat v)" GET_ULONG ps_view ps_wf "\<lambda>_. True"
proof (unfold_locales, goal_cases)
  case (1 s a rest)
  then show ?case
    using GET_VALUE_enc [of s "le_encode 4 (unat a)" rest 4] unsigned_less [of a]
    by (auto simp: GET_ULONG_def)
next
  case (2 s a tail)
  have "length (ps_view s) < 4" using prefix_length [OF 2(3,4)] by simp
  then show ?case by (simp only: GET_ULONG_def GET_VALUE_short [OF 2(1)]) simp
qed

interpretation ps_ushort: checked_codec "\<lambda>v. le_encode 2 (unat v)" GET_USHORT ps_view ps_wf "\<lambda>_. True"
proof (unfold_locales, goal_cases)
  case (1 s a rest)
  then show ?case
    using GET_VALUE_enc [of s "le_encode 2 (unat a)" rest 2] unsigned_less [of a]
    by (auto simp: GET_USHORT_def)
next
  case (2 s a tail)
  have "length (ps_view s) < 2" using prefix_length [OF 2(3,4)] by simp
  then show ?case by (simp only: GET_USHORT_def GET_VALUE_short [OF 2(1)]) simp
qed

interpretation ps_uchar: checked_codec "\<lambda>v. le_encode 1 (unat v)" GET_UCHAR ps_view ps_wf "\<lambda>_. True"
proof (unfold_locales, goal_cases)
  case (1 s a rest)
  then show ?case
    using GET_VALUE_enc [of s "le_encode 1 (unat a)" rest 1] unsigned_less [of a]
    by (auto simp: GET_UCHAR_def)
next
  case (2 s a tail)
  have "length (ps_view s) < 1" using prefix_length [OF 2(3,4)] by simp
  then show ?case by (simp only: GET_UCHAR_def GET_VALUE_short [OF 2(1)]) simp
qed

interpretation ps_time: checked_codec "\<lambda>v. le_encode 8 (unat v)" GET_TIME ps_view ps_wf "\<lambda>_. True"
proof (unfold_locales, goal_cases)
  case (1 s a rest)
  then show ?case
    using GET_VALUE_enc [of s "le_encode 8 (unat a)" rest 8] unsigned_less [of a]
    by (auto simp: GET_TIME_def)
next
  case (2 s a tail)
  have "length (ps_view s) < 8" using prefix_length [OF 2(3,4)] by simp
  then show ?case by (simp only: GET_TIME_def GET_VALUE_short [OF 2(1)]) simp
qed


lemma unat_of_length16: "length a < 2 ^ 16 \<Longrightarrow> unat (word_of_nat (length a) :: u16) = length a"
  by (simp add: unat_of_nat)

lemma unat_of_length32: "length a < 2 ^ 31 \<Longrightarrow> unat (word_of_nat (length a) :: u32) = length a"
  by (simp add: unat_of_nat)

lemma uint_of_length16: "length a < 2 ^ 16 \<Longrightarrow> uint (word_of_nat (length a) :: u16) = int (length a)"
  using unat_of_length16 [of a] by (simp add: uint_nat)

lemma sint_of_length32: "length a < 2 ^ 31 \<Longrightarrow> sint (word_of_nat (length a) :: u32) = int (length a)"
  using unat_of_length32 [of a] by (simp add: sint_uint uint_nat signed_take_bit_int_eq_self)

text \<open>A body cut short behind a complete length prefix: what both string readers face.\<close>

lemma prefixed_cases:
  assumes "lenb @ a = front @ tail" "tail \<noteq> ([] :: bytes)"
  obtains "length front < length lenb" | v where "front = lenb @ v" "length v < length a"
proof (cases "length front < length lenb")
  case False
  then obtain v where v: "front = lenb @ v" "a = v @ tail"
    using assms(1) by (auto simp: append_eq_append_conv2)
  then have "length v < length a" using assms(2) by simp
  with v(1) show ?thesis by (rule that(2))
qed (rule that(1))

interpretation ps_string: checked_codec "\<lambda>a. le_encode 2 (length a) @ a" GET_STRING ps_view ps_wf
  "\<lambda>a. length a < 2 ^ 16"
proof (unfold_locales, goal_cases)
  case (1 s a rest)
  let ?w = "word_of_nat (length a) :: u16"
  have "ps_view s = le_encode 2 (unat ?w) @ a @ rest" using 1(2,3) by (simp add: unat_of_length16)
  then obtain s1 where s1: "GET_USHORT s = Inr (Some ?w, s1)" "ps_view s1 = a @ rest" "ps_wf s1"
    using ps_ushort.get_enc [OF 1(1) TrueI, of ?w "a @ rest"] by blast
  moreover have "\<exists>s'. ps_take (unat ?w) s1 = Inr (Some a, s') \<and> ps_view s' = rest \<and> ps_wf s'"
    using ps_take_enc [OF s1(3,2)] 1(2) by (simp add: unat_of_length16)
  moreover have "\<not> ps_size s1 < uint ?w" using s1(2,3) 1(2) by (simp add: uint_of_length16)
  ultimately show ?case by (simp add: GET_STRING_def)
next
  case (2 s a tail)
  let ?w = "word_of_nat (length a) :: u16"
  from 2(3,4) show ?case
  proof (cases rule: prefixed_cases)
    case 1
    then show ?thesis using GET_VALUE_short [OF 2(1), of 2] by (simp add: GET_STRING_def GET_USHORT_def)
  next
    case (2 v)
    have "ps_view s = le_encode 2 (unat ?w) @ v"
      using 2(1) \<open>length a < 2 ^ 16\<close> by (simp add: unat_of_length16)
    then obtain s1 where s1: "GET_USHORT s = Inr (Some ?w, s1)" "ps_view s1 = v" "ps_wf s1"
      using ps_ushort.get_enc [OF \<open>ps_wf s\<close> TrueI, of ?w v] by blast
    moreover have "ps_size s1 < uint ?w"
      using s1(2,3) 2(2) \<open>length a < 2 ^ 16\<close> by (simp add: uint_of_length16)
    ultimately show ?thesis by (simp add: GET_STRING_def)
  qed
qed

interpretation ps_lstring: checked_codec "\<lambda>a. le_encode 4 (length a) @ a" GET_LSTRING ps_view ps_wf
  "\<lambda>a. length a < 2 ^ 31"
proof (unfold_locales, goal_cases)
  case (1 s a rest)
  let ?w = "word_of_nat (length a) :: u32"
  have "ps_view s = le_encode 4 (unat ?w) @ a @ rest" using 1(2,3) by (simp add: unat_of_length32)
  then obtain s1 where s1: "GET_ULONG s = Inr (Some ?w, s1)" "ps_view s1 = a @ rest" "ps_wf s1"
    using ps_ulong.get_enc [OF 1(1) TrueI, of ?w "a @ rest"] by blast
  moreover have "\<exists>s'. ps_take (unat ?w) s1 = Inr (Some a, s') \<and> ps_view s' = rest \<and> ps_wf s'"
    using ps_take_enc [OF s1(3,2)] 1(2) by (simp add: unat_of_length32)
  moreover have "\<not> ps_size s1 < sint ?w" using s1(2,3) 1(2) by (simp add: sint_of_length32)
  ultimately show ?case by (simp add: GET_LSTRING_def)
next
  case (2 s a tail)
  let ?w = "word_of_nat (length a) :: u32"
  from 2(3,4) show ?case
  proof (cases rule: prefixed_cases)
    case 1
    then show ?thesis using GET_VALUE_short [OF 2(1), of 4] by (simp add: GET_LSTRING_def GET_ULONG_def)
  next
    case (2 v)
    have "ps_view s = le_encode 4 (unat ?w) @ v"
      using 2(1) \<open>length a < 2 ^ 31\<close> by (simp add: unat_of_length32)
    then obtain s1 where s1: "GET_ULONG s = Inr (Some ?w, s1)" "ps_view s1 = v" "ps_wf s1"
      using ps_ulong.get_enc [OF \<open>ps_wf s\<close> TrueI, of ?w v] by blast
    moreover have "ps_size s1 < sint ?w"
      using s1(2,3) 2(2) \<open>length a < 2 ^ 31\<close> by (simp add: sint_of_length32)
    ultimately show ?thesis by (simp add: GET_LSTRING_def)
  qed
qed


section \<open>Writers stay inside their block\<close>

definition ws_wf :: "prop_write_stream \<Rightarrow> bool" where
  "ws_wf s \<longleftrightarrow> length (ws_buffer s) = unat (ws_size s) \<and> unat (ws_size s) \<le> unat (ws_bufferSize s)
     \<and> unat (ws_bufferSize s) \<le> 2 * unat (ws_size s) + 32"

lemma round_up_32:
  assumes "n < 2 ^ 31"
  shows "n \<le> unat ((word_of_nat (n + 0x1F) :: u32) AND 0xFFFFFFE0)"
    and "unat ((word_of_nat (n + 0x1F) :: u32) AND 0xFFFFFFE0) \<le> n + 31"
proof -
  let ?x = "word_of_nat (n + 0x1F) :: u32"
  have x: "unat ?x = n + 31" unfolding unat_of_nat using assms by simp
  have m: "(0xFFFFFFE0 :: u32) = NOT (mask 5)" by (simp add: mask_eq_exp_minus_1)
  have "?x AND 0xFFFFFFE0 = push_bit 5 (drop_bit 5 ?x)"
    unfolding m by (rule bit_word_eqI) (auto simp: bit_simps)
  moreover have "push_bit 5 (drop_bit 5 ?x) + take_bit 5 ?x = ?x" by (rule bits_ident)
  ultimately have d: "?x AND 0xFFFFFFE0 = ?x - take_bit 5 ?x" by (simp add: algebra_simps)
  have t: "unat (take_bit 5 ?x) = (n + 31) mod 32"
  proof -
    have "unat (take_bit 5 ?x) = take_bit 5 (n + 31)" by (simp only: unsigned_take_bit_eq x)
    then show ?thesis by (simp add: take_bit_eq_mod)
  qed
  then have "take_bit 5 ?x \<le> ?x" using x by (simp add: word_le_nat_alt)
  then have "unat (?x AND 0xFFFFFFE0) = n + 31 - (n + 31) mod 32"
    unfolding d using x t by (simp only: unat_sub)
  then show "n \<le> unat (?x AND 0xFFFFFFE0)" "unat (?x AND 0xFFFFFFE0) \<le> n + 31"
    by simp_all
qed

lemma ws_append_ok:
  assumes "ws_wf s" "unat (ws_size s) + length add < 2 ^ 30"
  shows "\<exists>s'. ws_append add s = Inr s' \<and> getStream s' = getStream s @ add \<and> ws_wf s'
    \<and> unat (ws_size s') = unat (ws_size s) + length add"
proof -
  let ?n = "length add"
  let ?cap = "if unat (ws_bufferSize s - ws_size s) < ?n
      then ws_bufferSize s + (word_of_nat (?n + 0x1F) AND 0xFFFFFFE0) else ws_bufferSize s"
  have n: "?n < 2 ^ 31" using assms(2) by simp
  have free: "unat (ws_bufferSize s - ws_size s) = unat (ws_bufferSize s) - unat (ws_size s)"
    using assms(1) by (intro unat_sub) (simp add: ws_wf_def word_le_nat_alt)
  have cap: "unat (ws_size s) + ?n \<le> unat ?cap \<and> unat ?cap \<le> 2 * (unat (ws_size s) + ?n) + 32"
  proof (cases "unat (ws_bufferSize s - ws_size s) < ?n")
    case True
    let ?r = "(word_of_nat (?n + 0x1F) :: u32) AND 0xFFFFFFE0"
    have "unat (ws_bufferSize s) + unat ?r < 2 ^ 32"
      using round_up_32(2) [OF n] assms by (simp add: ws_wf_def)
    then have "unat (ws_bufferSize s + ?r) = unat (ws_bufferSize s) + unat ?r"
      by (simp add: unat_word_ariths)
    then show ?thesis using True free round_up_32 [OF n] assms by (simp add: ws_wf_def)
  next
    case False
    then show ?thesis using free assms by (auto simp: ws_wf_def)
  qed
  have sz: "unat (ws_size s + word_of_nat ?n) = unat (ws_size s) + ?n"
    using assms(2) by (simp add: unat_word_ariths unat_of_nat)
  have "ws_append add s = Inr (s\<lparr>ws_bufferSize := ?cap,
      ws_buffer := take (unat (ws_size s)) (ws_buffer s) @ add, ws_size := ws_size s + word_of_nat ?n\<rparr>)"
    using cap by (simp add: ws_append_def Let_def split: if_splits)
  then show ?thesis using cap sz assms(1) by (simp add: getStream_def ws_wf_def)
qed


section \<open>Streams of fields\<close>

text \<open>
  A serialiser is a sequence of \<^verbatim>\<open>ADD\<close> calls and its deserialiser the same sequence of \<^verbatim>\<open>GET\<close>
  calls; a field names the call and carries the value.
\<close>

datatype prop_field = FUchar u8 | FUshort u16 | FUlong u32 | FString bytes | FLstring bytes

fun add_field :: "prop_field \<Rightarrow> prop_write_stream \<Rightarrow> prop_write_stream run" where
  "add_field (FUchar v) = ADD_UCHAR v"
| "add_field (FUshort v) = ADD_USHORT v"
| "add_field (FUlong v) = ADD_ULONG v"
| "add_field (FString v) = ADD_STRING v"
| "add_field (FLstring v) = ADD_LSTRING v"

fun get_field :: "prop_field \<Rightarrow> prop_stream \<Rightarrow> (prop_field option \<times> prop_stream) run" where
  "get_field (FUchar v) s = bind_run (GET_UCHAR s) (\<lambda>(r, s). Inr (map_option FUchar r, s))"
| "get_field (FUshort v) s = bind_run (GET_USHORT s) (\<lambda>(r, s). Inr (map_option FUshort r, s))"
| "get_field (FUlong v) s = bind_run (GET_ULONG s) (\<lambda>(r, s). Inr (map_option FUlong r, s))"
| "get_field (FString v) s = bind_run (GET_STRING s) (\<lambda>(r, s). Inr (map_option FString r, s))"
| "get_field (FLstring v) s = bind_run (GET_LSTRING s) (\<lambda>(r, s). Inr (map_option FLstring r, s))"

fun add_fields :: "prop_field list \<Rightarrow> prop_write_stream \<Rightarrow> prop_write_stream run" where
  "add_fields [] s = Inr s"
| "add_fields (f # fs) s = bind_run (add_field f s) (add_fields fs)"

fun get_fields :: "prop_field list \<Rightarrow> prop_stream \<Rightarrow> (prop_field list option \<times> prop_stream) run" where
  "get_fields [] s = Inr (Some [], s)"
| "get_fields (f # fs) s =
     bind_run (get_field f s) (\<lambda>(r, s). case r of None \<Rightarrow> Inr (None, s)
       | Some v \<Rightarrow> bind_run (get_fields fs s) (\<lambda>(r, s). Inr (map_option ((#) v) r, s)))"

text \<open>What the stream holds for a field, and what reading it gives: both string calls keep 16 bits of the length.\<close>

definition cut16 :: "bytes \<Rightarrow> bytes" where
  "cut16 v = take (length v mod 65536) v"

fun field_bytes :: "prop_field \<Rightarrow> bytes" where
  "field_bytes (FUchar v) = le_encode 1 (unat v)"
| "field_bytes (FUshort v) = le_encode 2 (unat v)"
| "field_bytes (FUlong v) = le_encode 4 (unat v)"
| "field_bytes (FString v) = le_encode 2 (length (cut16 v)) @ cut16 v"
| "field_bytes (FLstring v) = le_encode 4 (length (cut16 v)) @ cut16 v"

fun stored_field :: "prop_field \<Rightarrow> prop_field" where
  "stored_field (FString v) = FString (cut16 v)"
| "stored_field (FLstring v) = FLstring (cut16 v)"
| "stored_field f = f"

lemma length_cut16: "length (cut16 v) = length v mod 65536" "length (cut16 v) < 65536"
  by (simp_all add: cut16_def)

lemma cut16_id: "length v < 65536 \<Longrightarrow> cut16 v = v"
  by (simp add: cut16_def)

lemma unat_strLen: "unat (word_of_nat (length v) :: u16) = length v mod 65536"
  by (simp add: unat_of_nat)

lemma add_field_ok:
  assumes "ws_wf s" "unat (ws_size s) + length (field_bytes f) < 2 ^ 30"
  shows "\<exists>s'. add_field f s = Inr s' \<and> getStream s' = getStream s @ field_bytes f \<and> ws_wf s'
    \<and> unat (ws_size s') = unat (ws_size s) + length (field_bytes f)"
proof -
  have num: "\<exists>s'. ADD_VALUE n w s = Inr s' \<and> getStream s' = getStream s @ le_encode n w \<and> ws_wf s'
      \<and> unat (ws_size s') = unat (ws_size s) + n" if "unat (ws_size s) + n < 2 ^ 30" for n w
    unfolding ADD_VALUE_def using ws_append_ok [of s "le_encode n w"] assms(1) that by simp
  have str: "\<exists>s'. bind_run (ADD_VALUE n (length (cut16 v)) s) (ws_append (cut16 v)) = Inr s'
      \<and> getStream s' = getStream s @ le_encode n (length (cut16 v)) @ cut16 v \<and> ws_wf s'
      \<and> unat (ws_size s') = unat (ws_size s) + n + length (cut16 v)"
    if le: "unat (ws_size s) + n + length (cut16 v) < 2 ^ 30" for n v
  proof -
    obtain s1 where s1: "ADD_VALUE n (length (cut16 v)) s = Inr s1" "ws_wf s1"
        "getStream s1 = getStream s @ le_encode n (length (cut16 v))"
        "unat (ws_size s1) = unat (ws_size s) + n"
      using num [of n "length (cut16 v)"] le by auto
    then show ?thesis using ws_append_ok [OF s1(2), of "cut16 v"] le by auto
  qed
  show ?thesis
  proof (cases f)
    case (FString v)
    then show ?thesis using str [of 2 v] assms(2)
      by (simp add: ADD_STRING_def ADD_USHORT_def Let_def unat_strLen cut16_def)
  next
    case (FLstring v)
    then show ?thesis using str [of 4 v] assms(2)
      by (simp add: ADD_LSTRING_def ADD_ULONG_def Let_def unat_strLen cut16_def unat_ucast_16_32 add.assoc)
  next
    case (FUchar v)
    then show ?thesis using num [of 1 "unat v"] assms(2) by (simp add: ADD_UCHAR_def)
  next
    case (FUshort v)
    then show ?thesis using num [of 2 "unat v"] assms(2) by (simp add: ADD_USHORT_def)
  next
    case (FUlong v)
    then show ?thesis using num [of 4 "unat v"] assms(2) by (simp add: ADD_ULONG_def)
  qed
qed

lemma add_fields_ok:
  "ws_wf s \<Longrightarrow> unat (ws_size s) + length (concat (map field_bytes fs)) < 2 ^ 30 \<Longrightarrow>
   \<exists>s'. add_fields fs s = Inr s' \<and> getStream s' = getStream s @ concat (map field_bytes fs)"
proof (induction fs arbitrary: s)
  case (Cons f fs)
  have "unat (ws_size s) + length (field_bytes f) < 2 ^ 30" using Cons.prems(2) by simp
  then obtain s1 where s1: "add_field f s = Inr s1" "getStream s1 = getStream s @ field_bytes f"
      "ws_wf s1" "unat (ws_size s1) = unat (ws_size s) + length (field_bytes f)"
    using add_field_ok [OF Cons.prems(1)] by blast
  then show ?case using Cons.IH [OF s1(3)] Cons.prems(2) by auto
qed simp

lemma get_field_ok:
  assumes "ps_wf s" "ps_view s = field_bytes f @ rest"
  shows "\<exists>s'. get_field f s = Inr (Some (stored_field f), s') \<and> ps_view s' = rest \<and> ps_wf s'"
proof (cases f)
  case (FUchar v)
  then show ?thesis using ps_uchar.get_enc [OF assms(1) TrueI, of v rest] assms(2) by auto
next
  case (FUshort v)
  then show ?thesis using ps_ushort.get_enc [OF assms(1) TrueI, of v rest] assms(2) by auto
next
  case (FUlong v)
  then show ?thesis using ps_ulong.get_enc [OF assms(1) TrueI, of v rest] assms(2) by auto
next
  case (FString v)
  then show ?thesis using ps_string.get_enc [OF assms(1), of "cut16 v" rest] assms(2) length_cut16 [of v]
    by auto
next
  case (FLstring v)
  then show ?thesis using ps_lstring.get_enc [OF assms(1), of "cut16 v" rest] assms(2) length_cut16 [of v]
    by auto
qed

lemma get_fields_ok:
  "ps_wf s \<Longrightarrow> ps_view s = concat (map field_bytes fs) @ rest \<Longrightarrow>
   \<exists>s'. get_fields fs s = Inr (Some (map stored_field fs), s') \<and> ps_view s' = rest"
proof (induction fs arbitrary: s)
  case (Cons f fs)
  then obtain s1 where s1: "get_field f s = Inr (Some (stored_field f), s1)"
      "ps_view s1 = concat (map field_bytes fs) @ rest" "ps_wf s1"
    using get_field_ok [of s f "concat (map field_bytes fs) @ rest"] by auto
  then show ?case using Cons.IH [OF s1(3,2)] by auto
qed simp

text \<open>
  C38: whatever sequence of fields a serialiser writes through a \<^verbatim>\<open>PropWriteStream\<close>, as long as
  they take less than 2^30 bytes, no write leaves the allocated block, and a \<^verbatim>\<open>PropStream\<close> over
  the result reads the same fields back and ends at the end of the stream; a string longer
  than 65535 bytes, however, comes back cut to its length modulo 65536, also through the calls
  that store a 32-bit length.
\<close>

theorem prop_stream_round_trip:
  assumes "length (concat (map field_bytes fs)) < 2 ^ 30"
  shows "\<exists>ws s'. add_fields fs ws_new = Inr ws
    \<and> get_fields fs (ps_init (getStream ws)) = Inr (Some (map stored_field fs), s')
    \<and> ps_view s' = []"
proof -
  have "ws_wf ws_new" by (simp add: ws_wf_def ws_new_def)
  moreover have "unat (ws_size ws_new) = 0" "getStream ws_new = []"
    by (simp_all add: ws_new_def getStream_def)
  ultimately obtain ws where ws: "add_fields fs ws_new = Inr ws"
      "getStream ws = concat (map field_bytes fs)"
    using add_fields_ok [of ws_new fs] assms by auto
  have "ps_wf (ps_init (getStream ws))" using assms ws(2) by (simp add: ps_wf_def ps_init_def)
  moreover have "ps_view (ps_init (getStream ws)) = concat (map field_bytes fs) @ []"
    by (simp add: ps_view_def ps_init_def ws(2))
  ultimately show ?thesis using get_fields_ok ws(1) by blast
qed

lemma prop_stream_round_trip_witness:
  "\<exists>ws s'. add_fields [FUlong 7, FString [65, 66]] ws_new = Inr ws
    \<and> get_fields [FUlong 7, FString [65, 66]] (ps_init (getStream ws)) = Inr (Some [FUlong 7, FString [65, 66]], s')
    \<and> ps_view s' = []"
  using prop_stream_round_trip [of "[FUlong 7, FString [65, 66]]"] by (simp add: cut16_def)

lemma GET_LSTRING_negative:
  assumes "ps_wf s" "ps_view s = le_encode 4 n @ rest" "2 ^ 31 \<le> n" "n < 2 ^ 32"
  shows "GET_LSTRING s = Inl Undefined_behaviour"
proof -
  let ?w = "word_of_nat n :: u32"
  have w: "unat ?w = n" unfolding unat_of_nat using assms(4) by simp
  then have v: "ps_view s = le_encode 4 (unat ?w) @ rest" using assms(2) by (simp only:)
  obtain s1 where s1: "GET_ULONG s = Inr (Some ?w, s1)" "ps_view s1 = rest" "ps_wf s1"
    using ps_ulong.get_enc [OF assms(1) TrueI v] by blast
  have "sint ?w < 0"
  proof -
    have "n div 2 ^ 31 = 1" using assms(3,4) by (simp add: div_nat_eqI)
    then have "bit (unat ?w) 31" unfolding w by (simp add: bit_iff_odd)
    then have "bit ?w 31" by (simp only: bit_unsigned_iff)
    then show ?thesis using bit_last_iff [of ?w] by simp
  qed
  then have "\<not> ps_size s1 < sint ?w" using s1(3) by simp
  moreover have "ps_take (unat ?w) s1 = Inl Undefined_behaviour"
    using s1(3) assms(3) w by (simp add: ps_take_def ps_wf_def)
  ultimately show ?thesis using s1(1) by (simp add: GET_LSTRING_def)
qed

text \<open>
  C39: a property stream cut short anywhere is refused, not misread: reading a string whose
  encoding the stream holds only in part fails without reading behind the buffer. But a long
  string whose 32-bit length has its top bit set passes the length check, and its body is then
  read far behind the end of the buffer.
\<close>

theorem prop_stream_bounds:
  assumes "ps_wf s" "length a < 2 ^ 16" "le_encode 2 (length a) @ a = ps_view s @ tail" "tail \<noteq> []"
    and "ps_wf t" "ps_view t = le_encode 4 n @ rest" "2 ^ 31 \<le> n" "n < 2 ^ 32"
  shows "(\<exists>s'. GET_STRING s = Inr (None, s')) \<and> GET_LSTRING t = Inl Undefined_behaviour"
  using ps_string.get_short [OF assms(1-4)] GET_LSTRING_negative [OF assms(5-8)] by blast

lemma prop_stream_bounds_witness:
  "(\<exists>s'. GET_STRING (ps_init [2, 0, 65]) = Inr (None, s'))
   \<and> GET_LSTRING (ps_init (le_encode 4 (2 ^ 31))) = Inl Undefined_behaviour"
proof (rule prop_stream_bounds)
  show "le_encode 2 (length [65, 66 :: u8]) @ [65, 66] = ps_view (ps_init [2, 0, 65]) @ [66]"
    by (simp add: ps_view_def ps_init_def numeral_2_eq_2)
  show "ps_view (ps_init (le_encode 4 (2 ^ 31))) = le_encode 4 (2 ^ 31) @ []"
    by (simp add: ps_view_def ps_init_def)
qed (simp_all add: ps_wf_def ps_init_def)

end
