(* ===== verification/File_Loader.thy ===== *)
theory File_Loader
  imports Prop_Stream
begin

text \<open>
  \<^verbatim>\<open>FileLoader\<close> (\<^verbatim>\<open>src/sources/fileloader.h\<close>, \<^verbatim>\<open>fileloader.cpp\<close>), the node-tree format of the map and
  item files.  A node is a start byte, a type byte, escaped property bytes, its children and an
  end byte.  Reading goes through \<^verbatim>\<open>readByte\<close>, \<^verbatim>\<open>safeTell\<close> and \<^verbatim>\<open>safeSeek\<close>, which work either on
  the \<^verbatim>\<open>FILE\<close> or on a cache of three blocks; both are modelled, and the parser takes the three
  operations as a record, as the code selects them by \<^verbatim>\<open>m_use_cache\<close>.  The C library's file is
  its content and a position: \<^verbatim>\<open>fseek\<close> to a non-negative offset succeeds, \<^verbatim>\<open>fgetc\<close> and \<^verbatim>\<open>fread\<close>
  stop at the end of the content.
\<close>

datatype fileloader_error =
    ERROR_NONE | ERROR_INVALID_FILE_VERSION | ERROR_CAN_NOT_OPEN | ERROR_CAN_NOT_CREATE
  | ERROR_EOF | ERROR_SEEK_ERROR | ERROR_NOT_OPEN | ERROR_INVALID_NODE | ERROR_INVALID_FORMAT
  | ERROR_TELL_ERROR | ERROR_COULDNOTWRITE | ERROR_CACHE_ERROR

abbreviation NODE_START :: int where "NODE_START \<equiv> 0xFE"
abbreviation NODE_END :: int where "NODE_END \<equiv> 0xFF"
abbreviation ESCAPE_CHAR :: int where "ESCAPE_CHAR \<equiv> 0xFD"

definition special_byte :: "u8 \<Rightarrow> bool" where
  "special_byte c \<longleftrightarrow> uint c = NODE_START \<or> uint c = NODE_END \<or> uint c = ESCAPE_CHAR"

section \<open>Writing\<close>

text \<open>A loader opened for writing: what reached the file, how many bytes the disk still takes, the last error.\<close>

record file_writer =
  fw_out :: bytes
  fw_room :: nat
  fw_error :: fileloader_error

definition fw_put :: "u8 \<Rightarrow> file_writer \<Rightarrow> bool \<times> file_writer" where
  "fw_put c w =
     (if fw_room w = 0 then (False, w\<lparr>fw_error := ERROR_COULDNOTWRITE\<rparr>)
      else (True, w\<lparr>fw_out := fw_out w @ [c], fw_room := fw_room w - 1\<rparr>))"

primrec writeData :: "bytes \<Rightarrow> bool \<Rightarrow> file_writer \<Rightarrow> bool \<times> file_writer" where
  "writeData [] unescape w = (True, w)"
| "writeData (c # cs) unescape w =
     (let (ok, w) = (if unescape \<and> special_byte c then fw_put (word_of_int ESCAPE_CHAR) w else (True, w))
      in if \<not> ok then (False, w)
         else let (ok, w) = fw_put c w in if ok then writeData cs unescape w else (False, w))"

definition startNode :: "u8 \<Rightarrow> file_writer \<Rightarrow> file_writer" where
  "startNode t w = snd (writeData [t] True (snd (writeData [word_of_int NODE_START] False w)))"

definition endNode :: "file_writer \<Rightarrow> file_writer" where
  "endNode w = snd (writeData [word_of_int NODE_END] False w)"

text \<open>
  The callers of \<^verbatim>\<open>setProps\<close> pass a whole buffer and its length; the parameter is a \<^verbatim>\<open>uint16_t\<close>,
  so a length of 65536 and more is cut and only that many bytes of the buffer are written.
\<close>

definition setProps :: "bytes \<Rightarrow> file_writer \<Rightarrow> fileloader_error \<times> file_writer" where
  "setProps data w =
     (let size = (word_of_nat (length data) :: u16);
          (ok, w) = writeData (take (unat size) data) True w
      in (if ok then ERROR_NONE else fw_error w, w))"

definition openFile_write :: "nat \<Rightarrow> file_writer" where
  "openFile_write room =
     snd (writeData (le_encode 4 0) False \<lparr>fw_out = [], fw_room = room, fw_error = ERROR_NONE\<rparr>)"

section \<open>Reading\<close>

record cache_block =
  cb_loaded :: bool
  cb_base :: u32
  cb_data :: bytes

record file_loader =
  fl_file :: bytes
  fl_pos :: nat
  fl_error :: fileloader_error
  fl_buffer_size :: u32
  fl_use_cache :: bool
  fl_cache_size :: u32
  fl_cached :: "cache_block list"
  fl_cache_index :: u32
  fl_cache_offset :: u32

abbreviation NO_VALID_CACHE :: u32 where "NO_VALID_CACHE \<equiv> 0xFFFFFFFF"

definition loader_new :: "bytes \<Rightarrow> file_loader" where
  "loader_new file = \<lparr>fl_file = file, fl_pos = 0, fl_error = ERROR_NONE, fl_buffer_size = 1024,
     fl_use_cache = False, fl_cache_size = 0,
     fl_cached = replicate 3 \<lparr>cb_loaded = False, cb_base = 0, cb_data = []\<rparr>,
     fl_cache_index = NO_VALID_CACHE, fl_cache_offset = NO_VALID_CACHE\<rparr>"

text \<open>The file position where a block starts: \<^verbatim>\<open>pos & ~(m_cache_size - 1)\<close>.\<close>

definition block_base :: "file_loader \<Rightarrow> u32 \<Rightarrow> u32" where
  "block_base st pos = pos AND NOT (fl_cache_size st - 1)"

primrec first_index :: "('a \<Rightarrow> bool) \<Rightarrow> 'a list \<Rightarrow> nat option" where
  "first_index P [] = None"
| "first_index P (x # xs) = (if P x then Some 0 else map_option Suc (first_index P xs))"

definition loading_cache :: "file_loader \<Rightarrow> u32 \<Rightarrow> nat" where
  "loading_cache st pos =
     (case first_index (\<lambda>b. \<not> cb_loaded b) (fl_cached st) of Some i \<Rightarrow> i
      | None \<Rightarrow>
         (case first_index (\<lambda>b. \<bar>uint (cb_base b) - sint (block_base st pos)\<bar>
               > uint (2 * fl_cache_size st)) (fl_cached st) of Some i \<Rightarrow> i
          | None \<Rightarrow> 0))"

definition loadCacheBlock :: "u32 \<Rightarrow> file_loader \<Rightarrow> int \<times> file_loader" where
  "loadCacheBlock pos st =
     (let i = loading_cache st pos;
          base = block_base st pos;
          data = take (unat (fl_cache_size st)) (drop (unat base) (fl_file st));
          blk = (fl_cached st ! i)\<lparr>cb_base := base, cb_data := data\<rparr>;
          st = st\<lparr>fl_cached := (fl_cached st)[i := blk], fl_pos := unat base + length data\<rparr>
      in if (word_of_nat (length data) :: u32) < pos - base
         then (- 1, st\<lparr>fl_error := ERROR_SEEK_ERROR\<rparr>)
         else (int i, st\<lparr>fl_cached := (fl_cached st)[i := blk\<lparr>cb_loaded := True\<rparr>]\<rparr>))"

definition getCacheBlock :: "u32 \<Rightarrow> file_loader \<Rightarrow> u32 \<times> file_loader" where
  "getCacheBlock pos st =
     (case first_index (\<lambda>b. cb_loaded b \<and> cb_base b = block_base st pos) (fl_cached st) of
        Some i \<Rightarrow> (word_of_nat i, st)
      | None \<Rightarrow> let (i, st) = loadCacheBlock pos st in (word_of_int i, st))"

definition block_of :: "file_loader \<Rightarrow> u32 \<Rightarrow> cache_block" where
  "block_of st i = fl_cached st ! unat i"

definition block_size :: "file_loader \<Rightarrow> u32 \<Rightarrow> nat" where
  "block_size st i = length (cb_data (block_of st i))"

definition fgetc :: "file_loader \<Rightarrow> int option \<times> file_loader" where
  "fgetc st =
     (if fl_pos st < length (fl_file st)
      then (Some (uint (fl_file st ! fl_pos st)), st\<lparr>fl_pos := fl_pos st + 1\<rparr>) else (None, st))"

text \<open>The cached branch of \<^verbatim>\<open>readByte\<close>: moving to the block of the position when the current one is used up.\<close>

definition cache_advance :: "file_loader \<Rightarrow> bool \<times> file_loader" where
  "cache_advance st =
     (if unat (fl_cache_offset st) < block_size st (fl_cache_index st) then (True, st)
      else
        let pos = fl_cache_offset st + cb_base (block_of st (fl_cache_index st));
            (tmp, st) = getCacheBlock pos st
        in if sint tmp < 0 then (False, st)
           else
             let st = st\<lparr>fl_cache_index := tmp, fl_cache_offset := pos - cb_base (block_of st tmp)\<rparr>
             in (unat (fl_cache_offset st) < block_size st (fl_cache_index st), st))"

definition readByte :: "file_loader \<Rightarrow> int option \<times> file_loader" where
  "readByte st =
     (if fl_use_cache st then
        (if fl_cache_index st = NO_VALID_CACHE then (None, st\<lparr>fl_error := ERROR_CACHE_ERROR\<rparr>)
         else
           let (ok, st) = cache_advance st in
           if ok
           then (Some (uint (cb_data (block_of st (fl_cache_index st)) ! unat (fl_cache_offset st))),
                 st\<lparr>fl_cache_offset := fl_cache_offset st + 1\<rparr>)
           else (None, st))
      else
        (case fgetc st of (Some v, st) \<Rightarrow> (Some v, st)
         | (None, st) \<Rightarrow> (None, st\<lparr>fl_error := ERROR_EOF\<rparr>)))"

definition safeSeek :: "u32 \<Rightarrow> file_loader \<Rightarrow> bool \<times> file_loader" where
  "safeSeek pos st =
     (if fl_use_cache st then
        (let (i, st) = getCacheBlock pos st in
         if i = NO_VALID_CACHE then (False, st)
         else (True, st\<lparr>fl_cache_index := i, fl_cache_offset := pos - cb_base (block_of st i)\<rparr>))
      else (True, st\<lparr>fl_pos := unat pos\<rparr>))"

definition safeTell :: "file_loader \<Rightarrow> int option \<times> file_loader" where
  "safeTell st =
     (if fl_use_cache st then
        (if fl_cache_index st = NO_VALID_CACHE then (None, st\<lparr>fl_error := ERROR_CACHE_ERROR\<rparr>)
         else (Some (sint (cb_base (block_of st (fl_cache_index st)) + fl_cache_offset st - 1)), st))
      else (Some (int (fl_pos st) - 1), st))"


section \<open>Parsing\<close>

datatype node =
  Node (node_start: u32) (node_propsSize: u32) (node_type: u32) (node_child: "node option")
    (node_next: "node option")

text \<open>The operations the parser calls; \<open>op_bad\<close> records \<^verbatim>\<open>ERROR_INVALID_FORMAT\<close>.\<close>

record 's source_ops =
  op_read :: "'s \<Rightarrow> int option \<times> 's"
  op_tell :: "'s \<Rightarrow> int option \<times> 's"
  op_seek :: "u32 \<Rightarrow> 's \<Rightarrow> bool \<times> 's"
  op_bad :: "'s \<Rightarrow> 's"

text \<open>
  \<open>parse_node\<close> is the head of the outer loop of \<^verbatim>\<open>parseNode\<close> (it reads the type of the current
  node) and \<open>parse_body\<close> its inner loop.  The parameters of \<open>parse_body\<close> are the fields of the
  current node and \<^verbatim>\<open>setPropsSize\<close>; the result is the node with everything linked to it, or
  \<open>None\<close> where the code returns false (the caller then never uses the partial tree).
\<close>

fun parse_node :: "'s source_ops \<Rightarrow> nat \<Rightarrow> u32 \<Rightarrow> 's \<Rightarrow> (node option \<times> 's) run"
  and parse_body :: "'s source_ops \<Rightarrow> nat \<Rightarrow> u32 \<Rightarrow> u32 \<Rightarrow> u32 \<Rightarrow> node option \<Rightarrow> bool \<Rightarrow> 's
    \<Rightarrow> (node option \<times> 's) run" where
  "parse_node ops 0 start s = Inl Out_of_fuel"
| "parse_node ops (Suc n) start s =
     (case op_read ops s of
        (None, s) \<Rightarrow> Inr (None, s)
      | (Some byte, s) \<Rightarrow> parse_body ops n start (word_of_int byte) 0 None False s)"
| "parse_body ops 0 start type propsSize child setPropsSize s = Inl Out_of_fuel"
| "parse_body ops (Suc n) start type propsSize child setPropsSize s =
     (case op_read ops s of
        (None, s) \<Rightarrow> Inr (None, s)
      | (Some byte, s) \<Rightarrow>
          if byte = NODE_START then
            (case op_tell ops s of
               (None, s) \<Rightarrow> Inr (None, s)
             | (Some pos, s) \<Rightarrow>
                 require (child = None)
                   (bind_run (parse_node ops n (word_of_int pos) s) (\<lambda>(r, s).
                     case r of None \<Rightarrow> Inr (None, s)
                     | Some childNode \<Rightarrow>
                         parse_body ops n start type (word_of_int pos - start - 2) (Some childNode) True s)))
          else if byte = NODE_END then
            (case (if setPropsSize then (Some propsSize, s)
                   else case op_tell ops s of (r, s) \<Rightarrow> (map_option (\<lambda>pos. word_of_int pos - start - 2) r, s)) of
               (None, s) \<Rightarrow> Inr (None, s)
             | (Some propsSize, s) \<Rightarrow>
                 (case op_read ops s of
                    (None, s) \<Rightarrow> Inr (Some (Node start propsSize type child None), s)
                  | (Some byte, s) \<Rightarrow>
                      if byte = NODE_START then
                        (case op_tell ops s of
                           (None, s) \<Rightarrow> Inr (None, s)
                         | (Some pos, s) \<Rightarrow>
                             bind_run (parse_node ops n (word_of_int pos) s) (\<lambda>(r, s).
                               Inr (map_option (\<lambda>nextNode. Node start propsSize type child (Some nextNode)) r, s)))
                      else if byte = NODE_END then
                        (case op_tell ops s of
                           (None, s) \<Rightarrow> Inr (None, s)
                         | (Some pos, s) \<Rightarrow>
                             (case op_seek ops (word_of_int pos) s of (ok, s) \<Rightarrow>
                                Inr (if ok then Some (Node start propsSize type child None) else None, s)))
                      else Inr (None, op_bad ops s)))
          else if byte = ESCAPE_CHAR then
            (case op_read ops s of
               (None, s) \<Rightarrow> Inr (None, s)
             | (Some byte, s) \<Rightarrow> parse_body ops n start type propsSize child setPropsSize s)
          else parse_body ops n start type propsSize child setPropsSize s)"

definition loader_ops :: "file_loader source_ops" where
  "loader_ops = \<lparr>op_read = readByte, op_tell = safeTell, op_seek = safeSeek,
     op_bad = (\<lambda>st. st\<lparr>fl_error := ERROR_INVALID_FORMAT\<rparr>)\<rparr>"

definition parseNode :: "nat \<Rightarrow> u32 \<Rightarrow> file_loader \<Rightarrow> (node option \<times> file_loader) run" where
  "parseNode = parse_node loader_ops"

text \<open>Opening for reading; the file is absent when \<^verbatim>\<open>fopen\<close> fails. The fuel exceeds the length of the file.\<close>

definition cache_size_for :: "int \<Rightarrow> u32" where
  "cache_size_for file_size = word_of_int (min 32768 (max (file_size div 20) 8192)) AND NOT 0x1FFF"

definition openFile_read :: "bytes option \<Rightarrow> bool \<Rightarrow> (node option \<times> file_loader) run" where
  "openFile_read contents caching =
     (case contents of
        None \<Rightarrow> Inr (None, (loader_new [])\<lparr>fl_error := ERROR_CAN_NOT_OPEN\<rparr>)
      | Some file \<Rightarrow>
          let st = (loader_new file)\<lparr>fl_pos := min 4 (length file)\<rparr> in
          if length file < 4 then Inr (None, st\<lparr>fl_error := ERROR_EOF\<rparr>)
          else if le_decode (take 4 file) > 0
          then Inr (None, st\<lparr>fl_error := ERROR_INVALID_FILE_VERSION\<rparr>)
          else
            let st = (if caching
                      then st\<lparr>fl_use_cache := True, fl_cache_size := cache_size_for (int (length file))\<rparr>
                      else st);
                (ok, st) = safeSeek 4 st
            in if \<not> ok then Inr (None, st\<lparr>fl_error := ERROR_INVALID_FORMAT\<rparr>)
               else
                 let (ok, st) = safeSeek 4 st;
                     (r, st) = (if ok then readByte st else (None, st))
                 in if r = Some NODE_START then parseNode (length file + 2) 4 st else Inr (None, st))"

section \<open>Properties of a node\<close>

text \<open>
  The unescaping loop of \<^verbatim>\<open>getProps\<close> runs in place over \<^verbatim>\<open>m_buffer\<close>: \<open>i\<close> reads, \<open>j\<close> writes, and
  bytes are only moved once an escape was seen. An index outside the buffer is undefined.
\<close>

function unescape_loop :: "nat \<Rightarrow> nat \<Rightarrow> nat \<Rightarrow> bool \<Rightarrow> bytes \<Rightarrow> (bytes \<times> nat) run" where
  "unescape_loop propsSize i j escaped buf =
     (if i < propsSize then
        if i \<ge> length buf then Inl Undefined_behaviour
        else if uint (buf ! i) = ESCAPE_CHAR then
          (if i + 1 \<ge> length buf then Inl Undefined_behaviour
           else unescape_loop propsSize (i + 2) (j + 1) True (buf[j := buf ! (i + 1)]))
        else unescape_loop propsSize (i + 1) (j + 1) escaped (if escaped then buf[j := buf ! i] else buf)
      else Inr (buf, j))"
  by pat_completeness auto
termination by (relation "measure (\<lambda>(propsSize, i, j, escaped, buf). propsSize - i)") auto

text \<open>
  \<^verbatim>\<open>readBytes\<close> copies into the buffer it is given, of which the model keeps the size \<open>cap\<close>: a
  \<^verbatim>\<open>memcpy\<close> or \<^verbatim>\<open>fread\<close> that delivers a byte behind it is undefined.  With a cache it copies block
  by block; the loop does not end when a block has no more bytes than the offset, which the fuel
  turns into a failure.  Without, a negative position is refused by \<^verbatim>\<open>fseek\<close>.
\<close>

fun readBytes_cached :: "nat \<Rightarrow> nat \<Rightarrow> u32 \<Rightarrow> u32 \<Rightarrow> bytes \<Rightarrow> file_loader
    \<Rightarrow> (bytes option \<times> file_loader) run" where
  "readBytes_cached 0 cap remain pos acc st = Inl Out_of_fuel"
| "readBytes_cached (Suc n) cap remain pos acc st =
     (let (i, st) = getCacheBlock pos st in
      if i = NO_VALID_CACHE then Inr (None, st)
      else
        let st = st\<lparr>fl_cache_index := i, fl_cache_offset := pos - cb_base (block_of st i)\<rparr>;
            reading = min remain (word_of_nat (block_size st i) - fl_cache_offset st);
            off = unat (fl_cache_offset st)
        in if off + unat reading > block_size st i \<or> length acc + unat reading > cap
           then Inl Undefined_behaviour
           else
             let acc = acc @ take (unat reading) (drop off (cb_data (block_of st i)));
                 st = st\<lparr>fl_cache_offset := fl_cache_offset st + reading\<rparr>
             in if remain - reading > 0
                then readBytes_cached n cap (remain - reading) (pos + reading) acc st
                else Inr (Some acc, st))"

definition readBytes :: "nat \<Rightarrow> u32 \<Rightarrow> u32 \<Rightarrow> file_loader \<Rightarrow> (bytes option \<times> file_loader) run" where
  "readBytes cap count pos st =
     (if fl_use_cache st then readBytes_cached (unat count + 1) cap count pos [] st
      else if sint pos < 0 then Inr (None, st\<lparr>fl_error := ERROR_SEEK_ERROR\<rparr>)
      else
        let data = take (unat count) (drop (unat pos) (fl_file st));
            st = st\<lparr>fl_pos := max (unat pos) (min (unat pos + unat count) (length (fl_file st)))\<rparr>
        in if length data > cap then Inl Undefined_behaviour
           else if length data = unat count then Inr (Some data, st)
           else Inr (None, st\<lparr>fl_error := ERROR_EOF\<rparr>))"

text \<open>The buffer behind the bytes just read holds what earlier calls left there; \<open>stale\<close> stands for it.\<close>

definition getProps :: "bytes \<Rightarrow> node option \<Rightarrow> file_loader \<Rightarrow> (bytes option \<times> file_loader) run" where
  "getProps stale node st =
     (case node of None \<Rightarrow> Inr (None, st)
      | Some node \<Rightarrow>
          let psize = node_propsSize node;
              st = (if psize \<ge> fl_buffer_size st
                    then st\<lparr>fl_buffer_size := fl_buffer_size st + 1024\<rparr> else st)
          in bind_run (readBytes (unat (fl_buffer_size st)) psize (node_start node + 2) st) (\<lambda>(r, st).
               case r of None \<Rightarrow> Inr (None, st)
               | Some data \<Rightarrow>
                   bind_run (unescape_loop (unat psize) 0 0 False
                       (data @ take (unat (fl_buffer_size st) - length data) stale))
                     (\<lambda>(buf, j). Inr (Some (take j buf), st))))"

definition getProps_stream :: "bytes \<Rightarrow> node option \<Rightarrow> file_loader \<Rightarrow> ((bool \<times> prop_stream) \<times> file_loader) run" where
  "getProps_stream stale node st =
     bind_run (getProps stale node st) (\<lambda>(r, st).
       Inr (case r of Some a \<Rightarrow> (True, ps_init a) | None \<Rightarrow> (False, ps_init []), st))"

definition getChildNode :: "node option \<Rightarrow> node option \<Rightarrow> node option" where
  "getChildNode root parent = (case parent of Some p \<Rightarrow> node_child p | None \<Rightarrow> root)"

definition getNextNode :: "node option \<Rightarrow> node option" where
  "getNextNode prev = (case prev of Some p \<Rightarrow> node_next p | None \<Rightarrow> None)"

end
