(* ===== verification/File_Tree.thy ===== *)
theory File_Tree
  imports File_Loader
begin

text \<open>
  What the node format means.  A \<open>tree\<close> is what a writer serialises with \<^verbatim>\<open>startNode\<close>, \<^verbatim>\<open>setProps\<close>
  and \<^verbatim>\<open>endNode\<close>; \<open>byte_source\<close> is the contract of the three reading operations, met by the
  uncached and by the cached \<^verbatim>\<open>FileLoader\<close>; within it the parser is proved to rebuild every
  written tree and to come back, without tripping an assertion, from every file whatsoever.
\<close>

section \<open>The contract of a byte source\<close>

locale byte_source =
  fixes ops :: "'s source_ops"
    and content :: "'s \<Rightarrow> bytes"
    and at :: "'s \<Rightarrow> nat"
    and inv :: "'s \<Rightarrow> bool"
  assumes read_more: "inv s \<Longrightarrow> at s < length (content s) \<Longrightarrow>
      \<exists>s'. op_read ops s = (Some (uint (content s ! at s)), s') \<and> inv s' \<and> content s' = content s
        \<and> at s' = at s + 1"
    and read_end: "inv s \<Longrightarrow> at s = length (content s) \<Longrightarrow>
      \<exists>s'. op_read ops s = (None, s') \<and> inv s' \<and> content s' = content s \<and> at s' = at s"
    and tell: "inv s \<Longrightarrow> 0 < at s \<Longrightarrow> op_tell ops s = (Some (int (at s) - 1), s)"
    and seek: "inv s \<Longrightarrow> unat p \<le> length (content s) \<Longrightarrow>
      \<exists>s'. op_seek ops p s = (True, s') \<and> inv s' \<and> content s' = content s \<and> at s' = unat p"
    and bad: "inv s \<Longrightarrow> inv (op_bad ops s) \<and> content (op_bad ops s) = content s \<and> at (op_bad ops s) = at s"
    and bound: "inv s \<Longrightarrow> at s \<le> length (content s) \<and> length (content s) < 2 ^ 31"
begin

lemma unat_pos: "inv s \<Longrightarrow> p \<le> at s \<Longrightarrow> unat (word_of_nat p :: u32) = p"
  using bound [of s] by (simp add: unat_of_nat)

lemma tell_word: "inv s \<Longrightarrow> at s = Suc p \<Longrightarrow> op_tell ops s = (Some (int p), s)"
  using tell [of s] by simp

text \<open>Every file is answered: with as much fuel as bytes remain, a parse ends and no assertion fails.\<close>

definition stopped :: "'s \<Rightarrow> bool" where
  "stopped s \<longleftrightarrow> at s = length (content s) \<or> uint (content s ! at s) = NODE_END"

definition answered :: "'s \<Rightarrow> (node option \<times> 's) run \<Rightarrow> bool" where
  "answered s res \<longleftrightarrow> (\<exists>r s'. res = Inr (r, s') \<and> inv s' \<and> content s' = content s \<and> at s \<le> at s'
     \<and> (r \<noteq> None \<longrightarrow> stopped s'))"

lemma answeredI:
  "inv s' \<Longrightarrow> content s' = content s \<Longrightarrow> at s \<le> at s' \<Longrightarrow> (r \<noteq> None \<Longrightarrow> stopped s') \<Longrightarrow>
   answered s (Inr (r, s'))"
  by (auto simp: answered_def)

lemma answered_mono:
  "answered s1 res \<Longrightarrow> content s1 = content s \<Longrightarrow> at s \<le> at s1 \<Longrightarrow> answered s res"
  by (auto simp: answered_def)

lemma read_cases:
  assumes "inv s"
  obtains s' where "op_read ops s = (None, s')" "inv s'" "content s' = content s" "at s' = at s"
      "at s = length (content s)"
  | s' where "op_read ops s = (Some (uint (content s ! at s)), s')" "inv s'" "content s' = content s"
      "at s' = at s + 1" "at s < length (content s)"
proof (cases "at s < length (content s)")
  case True
  then show ?thesis using read_more [OF assms] that(2) by blast
next
  case False
  then have "at s = length (content s)" using bound [OF assms] by simp
  then show ?thesis using read_end [OF assms] that(1) by blast
qed

text \<open>What follows a node's end byte: the next sibling, the parent's end byte, or the end of the file.\<close>

definition after_end :: "nat \<Rightarrow> u32 \<Rightarrow> u32 \<Rightarrow> u32 \<Rightarrow> node option \<Rightarrow> 's \<Rightarrow> (node option \<times> 's) run" where
  "after_end n start ps type child s =
     (case op_read ops s of
        (None, s) \<Rightarrow> Inr (Some (Node start ps type child None), s)
      | (Some byte, s) \<Rightarrow>
          if byte = NODE_START then
            (case op_tell ops s of
               (None, s) \<Rightarrow> Inr (None, s)
             | (Some pos, s) \<Rightarrow>
                 bind_run (parse_node ops n (word_of_int pos) s) (\<lambda>(r, s).
                   Inr (map_option (\<lambda>nextNode. Node start ps type child (Some nextNode)) r, s)))
          else if byte = NODE_END then
            (case op_tell ops s of
               (None, s) \<Rightarrow> Inr (None, s)
             | (Some pos, s) \<Rightarrow>
                 (case op_seek ops (word_of_int pos) s of (ok, s) \<Rightarrow>
                    Inr (if ok then Some (Node start ps type child None) else None, s)))
          else Inr (None, op_bad ops s))"

lemma after_end_answered:
  assumes "inv s" "0 < at s"
    and node: "\<And>start s'. inv s' \<Longrightarrow> content s' = content s \<Longrightarrow> at s' = at s + 1 \<Longrightarrow>
      at s < length (content s) \<Longrightarrow> answered s' (parse_node ops n start s')"
  shows "answered s (after_end n start ps type child s)"
  using assms(1)
proof (cases rule: read_cases)
  case (1 s1)
  then have "answered s (Inr (Some (Node start ps type child None), s1))"
    by (intro answeredI) (simp_all add: stopped_def)
  then show ?thesis using 1(1) by (simp add: after_end_def)
next
  case (2 s1)
  note t = tell_word [OF 2(2), of "at s"]
  show ?thesis
  proof (cases "uint (content s ! at s) = NODE_START")
    case True
    have "answered s1 (parse_node ops n (word_of_int (int (at s))) s1)" by (rule node [OF 2(2-5)])
    then have "answered s (parse_node ops n (word_of_int (int (at s))) s1)"
      by (rule answered_mono) (simp_all add: 2)
    then show ?thesis
      using 2(1,4) t True by (auto simp: after_end_def answered_def)
  next
    case start: False
    show ?thesis
    proof (cases "uint (content s ! at s) = NODE_END")
      case True
      have p: "unat (word_of_int (int (at s)) :: u32) = at s" using unat_pos [OF 2(2), of "at s"] 2(4) by simp
      then obtain s2 where s2: "op_seek ops (word_of_int (int (at s))) s1 = (True, s2)" "inv s2"
          "content s2 = content s1" "at s2 = at s"
        using seek [OF 2(2), of "word_of_int (int (at s))"] 2(3,5) by auto
      have "answered s (Inr (Some (Node start ps type child None), s2))"
        using s2 2(3) True by (intro answeredI) (simp_all add: stopped_def)
      then show ?thesis using 2(1,4) t s2(1) start True by (simp add: after_end_def)
    next
      case False
      have "answered s (Inr (None, op_bad ops s1))"
        using bad [OF 2(2)] 2 by (intro answeredI) simp_all
      then show ?thesis using 2(1) start False by (simp add: after_end_def)
    qed
  qed
qed

lemma parse_answered:
  "(\<forall>s start. inv s \<longrightarrow> length (content s) - at s < n \<longrightarrow> answered s (parse_node ops n start s))
   \<and> (\<forall>s start type ps child set. inv s \<longrightarrow> length (content s) - at s < n \<longrightarrow> (child = None \<or> stopped s) \<longrightarrow>
        answered s (parse_body ops n start type ps child set s))"
proof (induction n)
  case (Suc n)
  have node: "answered s (parse_node ops n start s)"
    if "inv s" "length (content s) - at s < n" for s start
    using Suc that by blast
  have body: "answered s (parse_body ops n start type ps child set s)"
    if "inv s" "length (content s) - at s < n" "child = None \<or> stopped s" for s start type ps child set
    using Suc that by blast
  show ?case
  proof (intro conjI allI impI)
    fix s start
    assume s: "inv s" "length (content s) - at s < Suc n"
    from s(1) show "answered s (parse_node ops (Suc n) start s)"
    proof (cases rule: read_cases)
      case (1 s')
      then have "answered s (Inr (None, s'))" by (intro answeredI) simp_all
      then show ?thesis using 1(1) by simp
    next
      case (2 s')
      then have "answered s' (parse_body ops n start (word_of_int (uint (content s ! at s))) 0 None False s')"
        using s(2) by (intro body) auto
      then have "answered s (parse_body ops n start (word_of_int (uint (content s ! at s))) 0 None False s')"
        by (rule answered_mono) (simp_all add: 2)
      then show ?thesis using 2(1) by simp
    qed
  next
    fix s start type ps set and child :: "node option"
    assume s: "inv s" "length (content s) - at s < Suc n" and child: "child = None \<or> stopped s"
    from s(1) show "answered s (parse_body ops (Suc n) start type ps child set s)"
    proof (cases rule: read_cases)
      case (1 s')
      then have "answered s (Inr (None, s'))" by (intro answeredI) simp_all
      then show ?thesis using 1(1) by simp
    next
      case (2 s1)
      note t = tell_word [OF 2(2), of "at s"]
      let ?b = "uint (content s ! at s)"
      have less: "length (content s1) - at s1 < n" using s(2) 2 by simp
      consider "?b = NODE_START" | "?b = NODE_END" | "?b = ESCAPE_CHAR"
        | "?b \<noteq> NODE_START" "?b \<noteq> NODE_END" "?b \<noteq> ESCAPE_CHAR" by blast
      then show ?thesis
      proof cases
        case 1
        then have none: "child = None" using child 2(5) by (auto simp: stopped_def)
        obtain r s2 where s2: "parse_node ops n (word_of_int (int (at s))) s1 = Inr (r, s2)" "inv s2"
            "content s2 = content s1" "at s1 \<le> at s2" "r \<noteq> None \<longrightarrow> stopped s2"
          using node [OF 2(2) less] unfolding answered_def by blast
        show ?thesis
        proof (cases r)
          case None
          then have "answered s (Inr (None, s2))" using s2 2 by (intro answeredI) simp_all
          then show ?thesis using 1 2(1,4) t none s2(1) None by simp
        next
          case (Some c)
          have "answered s2 (parse_body ops n start type (word_of_int (int (at s)) - start - 2) (Some c) True s2)"
            using s2 less Some 2(3) by (intro body) auto
          then have "answered s (parse_body ops n start type (word_of_int (int (at s)) - start - 2) (Some c) True s2)"
            by (rule answered_mono) (use s2 2 in simp_all)
          then show ?thesis using 1 2(1,4) t none s2(1) Some by simp
        qed
      next
        case end_byte: 2
        let ?ps = "if set then ps else word_of_int (int (at s)) - start - 2"
        have "answered s1 (after_end n start ?ps type child s1)"
          by (rule after_end_answered) (use 2 less node in auto)
        then have "answered s (after_end n start ?ps type child s1)"
          by (rule answered_mono) (simp_all add: 2)
        moreover have "parse_body ops (Suc n) start type ps child set s = after_end n start ?ps type child s1"
          using end_byte 2(1,4) t by (cases set) (simp_all add: after_end_def)
        ultimately show ?thesis by simp
      next
        case esc: 3
        from 2(2) show ?thesis
        proof (cases rule: read_cases)
          case (1 s2)
          then have "answered s (Inr (None, s2))" using 2 by (intro answeredI) simp_all
          then show ?thesis using esc 2(1) 1(1) by simp
        next
          case s2: (2 s2)
          have "child = None" using child 2(5) esc by (auto simp: stopped_def)
          then have "answered s2 (parse_body ops n start type ps child set s2)"
            using s2 less by (intro body) auto
          then have "answered s (parse_body ops n start type ps child set s2)"
            by (rule answered_mono) (use 2 s2 in simp_all)
          then show ?thesis using esc 2(1) s2(1) by simp
        qed
      next
        case 4
        have "child = None" using child 2(5) 4 by (auto simp: stopped_def)
        then have "answered s1 (parse_body ops n start type ps child set s1)"
          using 2 less by (intro body) auto
        then have "answered s (parse_body ops n start type ps child set s1)"
          by (rule answered_mono) (use 2 in simp_all)
        then show ?thesis using 4 2(1) by simp
      qed
    qed
  qed
qed simp

end


section \<open>Trees and their bytes\<close>

datatype tree = Tree (tree_type: u8) (tree_props: bytes) (tree_children: "tree list")

definition escaped :: "bytes \<Rightarrow> bytes" where
  "escaped bs = concat (map (\<lambda>c. if special_byte c then [0xFD, c] else [c]) bs)"

fun encode_tree :: "tree \<Rightarrow> bytes" where
  "encode_tree (Tree ty ps ts) = 0xFE # escaped [ty] @ escaped ps @ concat (map encode_tree ts) @ [0xFF]"

abbreviation encode_forest :: "tree list \<Rightarrow> bytes" where
  "encode_forest ts \<equiv> concat (map encode_tree ts)"

fun plain_types :: "tree \<Rightarrow> bool" where
  "plain_types (Tree ty ps ts) \<longleftrightarrow> \<not> special_byte ty \<and> list_all plain_types ts"

text \<open>The linked nodes the parser should build for trees whose first byte is at offset \<open>off\<close>.\<close>

fun mk_nodes :: "nat \<Rightarrow> tree list \<Rightarrow> node option" where
  "mk_nodes off [] = None"
| "mk_nodes off (Tree ty ps ts # us) =
     Some (Node (word_of_nat off) (word_of_nat (length (escaped ps))) (ucast ty)
       (mk_nodes (off + 2 + length (escaped ps)) ts)
       (mk_nodes (off + length (encode_tree (Tree ty ps ts))) us))"

lemma escaped_simps [simp]:
  "escaped [] = []"
  "escaped (c # cs) = (if special_byte c then [0xFD, c] else [c]) @ escaped cs"
  by (simp_all add: escaped_def)

lemma length_escaped: "length ps \<le> length (escaped ps)"
  by (induction ps) auto

lemma special_byte_plain: "\<not> special_byte c \<Longrightarrow> uint c \<noteq> 0xFE \<and> uint c \<noteq> 0xFF \<and> uint c \<noteq> 0xFD"
  by (simp add: special_byte_def)

lemma encode_forest_front:
  assumes "ts \<noteq> []"
  obtains r where "encode_forest ts = 0xFE # r"
  using assms by (cases ts; cases "hd ts") auto

context byte_source
begin

definition remaining :: "'s \<Rightarrow> bytes" where
  "remaining s = drop (at s) (content s)"

definition advanced :: "nat \<Rightarrow> 's \<Rightarrow> 's \<Rightarrow> bool" where
  "advanced k s s' \<longleftrightarrow> inv s' \<and> content s' = content s \<and> at s' = at s + k"

lemma advanced_trans: "advanced j s s1 \<Longrightarrow> advanced k s1 s2 \<Longrightarrow> advanced (j + k) s s2"
  by (simp add: advanced_def)

lemma advanced_remaining: "advanced k s s' \<Longrightarrow> remaining s = xs @ ys \<Longrightarrow> length xs = k \<Longrightarrow> remaining s' = ys"
proof -
  assume "advanced k s s'" "remaining s = xs @ ys" "length xs = k"
  then have "remaining s' = drop k (drop (at s) (content s))"
    unfolding drop_drop by (simp add: remaining_def advanced_def add.commute)
  then have "remaining s' = drop k (remaining s)" by (simp add: remaining_def)
  then show "remaining s' = ys" using \<open>remaining s = xs @ ys\<close> \<open>length xs = k\<close> by simp
qed

lemma read_byte:
  assumes "inv s" "remaining s = b # xs"
  obtains s' where "op_read ops s = (Some (uint b), s')" "advanced 1 s s'" "remaining s' = xs"
proof -
  have l: "at s < length (content s)" using assms(2) by (cases "at s < length (content s)") (auto simp: remaining_def)
  have b: "content s ! at s = b" using assms(2) l by (simp add: remaining_def Cons_nth_drop_Suc [symmetric])
  obtain s' where s': "op_read ops s = (Some (uint b), s')" "advanced 1 s s'"
    using read_more [OF assms(1) l] b by (auto simp: advanced_def)
  moreover from this have "remaining s' = xs" using advanced_remaining [of 1 s s' "[b]" xs] assms(2) by simp
  ultimately show ?thesis by (rule that)
qed

lemma read_eof:
  assumes "inv s" "remaining s = []"
  obtains s' where "op_read ops s = (None, s')" "advanced 0 s s'"
  using read_end [OF assms(1)] bound [OF assms(1)] assms(2) that by (auto simp: advanced_def remaining_def)

text \<open>The inner loop runs over escaped property bytes without noticing any of them.\<close>

lemma scan_props:
  "inv s \<Longrightarrow> remaining s = escaped ps @ xs \<Longrightarrow>
   \<exists>s'. parse_body ops (length ps + n) start ty p child sp s = parse_body ops n start ty p child sp s'
     \<and> advanced (length (escaped ps)) s s'"
proof (induction ps arbitrary: s)
  case Nil
  then show ?case by (auto simp: advanced_def)
next
  case (Cons c ps)
  show ?case
  proof (cases "special_byte c")
    case True
    then have "remaining s = 0xFD # c # escaped ps @ xs" using Cons.prems by simp
    then obtain s1 where s1: "op_read ops s = (Some (uint (0xFD :: u8)), s1)" "advanced 1 s s1"
        "remaining s1 = c # escaped ps @ xs"
      using read_byte [OF Cons.prems(1)] by blast
    moreover have "inv s1" using s1(2) by (simp add: advanced_def)
    ultimately obtain s2 where "op_read ops s1 = (Some (uint c), s2)" "advanced 1 s1 s2"
        "remaining s2 = escaped ps @ xs"
      using read_byte by blast
    then show ?thesis using Cons.IH [of s2] True s1 by (auto simp: advanced_def)
  next
    case False
    then obtain s1 where s1: "op_read ops s = (Some (uint c), s1)" "advanced 1 s s1"
        "remaining s1 = escaped ps @ xs"
      using read_byte [OF Cons.prems(1), of c "escaped ps @ xs"] Cons.prems(2) by auto
    then show ?thesis using Cons.IH [of s1] False special_byte_plain [OF False] by (auto simp: advanced_def)
  qed
qed

lemma after_end_tree:
  assumes s: "inv s" "remaining s = encode_forest us @ rest" "rest = [] \<or> (\<exists>r. rest = 0xFF # r)"
    and node: "us \<noteq> [] \<Longrightarrow> \<forall>s1. advanced 1 s s1 \<longrightarrow> (\<exists>s'. parse_node ops n (word_of_nat (at s)) s1
      = Inr (mk_nodes (at s) us, s') \<and> advanced (length (encode_forest us)) s s')"
  shows "\<exists>s'. after_end n start ps ty child s = Inr (Some (Node start ps ty child (mk_nodes (at s) us)), s')
    \<and> advanced (length (encode_forest us)) s s'"
proof (cases "us = []")
  case empty: True
  from s(3) show ?thesis
  proof
    assume "rest = []"
    then obtain s1 where "op_read ops s = (None, s1)" "advanced 0 s s1"
      using read_eof [OF s(1)] s(2) empty by auto
    then show ?thesis using empty by (simp add: after_end_def)
  next
    assume "\<exists>r. rest = 0xFF # r"
    then obtain r where "remaining s = 0xFF # r" using s(2) empty by auto
    then obtain s1 where s1: "op_read ops s = (Some 0xFF, s1)" "advanced 1 s s1"
      using read_byte [OF s(1), of "0xFF" r] by auto
    then have i: "inv s1" "at s1 = Suc (at s)" "content s1 = content s" by (simp_all add: advanced_def)
    have p: "unat (word_of_int (int (at s)) :: u32) = at s" using unat_pos [OF i(1), of "at s"] i(2) by simp
    then obtain s2 where "op_seek ops (word_of_int (int (at s))) s1 = (True, s2)" "advanced 0 s s2"
      using seek [OF i(1), of "word_of_int (int (at s))"] bound [OF s(1)] i(3) by (auto simp: advanced_def)
    then show ?thesis using s1(1) tell_word [OF i(1,2)] empty by (simp add: after_end_def)
  qed
next
  case False
  then obtain r where "encode_forest us = 0xFE # r" by (rule encode_forest_front)
  then have "remaining s = 0xFE # r @ rest" using s(2) by simp
  then obtain s1 where s1: "op_read ops s = (Some 0xFE, s1)" "advanced 1 s s1"
    using read_byte [OF s(1), of "0xFE" "r @ rest"] by auto
  then have i: "inv s1" "at s1 = Suc (at s)" by (simp_all add: advanced_def)
  obtain s' where "parse_node ops n (word_of_nat (at s)) s1 = Inr (mk_nodes (at s) us, s')"
      "advanced (length (encode_forest us)) s s'"
    using node [OF False] s1(2) by blast
  moreover obtain nx where "mk_nodes (at s) us = Some nx"
    using False by (cases us; cases "hd us") auto
  ultimately show ?thesis using s1(1) tell_word [OF i] by (simp add: after_end_def)
qed

lemma body_end:
  assumes "op_read ops s = (Some 0xFF, s1)" "\<not> sp \<longrightarrow> op_tell ops s1 = (Some pos, s1)"
  shows "parse_body ops (Suc n) start ty p child sp s
    = after_end n start (if sp then p else word_of_int pos - start - 2) ty child s1"
  using assms by (cases sp) (simp_all add: after_end_def)

lemma body_child:
  assumes "op_read ops s = (Some 0xFE, s1)" "op_tell ops s1 = (Some pos, s1)"
    and "parse_node ops n (word_of_int pos) s1 = Inr (Some c, s2)"
  shows "parse_body ops (Suc n) start ty p None sp s
    = parse_body ops n start ty (word_of_int pos - start - 2) (Some c) True s2"
  using assms by simp

lemma props_size: "word_of_nat (off + 2 + k) - word_of_nat off - 2 = (word_of_nat k :: u32)"
  by simp

lemma parse_tree:
  "ts \<noteq> [] \<Longrightarrow> list_all plain_types ts \<Longrightarrow> inv s \<Longrightarrow> at s = off \<Longrightarrow>
   remaining s = encode_forest ts @ rest \<Longrightarrow> rest = [] \<or> (\<exists>r. rest = 0xFF # r) \<Longrightarrow>
   length (encode_forest ts) \<le> n \<Longrightarrow> advanced 1 s s1 \<Longrightarrow>
   \<exists>s'. parse_node ops n (word_of_nat off) s1 = Inr (mk_nodes off ts, s')
     \<and> advanced (length (encode_forest ts)) s s'"
proof (induction off ts arbitrary: s s1 rest n rule: mk_nodes.induct)
  case (2 off ty ps ts us)
  let ?e = "length (escaped ps)" and ?start = "word_of_nat off :: u32"
  let ?t = "Tree ty ps ts" and ?after = "encode_forest us @ rest"
  have ty: "\<not> special_byte ty" and plain: "list_all plain_types ts" "list_all plain_types us"
    using "2.prems"(2) by simp_all
  have rem: "remaining s = 0xFE # ty # escaped ps @ encode_forest ts @ 0xFF # ?after"
    using "2.prems"(5) ty by simp
  obtain m where n: "n = Suc (length ps + Suc m)"
      and m: "length (encode_forest ts) + length (encode_forest us) < m"
  proof
    show "n = Suc (length ps + Suc (n - 2 - length ps))"
      using "2.prems"(7) length_escaped [of ps] ty by simp
    show "length (encode_forest ts) + length (encode_forest us) < n - 2 - length ps"
      using "2.prems"(7) length_escaped [of ps] ty by simp
  qed
  have s1: "inv s1" "remaining s1 = ty # escaped ps @ encode_forest ts @ 0xFF # ?after"
    using "2.prems"(8) advanced_remaining [OF "2.prems"(8), of "[0xFE]"] rem by (auto simp: advanced_def)
  obtain s2 where s2: "op_read ops s1 = (Some (uint ty), s2)" "advanced 1 s1 s2"
      "remaining s2 = escaped ps @ encode_forest ts @ 0xFF # ?after"
    using read_byte [OF s1] by blast
  have "inv s2" using s2(2) by (simp add: advanced_def)
  from scan_props [OF this s2(3)] obtain s3 where
      s3: "parse_body ops (length ps + Suc m) ?start (word_of_int (uint ty)) 0 None False s2
        = parse_body ops (Suc m) ?start (word_of_int (uint ty)) 0 None False s3" "advanced ?e s2 s3"
    by blast
  have rem3: "remaining s3 = encode_forest ts @ 0xFF # ?after"
    using advanced_remaining [OF s3(2) s2(3)] by simp
  have m3: "advanced (2 + ?e) s s3"
    using advanced_trans [OF advanced_trans [OF "2.prems"(8) s2(2)] s3(2)] by simp
  then have i3: "inv s3" "at s3 = off + 2 + ?e" using "2.prems"(4) by (simp_all add: advanced_def)
  have u: "word_of_int (uint ty) = (ucast ty :: u32)" by (rule ucast_eq [symmetric])
  have parse: "parse_node ops n ?start s1 = parse_body ops (Suc m) ?start (ucast ty) 0 None False s3"
    unfolding n parse_node.simps(2) s2(1) prod.case option.case using s3(1) unfolding u .
  have psz: "word_of_int (int (off + 2 + ?e)) - ?start - 2 = (word_of_nat ?e :: u32)"
    using props_size [of off ?e] by simp
  obtain k s4 where s4: "parse_body ops (Suc m) ?start (ucast ty) 0 None False s3
        = after_end k ?start (word_of_nat ?e) (ucast ty) (mk_nodes (off + 2 + ?e) ts) s4"
      "length (encode_forest us) \<le> k" "advanced (length (encode_forest ts) + 1) s3 s4"
  proof (cases "ts = []")
    case True
    then have r: "remaining s3 = 0xFF # ?after" using rem3 by simp
    obtain s4 where s4: "op_read ops s3 = (Some (uint (0xFF :: u8)), s4)" "advanced 1 s3 s4"
      using read_byte [OF i3(1) r] by blast
    have "op_tell ops s4 = (Some (int (off + 2 + ?e)), s4)"
      using s4(2) i3(2) by (intro tell_word) (simp_all add: advanced_def)
    then have "parse_body ops (Suc m) ?start (ucast ty) 0 None False s3
        = after_end m ?start (word_of_nat ?e) (ucast ty) None s4"
      using body_end [of s3 s4 False "int (off + 2 + ?e)" m ?start "ucast ty" 0 None] s4(1) psz by simp
    then show ?thesis using that [of m s4] m True s4(2) by simp
  next
    case False
    then obtain r where r: "encode_forest ts = 0xFE # r" by (rule encode_forest_front)
    then have r3: "remaining s3 = 0xFE # r @ 0xFF # ?after" using rem3 by simp
    obtain s4 where s4: "op_read ops s3 = (Some (uint (0xFE :: u8)), s4)" "advanced 1 s3 s4"
      using read_byte [OF i3(1) r3] by blast
    have t: "op_tell ops s4 = (Some (int (off + 2 + ?e)), s4)"
      using s4(2) i3(2) by (intro tell_word) (simp_all add: advanced_def)
    have le: "length (encode_forest ts) \<le> m" using m by simp
    have "\<exists>s'. parse_node ops m (word_of_nat (off + 2 + ?e)) s4 = Inr (mk_nodes (off + 2 + ?e) ts, s')
        \<and> advanced (length (encode_forest ts)) s3 s'"
      by (rule "2.IH"(1) [OF False plain(1) i3(1) i3(2) rem3 _ le s4(2)]) blast
    then obtain s5 where s5: "parse_node ops m (word_of_nat (off + 2 + ?e)) s4
          = Inr (mk_nodes (off + 2 + ?e) ts, s5)" "advanced (length (encode_forest ts)) s3 s5" by blast
    obtain c where c: "mk_nodes (off + 2 + ?e) ts = Some c"
      using False by (cases ts; cases "hd ts") auto
    obtain m' where m': "m = Suc m'" using m by (cases m) simp_all
    have r5: "remaining s5 = 0xFF # ?after" using advanced_remaining [OF s5(2) rem3] by simp
    have "inv s5" using s5(2) by (simp add: advanced_def)
    then obtain s6 where s6: "op_read ops s5 = (Some (uint (0xFF :: u8)), s6)" "advanced 1 s5 s6"
      using read_byte [OF _ r5] by blast
    have "parse_body ops (Suc m) ?start (ucast ty) 0 None False s3
        = parse_body ops m ?start (ucast ty) (word_of_nat ?e) (Some c) True s5"
      using body_child [of s3 s4 "int (off + 2 + ?e)" m c s5 ?start "ucast ty" 0 False] s4(1) t s5(1) c psz
      by simp
    also have "\<dots> = after_end m' ?start (word_of_nat ?e) (ucast ty) (Some c) s6"
      unfolding m' using body_end [of s5 s6 True] s6(1) by simp
    finally show ?thesis
      using that [of m' s6] m m' c advanced_trans [OF s5(2) s6(2)] by simp
  qed
  have m4: "advanced (length (encode_tree ?t)) s s4"
    using advanced_trans [OF m3 s4(3)] ty by (simp add: algebra_simps)
  then have i4: "inv s4" "at s4 = off + length (encode_tree ?t)"
    using "2.prems"(4) by (simp_all add: advanced_def)
  have rem4: "remaining s4 = encode_forest us @ rest"
    using advanced_remaining [OF s4(3), of "encode_forest ts @ [0xFF]"] rem3 by simp
  have "\<exists>s'. after_end k ?start (word_of_nat ?e) (ucast ty) (mk_nodes (off + 2 + ?e) ts) s4
      = Inr (Some (Node ?start (word_of_nat ?e) (ucast ty) (mk_nodes (off + 2 + ?e) ts) (mk_nodes (at s4) us)), s')
      \<and> advanced (length (encode_forest us)) s4 s'"
  proof (rule after_end_tree [OF i4(1) rem4 "2.prems"(6)], intro allI impI)
    fix s5 assume "us \<noteq> []" "advanced 1 s4 s5"
    then show "\<exists>s'. parse_node ops k (word_of_nat (at s4)) s5 = Inr (mk_nodes (at s4) us, s')
        \<and> advanced (length (encode_forest us)) s4 s'"
      using "2.IH"(2) [OF _ plain(2) i4(1,2) rem4 "2.prems"(6) s4(2)] i4(2) by simp
  qed
  then obtain s' where s': "parse_node ops n ?start s1 = Inr (mk_nodes off (?t # us), s')"
      "advanced (length (encode_forest us)) s4 s'"
    using parse s4(1) i4(2) by auto
  have "length (encode_forest (?t # us)) = length (encode_tree ?t) + length (encode_forest us)"
    by (simp only: list.map concat.simps length_append)
  then show ?case using s'(1) advanced_trans [OF m4 s'(2)] by (simp only:) blast
qed simp

end

end
