(* ===== verification/File_Sources.thy ===== *)
theory File_Sources
  imports File_Tree
begin

text \<open>
  Both ways of reading a file meet the contract \<open>byte_source\<close>: the \<^verbatim>\<open>FILE\<close> itself, and the cache
  of three blocks whose size \<^verbatim>\<open>openFile\<close> picks between 8192 and 32768 bytes (and which need not be
  a power of two).  The parser's theorems therefore hold of both, and with the writer's output
  they give the round trip of the node format.
\<close>

section \<open>Reading from the file\<close>

text \<open>\<open>b\<close> is the size of the property buffer, which neither reading nor seeking changes.\<close>

definition disk_inv :: "u32 \<Rightarrow> file_loader \<Rightarrow> bool" where
  "disk_inv b st \<longleftrightarrow> fl_buffer_size st = b \<and> \<not> fl_use_cache st \<and> fl_pos st \<le> length (fl_file st) \<and> length (fl_file st) < 2 ^ 31"

interpretation disk: byte_source loader_ops fl_file fl_pos "disk_inv b" for b
proof (unfold_locales, goal_cases)
  case (3 s)
  then show ?case by (simp add: loader_ops_def safeTell_def disk_inv_def)
qed (auto simp: loader_ops_def readByte_def fgetc_def safeSeek_def disk_inv_def)

section \<open>Reading from the cache\<close>

definition cache_sizes :: "u32 set" where
  "cache_sizes = {8192, 16384, 24576, 32768}"

definition block_ok :: "u32 \<Rightarrow> bytes \<Rightarrow> cache_block \<Rightarrow> bool" where
  "block_ok cs file b \<longleftrightarrow>
     (cb_loaded b \<longrightarrow> unat (cb_base b) \<le> length file
        \<and> cb_data b = take (unat cs) (drop (unat (cb_base b)) file))"

definition blocks_ok :: "file_loader \<Rightarrow> bool" where
  "blocks_ok st \<longleftrightarrow> fl_use_cache st \<and> fl_cache_size st \<in> cache_sizes \<and> length (fl_file st) < 2 ^ 31
     \<and> length (fl_cached st) = 3 \<and> list_all (block_ok (fl_cache_size st) (fl_file st)) (fl_cached st)"

definition cache_at :: "file_loader \<Rightarrow> nat" where
  "cache_at st = unat (cb_base (block_of st (fl_cache_index st))) + unat (fl_cache_offset st)"

definition cache_inv :: "u32 \<Rightarrow> file_loader \<Rightarrow> bool" where
  "cache_inv b st \<longleftrightarrow> fl_buffer_size st = b \<and> blocks_ok st \<and> unat (fl_cache_index st) < 3
     \<and> cb_loaded (block_of st (fl_cache_index st))
     \<and> unat (fl_cache_offset st) \<le> block_size st (fl_cache_index st)"

lemma base_le:
  fixes pos m :: u32
  shows "pos AND NOT m \<le> pos" "pos - (pos AND NOT m) = pos AND m"
proof -
  have "pos = (pos AND NOT m) + (pos AND m)"
    by (subst disjunctive_add) (auto simp: bit_simps intro: bit_word_eqI)
  then show "pos - (pos AND NOT m) = pos AND m" by (metis add_diff_cancel_left')
  show "pos AND NOT m \<le> pos" by (rule word_and_le2)
qed

lemma cache_size_bounds: "cs \<in> cache_sizes \<Longrightarrow> 0 < unat cs \<and> unat cs \<le> 32768 \<and> unat (cs - 1) < unat cs"
  by (auto simp: cache_sizes_def)

text \<open>A position lies in the block its base names, less than a block size behind the base.\<close>

lemma block_base_near:
  assumes "fl_cache_size st \<in> cache_sizes"
  shows "unat (block_base st pos) \<le> unat pos"
    and "unat (pos - block_base st pos) = unat pos - unat (block_base st pos)"
    and "unat (pos - block_base st pos) < unat (fl_cache_size st)"
proof -
  have le: "block_base st pos \<le> pos" by (simp add: block_base_def base_le)
  then show "unat (block_base st pos) \<le> unat pos" by (simp add: word_le_nat_alt)
  show "unat (pos - block_base st pos) = unat pos - unat (block_base st pos)" by (rule unat_sub [OF le])
  have "pos - block_base st pos = pos AND (fl_cache_size st - 1)" by (simp add: block_base_def base_le)
  also have "\<dots> \<le> fl_cache_size st - 1" by (rule word_and_le1)
  finally show "unat (pos - block_base st pos) < unat (fl_cache_size st)"
    using cache_size_bounds [OF assms] by (simp add: word_le_nat_alt)
qed

lemma first_index_Some: "first_index P xs = Some i \<Longrightarrow> i < length xs \<and> P (xs ! i)"
  by (induction xs arbitrary: i) (auto split: if_splits)

lemma loading_cache_less: "length (fl_cached st) = 3 \<Longrightarrow> loading_cache st pos < 3"
  by (auto simp: loading_cache_def split: option.split dest: first_index_Some)

definition cache_frame :: "file_loader \<Rightarrow> file_loader \<Rightarrow> bool" where
  "cache_frame st st' \<longleftrightarrow> fl_file st' = fl_file st \<and> fl_cache_size st' = fl_cache_size st
     \<and> fl_use_cache st' = fl_use_cache st \<and> fl_buffer_size st' = fl_buffer_size st"

lemma getCacheBlock_ok:
  assumes "blocks_ok st" "unat pos \<le> length (fl_file st)"
  obtains i st' where "getCacheBlock pos st = (i, st')" "blocks_ok st'" "cache_frame st st'" "unat i < 3"
    "cb_loaded (block_of st' i)" "cb_base (block_of st' i) = block_base st pos"
proof (cases "first_index (\<lambda>b. cb_loaded b \<and> cb_base b = block_base st pos) (fl_cached st)")
  case (Some i)
  then have i: "i < length (fl_cached st)" "cb_loaded (fl_cached st ! i)"
      "cb_base (fl_cached st ! i) = block_base st pos"
    using first_index_Some by blast+
  then have "i < 3" using assms(1) by (simp add: blocks_ok_def)
  then have "unat (word_of_nat i :: u32) = i" by (simp add: unat_of_nat)
  then show ?thesis
    using that [of "word_of_nat i" st] Some i assms(1) \<open>i < 3\<close>
    by (simp add: getCacheBlock_def block_of_def cache_frame_def)
next
  case None
  let ?i = "loading_cache st pos" and ?b = "block_base st pos"
  let ?data = "take (unat (fl_cache_size st)) (drop (unat ?b) (fl_file st))"
  have len3: "length (fl_cached st) = 3" and cs: "fl_cache_size st \<in> cache_sizes"
    using assms(1) by (simp_all add: blocks_ok_def)
  have i: "?i < 3" by (rule loading_cache_less [OF len3])
  then have ui: "unat (word_of_int (int ?i) :: u32) = ?i" by (simp add: unat_of_nat)
  note near = block_base_near [OF cs, of pos]
  have "length ?data \<le> unat (fl_cache_size st)" by simp
  moreover have "(32768 :: nat) < 2 ^ 32" by simp
  ultimately have "length ?data < 2 ^ 32" using cache_size_bounds [OF cs] by linarith
  then have ud: "unat (word_of_nat (length ?data) :: u32) = length ?data"
    unfolding unat_of_nat by simp
  have "unat pos - unat ?b \<le> length ?data" using near assms(2) by simp
  then have enough: "\<not> (word_of_nat (length ?data) :: u32) < pos - ?b"
    unfolding word_less_nat_alt ud near(2) by (simp only: not_less)
  let ?blk = "(fl_cached st ! ?i)\<lparr>cb_base := ?b, cb_data := ?data\<rparr>\<lparr>cb_loaded := True\<rparr>"
  let ?st = "st\<lparr>fl_pos := unat ?b + length ?data, fl_cached := (fl_cached st)[?i := ?blk]\<rparr>"
  have g: "getCacheBlock pos st = (word_of_int (int ?i), ?st)"
    using None enough by (simp add: getCacheBlock_def loadCacheBlock_def Let_def)
  have "block_ok (fl_cache_size st) (fl_file st) ?blk"
    using near(1) assms(2) by (simp add: block_ok_def)
  then have ok: "blocks_ok ?st" using assms(1)
    by (auto simp: blocks_ok_def list_all_iff dest: set_update_subset_insert [THEN subsetD])
  have blk: "block_of ?st (word_of_int (int ?i)) = ?blk"
    using i len3 ui by (simp add: block_of_def)
  show ?thesis
    using that [OF g ok] i ui blk by (simp add: cache_frame_def)
qed


lemma block_size_eq:
  assumes "blocks_ok st" "unat i < 3" "cb_loaded (block_of st i)"
  shows "block_size st i = min (unat (fl_cache_size st)) (length (fl_file st) - unat (cb_base (block_of st i)))"
    and "unat (cb_base (block_of st i)) \<le> length (fl_file st)"
    and "k < block_size st i \<Longrightarrow> cb_data (block_of st i) ! k = fl_file st ! (unat (cb_base (block_of st i)) + k)"
proof -
  have "block_of st i \<in> set (fl_cached st)"
    using assms(1,2) by (simp add: block_of_def blocks_ok_def)
  then have ok: "block_ok (fl_cache_size st) (fl_file st) (block_of st i)"
    using assms(1) by (simp add: blocks_ok_def list_all_iff)
  then have d: "cb_data (block_of st i)
      = take (unat (fl_cache_size st)) (drop (unat (cb_base (block_of st i))) (fl_file st))"
    and le: "unat (cb_base (block_of st i)) \<le> length (fl_file st)"
    using assms(3) by (simp_all add: block_ok_def)
  show "unat (cb_base (block_of st i)) \<le> length (fl_file st)" by (rule le)
  show "block_size st i = min (unat (fl_cache_size st)) (length (fl_file st) - unat (cb_base (block_of st i)))"
    by (simp add: block_size_def d min.commute)
  show "cb_data (block_of st i) ! k = fl_file st ! (unat (cb_base (block_of st i)) + k)"
    if "k < block_size st i"
    using that le by (simp add: block_size_def d)
qed

text \<open>Moving the cursor into the block of a position: what a seek and an exhausted read share.\<close>

definition enter_block :: "u32 \<Rightarrow> u32 \<Rightarrow> file_loader \<Rightarrow> file_loader" where
  "enter_block i pos st = st\<lparr>fl_cache_index := i, fl_cache_offset := pos - cb_base (block_of st i)\<rparr>"

lemma block_of_update [simp]:
  "block_of (st\<lparr>fl_cache_index := i, fl_cache_offset := d\<rparr>) j = block_of st j"
  "block_of (st\<lparr>fl_cache_offset := d\<rparr>) j = block_of st j"
  "block_of (st\<lparr>fl_cache_index := i\<rparr>) j = block_of st j"
  by (simp_all add: block_of_def)

lemma block_size_update [simp]:
  "block_size (st\<lparr>fl_cache_index := i, fl_cache_offset := d\<rparr>) j = block_size st j"
  "block_size (st\<lparr>fl_cache_offset := d\<rparr>) j = block_size st j"
  "block_size (st\<lparr>fl_cache_index := i\<rparr>) j = block_size st j"
  by (simp_all add: block_size_def)

lemma enter_block_ok:
  assumes "blocks_ok st" "unat i < 3" "cb_loaded (block_of st i)"
    "cb_base (block_of st i) = block_base st pos" "unat pos \<le> length (fl_file st)"
    "fl_buffer_size st = b"
  shows "cache_inv b (enter_block i pos st)" "cache_at (enter_block i pos st) = unat pos"
    "fl_file (enter_block i pos st) = fl_file st"
    "(unat (fl_cache_offset (enter_block i pos st)) < block_size (enter_block i pos st) i)
       = (unat pos < length (fl_file st))"
proof -
  have cs: "fl_cache_size st \<in> cache_sizes" using assms(1) by (simp add: blocks_ok_def)
  note near = block_base_near [OF cs, of pos]
  note size = block_size_eq(1) [OF assms(1-3)]
  have off: "unat (pos - block_base st pos) \<le> block_size st i"
    using near size assms(4,5) by simp
  then show "cache_inv b (enter_block i pos st)"
    using assms by (simp add: cache_inv_def enter_block_def blocks_ok_def)
  show "cache_at (enter_block i pos st) = unat pos"
    using near assms(4) by (simp add: cache_at_def enter_block_def)
  show "fl_file (enter_block i pos st) = fl_file st" by (simp add: enter_block_def)
  show "(unat (fl_cache_offset (enter_block i pos st)) < block_size (enter_block i pos st) i)
       = (unat pos < length (fl_file st))"
    using near size assms(4,5) by (auto simp: enter_block_def)
qed

lemma cache_inv_at: "cache_inv b st \<Longrightarrow> cache_at st \<le> length (fl_file st) \<and> length (fl_file st) < 2 ^ 31"
  using block_size_eq(1,2) [of st "fl_cache_index st"]
  by (auto simp: cache_inv_def cache_at_def blocks_ok_def)

lemma cache_advance_ok:
  assumes "cache_inv b st"
  obtains st' where "cache_advance st = (cache_at st < length (fl_file st), st')" "cache_inv b st'"
    "fl_file st' = fl_file st" "cache_at st' = cache_at st"
    "cache_at st < length (fl_file st) \<longrightarrow> unat (fl_cache_offset st') < block_size st' (fl_cache_index st')"
proof (cases "unat (fl_cache_offset st) < block_size st (fl_cache_index st)")
  case True
  then have "cache_at st < length (fl_file st)"
    using block_size_eq(1) [of st "fl_cache_index st"] assms by (auto simp: cache_at_def cache_inv_def)
  then show ?thesis using that [of st] True assms by (simp add: cache_advance_def)
next
  case False
  let ?pos = "fl_cache_offset st + cb_base (block_of st (fl_cache_index st))"
  have le: "cache_at st \<le> length (fl_file st)" "length (fl_file st) < 2 ^ 31"
    using cache_inv_at [OF assms] by simp_all
  moreover have "unat ?pos = (unat (fl_cache_offset st)
      + unat (cb_base (block_of st (fl_cache_index st)))) mod 2 ^ LENGTH(32)"
    by (rule unat_word_ariths(1))
  ultimately have pos: "unat ?pos = cache_at st"
    unfolding cache_at_def by (simp only: add.commute) simp
  then have ple: "unat ?pos \<le> length (fl_file st)" using le by simp
  have bok: "blocks_ok st" using assms by (simp add: cache_inv_def)
  obtain i s1 where s1: "getCacheBlock ?pos st = (i, s1)" "blocks_ok s1" "cache_frame st s1"
      "unat i < 3" "cb_loaded (block_of s1 i)" "cb_base (block_of s1 i) = block_base st ?pos"
    by (rule getCacheBlock_ok [OF bok ple])
  have f: "fl_file s1 = fl_file st" using s1(3) by (simp add: cache_frame_def)
  have b: "cb_base (block_of s1 i) = block_base s1 ?pos"
    using s1(3,6) by (simp add: block_base_def cache_frame_def)
  have ple1: "unat ?pos \<le> length (fl_file s1)" using ple f by simp
  have bsz: "fl_buffer_size s1 = b" using s1(3) assms by (simp add: cache_frame_def cache_inv_def)
  note e = enter_block_ok [OF s1(2,4,5) b ple1 bsz]
  have nonneg: "\<not> sint i < 0"
  proof -
    have "uint i < 3" using s1(4) unfolding uint_nat by linarith
    moreover have "- (2 ^ 31) \<le> uint i" by (rule order_trans [of _ 0]) simp_all
    ultimately have "sint i = uint i" unfolding sint_uint by (intro signed_take_bit_int_eq_self) simp_all
    then show ?thesis by simp
  qed
  have "cache_advance st = (unat (fl_cache_offset (enter_block i ?pos s1)) < block_size (enter_block i ?pos s1) i,
      enter_block i ?pos s1)"
    using False s1(1) nonneg by (simp add: cache_advance_def enter_block_def Let_def)
  then show ?thesis using that [of "enter_block i ?pos s1"] e pos f by (simp add: enter_block_def)
qed


interpretation cached: byte_source loader_ops fl_file cache_at "cache_inv b" for b
proof (unfold_locales, goal_cases)
  case (1 s)
  obtain s1 where s1: "cache_advance s = (True, s1)" "cache_inv b s1" "fl_file s1 = fl_file s"
      "cache_at s1 = cache_at s" "unat (fl_cache_offset s1) < block_size s1 (fl_cache_index s1)"
    using cache_advance_ok [OF 1(1)] 1(2) by auto
  let ?i = "fl_cache_index s1" and ?s2 = "s1\<lparr>fl_cache_offset := fl_cache_offset s1 + 1\<rparr>"
  have i1: "blocks_ok s1" "unat ?i < 3" "cb_loaded (block_of s1 ?i)"
    using s1(2) by (simp_all add: cache_inv_def)
  have "unat (fl_cache_offset s1) < 2 ^ 31"
    using s1(5) block_size_eq(1) [OF i1] cache_inv_at [OF s1(2)] by auto
  then have off: "unat (fl_cache_offset s1 + 1) = unat (fl_cache_offset s1) + 1"
    by (simp add: unat_word_ariths)
  have "cb_data (block_of s1 ?i) ! unat (fl_cache_offset s1) = fl_file s ! cache_at s"
    using block_size_eq(3) [OF i1 s1(5)] s1(3,4) by (simp add: cache_at_def)
  moreover have "op_read loader_ops s = (Some (uint (cb_data (block_of s1 ?i) ! unat (fl_cache_offset s1))), ?s2)"
  proof -
    have "fl_cache_index s \<noteq> NO_VALID_CACHE" "fl_use_cache s"
      using 1(1) by (auto simp: cache_inv_def blocks_ok_def)
    then show ?thesis using s1(1) by (simp add: loader_ops_def readByte_def)
  qed
  moreover have "cache_inv b ?s2" using s1(2,5) off by (simp add: cache_inv_def blocks_ok_def)
  moreover have "cache_at ?s2 = cache_at s + 1" using s1(4) off by (simp add: cache_at_def)
  moreover have "fl_file ?s2 = fl_file s" using s1(3) by simp
  ultimately show ?case by (intro exI [of _ ?s2]) (simp only: simp_thms)
next
  case (2 s)
  obtain s1 where s1: "cache_advance s = (False, s1)" "cache_inv b s1" "fl_file s1 = fl_file s"
      "cache_at s1 = cache_at s"
    using cache_advance_ok [OF 2(1)] 2(2) by auto
  moreover have "fl_cache_index s \<noteq> NO_VALID_CACHE" "fl_use_cache s"
    using 2(1) by (auto simp: cache_inv_def blocks_ok_def)
  ultimately show ?case by (simp add: loader_ops_def readByte_def)
next
  case (3 s)
  have le: "cache_at s < 2 ^ 31" using cache_inv_at [OF 3(1)] by simp
  let ?w = "cb_base (block_of s (fl_cache_index s)) + fl_cache_offset s"
  have "unat ?w = (unat (cb_base (block_of s (fl_cache_index s))) + unat (fl_cache_offset s)) mod 2 ^ LENGTH(32)"
    by (rule unat_word_ariths(1))
  then have w: "unat ?w = cache_at s" using le by (simp add: cache_at_def)
  then have "unat (?w - 1) = cache_at s - 1" using 3(2) by (subst unat_sub) (simp_all add: word_le_nat_alt)
  then have "uint (?w - 1) = int (cache_at s) - 1" using 3(2) by (simp only: uint_nat)
  then have "sint (?w - 1) = int (cache_at s) - 1"
    unfolding sint_uint using le 3(2) by (simp add: signed_take_bit_int_eq_self)
  moreover have "fl_cache_index s \<noteq> NO_VALID_CACHE" "fl_use_cache s"
    using 3(1) by (auto simp: cache_inv_def blocks_ok_def)
  ultimately show ?case by (simp add: loader_ops_def safeTell_def)
next
  case (4 s p)
  have "blocks_ok s" using 4(1) by (simp add: cache_inv_def)
  then obtain i s1 where s1: "getCacheBlock p s = (i, s1)" "blocks_ok s1" "cache_frame s s1"
      "unat i < 3" "cb_loaded (block_of s1 i)" "cb_base (block_of s1 i) = block_base s p"
    using 4(2) by (rule getCacheBlock_ok)
  have b: "cb_base (block_of s1 i) = block_base s1 p"
    using s1(3,6) by (simp add: block_base_def cache_frame_def)
  have f: "fl_file s1 = fl_file s" "fl_use_cache s" using s1(3) 4(1)
    by (simp_all add: cache_frame_def cache_inv_def blocks_ok_def)
  have "op_seek loader_ops p s = (True, enter_block i p s1)"
    using s1(1,4) f by (auto simp: loader_ops_def safeSeek_def enter_block_def)
  moreover have "fl_buffer_size s1 = b" using s1(3) 4(1) by (simp add: cache_frame_def cache_inv_def)
  ultimately show ?case using enter_block_ok [OF s1(2,4,5) b _ \<open>fl_buffer_size s1 = b\<close>] 4(2) f by auto
next
  case (5 s)
  then show ?case
    by (simp add: loader_ops_def cache_inv_def blocks_ok_def cache_at_def block_of_def block_size_def)
next
  case (6 s)
  then show ?case by (rule cache_inv_at)
qed

end
