(* ===== verification/File_Round_Trip.thy ===== *)
theory File_Round_Trip
  imports File_Sources
begin

text \<open>
  The node files as a whole: what the writer produces for a tree, that opening it rebuilds the
  tree with the file or with the cache behind it, that \<^verbatim>\<open>getProps\<close> gives every node's properties
  back, and where the format and its buffer fall short.
\<close>

section \<open>Writing a tree\<close>

fun write_tree :: "tree \<Rightarrow> file_writer \<Rightarrow> file_writer" where
  "write_tree (Tree ty ps ts) w =
     endNode (fold write_tree ts (snd (setProps ps (startNode ty w))))"

abbreviation wrote :: "bytes \<Rightarrow> file_writer \<Rightarrow> file_writer" where
  "wrote bs w \<equiv> w\<lparr>fw_out := fw_out w @ bs, fw_room := fw_room w - length bs\<rparr>"

definition on_disk :: "bool \<Rightarrow> bytes \<Rightarrow> bytes" where
  "on_disk unescape cs = (if unescape then escaped cs else cs)"

lemma on_disk_simps [simp]:
  "on_disk u [] = []"
  "on_disk u (c # cs) = (if u \<and> special_byte c then [0xFD, c] else [c]) @ on_disk u cs"
  by (simp_all add: on_disk_def)

lemma fw_put_ok: "0 < fw_room w \<Longrightarrow> fw_put c w = (True, wrote [c] w)"
  by (simp add: fw_put_def)

lemma writeData_ok:
  "length (on_disk u cs) \<le> fw_room w \<Longrightarrow> writeData cs u w = (True, wrote (on_disk u cs) w)"
proof (induction cs arbitrary: w)
  case (Cons c cs)
  show ?case
  proof (cases "u \<and> special_byte c")
    case True
    then show ?thesis using Cons by (simp add: fw_put_ok)
  next
    case False
    then have d: "on_disk u (c # cs) = c # on_disk u cs" by auto
    then have "fw_put c w = (True, wrote [c] w)" using Cons.prems by (intro fw_put_ok) simp
    then have "writeData (c # cs) u w = writeData cs u (wrote [c] w)" using False by auto
    also have "\<dots> = (True, wrote (on_disk u cs) (wrote [c] w))" using Cons d by (intro Cons.IH) simp
    also have "wrote (on_disk u cs) (wrote [c] w) = wrote (on_disk u (c # cs)) w" unfolding d by simp
    finally show ?thesis .
  qed
qed simp

lemma startNode_ok:
  "1 + length (escaped [t]) \<le> fw_room w \<Longrightarrow> startNode t w = wrote (0xFE # escaped [t]) w"
  using writeData_ok [of False "[0xFE]" w] writeData_ok [of True "[t]" "wrote [0xFE] w"]
  by (simp add: startNode_def on_disk_def split: if_splits)

lemma endNode_ok: "1 \<le> fw_room w \<Longrightarrow> endNode w = wrote [0xFF] w"
  using writeData_ok [of False "[0xFF]" w] by (simp add: endNode_def on_disk_def)

text \<open>What the 16-bit size of \<^verbatim>\<open>setProps\<close> leaves of the properties, and of a tree.\<close>

definition cut16 :: "bytes \<Rightarrow> bytes" where
  "cut16 ps = take (length ps mod 65536) ps"

fun cut_tree :: "tree \<Rightarrow> tree" where
  "cut_tree (Tree ty ps ts) = Tree ty (cut16 ps) (map cut_tree ts)"

fun short_props :: "tree \<Rightarrow> bool" where
  "short_props (Tree ty ps ts) \<longleftrightarrow> length ps < 65536 \<and> list_all short_props ts"

lemma cut_tree_short: "short_props t \<Longrightarrow> cut_tree t = t"
  by (induction t rule: cut_tree.induct) (auto simp: cut16_def list_all_iff map_idI)

lemma plain_types_cut [simp]: "plain_types (cut_tree t) = plain_types t"
  by (induction t rule: cut_tree.induct) (auto simp: list_all_iff)

lemma setProps_ok:
  "length (escaped (cut16 ps)) \<le> fw_room w \<Longrightarrow>
   setProps ps w = (ERROR_NONE, wrote (escaped (cut16 ps)) w)"
  using writeData_ok [of True "cut16 ps" w]
  by (simp add: setProps_def on_disk_def cut16_def unat_of_nat Let_def)

lemma write_tree_ok:
  "length (encode_tree (cut_tree t)) \<le> fw_room w \<Longrightarrow> write_tree t w = wrote (encode_tree (cut_tree t)) w"
proof (induction t arbitrary: w rule: cut_tree.induct)
  case (1 ty ps ts)
  have kids: "fold write_tree us w' = wrote (encode_forest (map cut_tree us)) w'"
    if "set us \<subseteq> set ts" "length (encode_forest (map cut_tree us)) \<le> fw_room w'" for us w'
    using that
  proof (induction us arbitrary: w')
    case (Cons u us)
    then have "write_tree u w' = wrote (encode_tree (cut_tree u)) w'" by (intro "1.IH") simp_all
    then show ?case using Cons by simp
  qed simp
  have room: "2 + length (escaped [ty]) + length (escaped (cut16 ps))
      + length (encode_forest (map cut_tree ts)) \<le> fw_room w"
    using "1.prems" by simp
  let ?w1 = "wrote (0xFE # escaped [ty]) w"
  let ?w2 = "wrote (escaped (cut16 ps)) ?w1"
  let ?w3 = "wrote (encode_forest (map cut_tree ts)) ?w2"
  have "startNode ty w = ?w1" using room by (intro startNode_ok) simp
  moreover have "snd (setProps ps ?w1) = ?w2" using room setProps_ok [of ps ?w1] by simp
  moreover have "fold write_tree ts ?w2 = ?w3" using room by (intro kids) simp_all
  moreover have "endNode ?w3 = wrote [0xFF] ?w3" using room by (intro endNode_ok) simp
  ultimately show ?case by simp
qed

lemma version_bytes: "le_encode 4 0 = [0, 0, 0, 0]"
  by code_simp

lemma openFile_write_ok:
  "4 \<le> room \<Longrightarrow> openFile_write room = \<lparr>fw_out = [0, 0, 0, 0], fw_room = room - 4, fw_error = ERROR_NONE\<rparr>"
  using writeData_ok [of False "[0, 0, 0, 0]" "\<lparr>fw_out = [], fw_room = room, fw_error = ERROR_NONE\<rparr>"]
  by (simp add: openFile_write_def on_disk_def version_bytes)

section \<open>Opening what was written\<close>

definition file_of :: "tree \<Rightarrow> bytes" where
  "file_of t = [0, 0, 0, 0] @ encode_tree t"

lemma written_file:
  "length (file_of (cut_tree t)) \<le> room \<Longrightarrow>
   fw_out (write_tree t (openFile_write room)) = file_of (cut_tree t)"
  by (simp add: openFile_write_ok file_of_def write_tree_ok)

lemma version_zero: "le_decode (take 4 ([0, 0, 0, 0] @ bs)) = 0"
  by simp

definition opened :: "bytes \<Rightarrow> bool \<Rightarrow> file_loader" where
  "opened file caching =
     (let st = (loader_new file)\<lparr>fl_pos := 4\<rparr> in
      if caching then st\<lparr>fl_use_cache := True, fl_cache_size := cache_size_for (int (length file))\<rparr> else st)"

lemma whole_blocks:
  assumes "8192 \<le> m" "m \<le> (32768 :: int)"
  shows "m - m mod 8192 \<in> {8192, 16384, 24576, 32768}"
proof -
  have "m div 8192 \<ge> 1" "m div 8192 \<le> 4"
    using zdiv_mono1 [OF assms(1), of 8192] zdiv_mono1 [OF assms(2), of 8192] by simp_all
  then have "m div 8192 \<in> {1, 2, 3, 4}" by auto
  moreover have "m - m mod 8192 = 8192 * (m div 8192)" by (simp add: minus_mod_eq_mult_div)
  ultimately show ?thesis by auto
qed

lemma block_multiple:
  assumes "8192 \<le> m" "m \<le> 32768"
  shows "(word_of_int m AND NOT 0x1FFF :: u32) \<in> cache_sizes"
proof -
  let ?x = "word_of_int m :: u32" and ?y = "(word_of_int m :: u32) AND NOT 0x1FFF"
  have "uint ?x = m mod 2 ^ LENGTH(32)" by (rule uint_word_of_int)
  then have x: "uint ?x = m" using assms by simp
  have "?x AND 0x1FFF = take_bit 13 ?x" by (simp add: take_bit_eq_mask mask_eq_exp_minus_1)
  then have "uint (?x AND 0x1FFF) = take_bit 13 (uint ?x)" by (simp only: unsigned_take_bit_eq)
  then have "uint (?x - ?y) = m mod 8192" by (simp only: base_le(2) x take_bit_eq_mod) simp
  moreover have "uint (?x - ?y) = uint ?x - uint ?y"
    using base_le(1) [of ?x "0x1FFF"] by (simp only: uint_minus_simple_alt)
  ultimately have "uint ?y = m - m mod 8192" using x by linarith
  then have "uint ?y \<in> {8192, 16384, 24576, 32768}" by (simp only: whole_blocks [OF assms])
  then have "?y \<in> word_of_int ` {8192, 16384, 24576, 32768}"
    by (rule image_eqI [rotated]) (simp only: word_of_int_uint)
  then show ?thesis by (simp only: cache_sizes_def image_insert image_empty of_int_numeral)
qed

lemma cache_size_for_mem: "cache_size_for n \<in> cache_sizes"
  unfolding cache_size_for_def by (rule block_multiple) simp_all



section \<open>Opening what was written\<close>

lemma openFile_read_zero:
  "length file < 2 ^ 31 \<Longrightarrow> le_decode (take 4 file) = 0 \<Longrightarrow> 4 \<le> length file \<Longrightarrow>
   openFile_read (Some file) caching =
     (let (ok, st) = safeSeek 4 (opened file caching) in
      if \<not> ok then Inr (None, st\<lparr>fl_error := ERROR_INVALID_FORMAT\<rparr>)
      else
        let (ok, st) = safeSeek 4 st;
            (r, st) = (if ok then readByte st else (None, st))
        in if r = Some NODE_START then parseNode (length file + 2) 4 st else Inr (None, st))"
  by (simp add: openFile_read_def opened_def Let_def)

lemma opened_blocks:
  "length file < 2 ^ 31 \<Longrightarrow> blocks_ok (opened file True)"
  by (simp add: blocks_ok_def opened_def cache_size_for_mem loader_new_def block_ok_def list_all_iff)

text \<open>After the seek to the root both modes satisfy the contract of a byte source, at offset 4.\<close>

lemma opened_seek:
  assumes "length file < 2 ^ 31" "4 \<le> length file"
  shows "\<exists>st. safeSeek 4 (opened file False) = (True, st) \<and> disk_inv 1024 st \<and> fl_file st = file \<and> fl_pos st = 4"
    and "\<exists>st. safeSeek 4 (opened file True) = (True, st) \<and> cache_inv 1024 st \<and> fl_file st = file \<and> cache_at st = 4"
proof -
  show "\<exists>st. safeSeek 4 (opened file False) = (True, st) \<and> disk_inv 1024 st \<and> fl_file st = file \<and> fl_pos st = 4"
    using assms by (simp add: safeSeek_def opened_def loader_new_def disk_inv_def)
  let ?st = "opened file True"
  have f: "fl_file ?st = file" "fl_use_cache ?st" by (simp_all add: opened_def loader_new_def)
  have le: "unat (4 :: u32) \<le> length (fl_file ?st)" using assms f by simp
  obtain i s1 where s1: "getCacheBlock 4 ?st = (i, s1)" "blocks_ok s1" "cache_frame ?st s1"
      "unat i < 3" "cb_loaded (block_of s1 i)" "cb_base (block_of s1 i) = block_base ?st 4"
    by (rule getCacheBlock_ok [OF opened_blocks [OF assms(1)] le])
  have b: "cb_base (block_of s1 i) = block_base s1 4"
    using s1(3,6) by (simp add: block_base_def cache_frame_def)
  have le1: "unat (4 :: u32) \<le> length (fl_file s1)" using s1(3) le by (simp add: cache_frame_def)
  have bsz: "fl_buffer_size s1 = 1024"
    using s1(3) by (simp add: cache_frame_def opened_def loader_new_def Let_def)
  have "safeSeek 4 ?st = (True, enter_block i 4 s1)"
    using s1(1,4) f by (auto simp: safeSeek_def enter_block_def)
  then show "\<exists>st. safeSeek 4 (opened file True) = (True, st) \<and> cache_inv 1024 st \<and> fl_file st = file \<and> cache_at st = 4"
    using enter_block_ok [OF s1(2,4,5) b le1 bsz] f s1(3) by (auto simp: cache_frame_def)
qed

text \<open>A node keeps the type byte it was read with, whatever follows.\<close>

lemma parse_body_type:
  "parse_body ops n start ty ps child sz s = Inr (Some nd, s') \<Longrightarrow> node_type nd = ty"
  by (induction n arbitrary: ps child sz s)
    (auto simp: require_def bind_run_def split: option.splits prod.splits if_splits sum.splits)

lemma parse_node_type:
  assumes "parse_node ops n start s = Inr (Some nd, s')" "op_read ops s = (Some byte, s1)"
  shows "node_type nd = word_of_int byte"
  using assms by (cases n) (auto dest: parse_body_type)

context byte_source
begin

text \<open>The tail of \<^verbatim>\<open>openFile\<close>: the second seek, the start byte of the root, the parse.\<close>

definition open_root :: "nat \<Rightarrow> 's \<Rightarrow> (node option \<times> 's) run" where
  "open_root n s =
     (let (ok, s) = op_seek ops 4 s;
          (r, s) = (if ok then op_read ops s else (None, s))
      in if r = Some NODE_START then parse_node ops n 4 s else Inr (None, s))"

lemma open_root_tree:
  assumes "inv s" "content s = file_of t" "plain_types t" "length (encode_tree t) \<le> n"
  shows "\<exists>s'. open_root n s = Inr (mk_nodes 4 [t], s') \<and> inv s' \<and> content s' = file_of t"
proof -
  have "unat (4 :: u32) \<le> length (content s)" using assms(2) by (simp add: file_of_def)
  then obtain s1 where s1: "op_seek ops 4 s = (True, s1)" "inv s1" "content s1 = file_of t" "at s1 = 4"
    using seek [OF assms(1)] assms(2) by fastforce
  have rem: "remaining s1 = encode_tree t" using s1 by (simp add: remaining_def file_of_def)
  obtain r where r: "encode_tree t = 0xFE # r" by (cases t) simp
  then obtain s2 where s2: "op_read ops s1 = (Some (uint (0xFE :: u8)), s2)" "advanced 1 s1 s2"
    using read_byte [OF s1(2), of "0xFE" r] rem by metis
  have "\<exists>s'. parse_node ops n (word_of_nat 4) s2 = Inr (mk_nodes 4 [t], s')
      \<and> advanced (length (encode_forest [t])) s1 s'"
    by (rule parse_tree [of "[t]" s1 4 "[]"]) (use assms s1 s2 rem in simp_all)
  then show ?thesis using s1(1,3) s2(1) by (auto simp: open_root_def advanced_def)
qed

lemma open_root_type:
  assumes "inv s" "drop 4 (content s) = 0xFE # c # rest" "open_root n s = Inr (Some nd, s')"
  shows "node_type nd = ucast c"
proof -
  have len: "length (content s) - 4 = length rest + 2"
    using arg_cong [OF assms(2), of length] by simp
  then have "unat (4 :: u32) \<le> length (content s)" by simp
  then obtain s1 where s1: "op_seek ops 4 s = (True, s1)" "inv s1" "content s1 = content s" "at s1 = 4"
    using seek [OF assms(1)] by fastforce
  have rem: "remaining s1 = 0xFE # c # rest" using s1 assms(2) by (simp add: remaining_def)
  obtain s2 where s2: "op_read ops s1 = (Some (uint (0xFE :: u8)), s2)" "advanced 1 s1 s2"
    using read_byte [OF s1(2) rem] by blast
  have "inv s2" "remaining s2 = c # rest"
    using s2(2) s1(3,4) assms(2) drop_drop [of 1 4 "content s"] by (simp_all add: advanced_def remaining_def)
  then obtain s3 where "op_read ops s2 = (Some (uint c), s3)" using read_byte by blast
  moreover have "parse_node ops n 4 s2 = Inr (Some nd, s')"
    using assms(3) s1(1) s2(1) by (simp add: open_root_def)
  ultimately have "node_type nd = word_of_int (uint c)" by (metis parse_node_type)
  then show ?thesis by simp
qed

lemma open_root_answered:
  assumes "inv s" "4 \<le> length (content s)" "length (content s) < n"
  shows "\<exists>r s'. open_root n s = Inr (r, s')"
proof -
  obtain s1 where s1: "op_seek ops 4 s = (True, s1)" "inv s1" "content s1 = content s" "at s1 = 4"
    using seek [OF assms(1), of 4] assms(2) by auto
  from s1(2) show ?thesis
  proof (cases rule: read_cases)
    case (1 s2)
    then show ?thesis using s1(1) by (simp add: open_root_def)
  next
    case (2 s2)
    have "answered s2 (parse_node ops n 4 s2)"
      using parse_answered [of n] 2(2,3) s1(3) assms(3) by auto
    then show ?thesis using s1(1) 2(1) by (auto simp: open_root_def answered_def)
  qed
qed

end


lemma loader_ops_sel [simp]:
  "op_read loader_ops = readByte" "op_tell loader_ops = safeTell" "op_seek loader_ops = safeSeek"
  by (simp_all add: loader_ops_def)

lemma openFile_read_root:
  assumes "length file < 2 ^ 31" "4 \<le> length file" "le_decode (take 4 file) = 0"
  shows "openFile_read (Some file) False
      = disk.open_root (length file + 2) (snd (safeSeek 4 (opened file False)))"
    and "openFile_read (Some file) True
      = cached.open_root (length file + 2) (snd (safeSeek 4 (opened file True)))"
proof -
  obtain st where "safeSeek 4 (opened file False) = (True, st)" using opened_seek(1) [OF assms(1,2)] by blast
  then show "openFile_read (Some file) False
      = disk.open_root (length file + 2) (snd (safeSeek 4 (opened file False)))"
    by (simp only: openFile_read_zero [OF assms(1,3,2)] disk.open_root_def loader_ops_sel parseNode_def
      Let_def prod.case snd_conv not_True_eq_False if_False)
  obtain st where "safeSeek 4 (opened file True) = (True, st)" using opened_seek(2) [OF assms(1,2)] by blast
  then show "openFile_read (Some file) True
      = cached.open_root (length file + 2) (snd (safeSeek 4 (opened file True)))"
    by (simp only: openFile_read_zero [OF assms(1,3,2)] cached.open_root_def loader_ops_sel parseNode_def
      Let_def prod.case snd_conv not_True_eq_False if_False)
qed

text \<open>A loader that has opened \<open>file\<close>: its source meets the contract, its property buffer has \<open>b\<close> bytes.\<close>

definition serves :: "u32 \<Rightarrow> bytes \<Rightarrow> file_loader \<Rightarrow> bool" where
  "serves b file st \<longleftrightarrow> fl_file st = file \<and> (disk_inv b st \<or> cache_inv b st)"

lemma open_written_file:
  assumes "plain_types t" "length (file_of t) < 2 ^ 31"
  shows "\<exists>st. openFile_read (Some (file_of t)) caching = Inr (mk_nodes 4 [t], st)
    \<and> serves 1024 (file_of t) st"
proof -
  have z: "le_decode (take 4 (file_of t)) = 0" and l4: "4 \<le> length (file_of t)"
    by (simp_all add: file_of_def)
  have ln: "length (encode_tree t) \<le> length (file_of t) + 2" by (simp add: file_of_def)
  note root = openFile_read_root [OF assms(2) l4 z]
  show ?thesis
  proof (cases caching)
    case True
    obtain st where "safeSeek 4 (opened (file_of t) True) = (True, st)" "cache_inv 1024 st" "fl_file st = file_of t"
      using opened_seek(2) [OF assms(2) l4] by blast
    then show ?thesis
      using cached.open_root_tree [OF _ _ assms(1) ln, of _ st] root(2) True by (auto simp: serves_def)
  next
    case False
    obtain st where "safeSeek 4 (opened (file_of t) False) = (True, st)" "disk_inv 1024 st" "fl_file st = file_of t"
      using opened_seek(1) [OF assms(2) l4] by blast
    then show ?thesis
      using disk.open_root_tree [OF _ _ assms(1) ln, of _ st] root(1) False by (auto simp: serves_def)
  qed
qed

text \<open>
  C1: a node file survives the disk, up to the 16-bit size of \<^verbatim>\<open>setProps\<close>. Whatever tree with
  ordinary node types the writer stores, opening the file succeeds, with and without the cache, and
  gives nodes of the same shape, with the same types, each with the offset of its start byte and
  the size of its escaped properties. The properties of a node are those passed to \<^verbatim>\<open>setProps\<close>, cut
  to their length modulo 65536; a tree whose nodes have less than 65536 bytes each is not cut.
\<close>

theorem node_file_round_trip:
  assumes "plain_types t" "length (file_of (cut_tree t)) < 2 ^ 31" "length (file_of (cut_tree t)) \<le> room"
  shows "(\<exists>st. openFile_read (Some (fw_out (write_tree t (openFile_write room)))) caching
      = Inr (mk_nodes 4 [cut_tree t], st))
    \<and> (short_props t \<longrightarrow> cut_tree t = t)"
  using open_written_file [of "cut_tree t" caching] written_file [OF assms(3)] assms(1,2) cut_tree_short
  by auto

lemma openFile_answered:
  assumes "length file < 2 ^ 31"
  shows "\<exists>r st. openFile_read (Some file) caching = Inr (r, st)"
proof (cases "4 \<le> length file \<and> le_decode (take 4 file) = 0")
  case True
  note root = openFile_read_root [OF assms]
  show ?thesis
  proof (cases caching)
    case c: True
    obtain st where st: "safeSeek 4 (opened file True) = (True, st)" "cache_inv 1024 st" "fl_file st = file"
      using opened_seek(2) [OF assms] True by blast
    have "\<exists>r s'. cached.open_root (length file + 2) st = Inr (r, s')"
      by (rule cached.open_root_answered) (use st True in simp_all)
    then show ?thesis using root(2) st(1) c True by simp
  next
    case c: False
    obtain st where st: "safeSeek 4 (opened file False) = (True, st)" "disk_inv 1024 st" "fl_file st = file"
      using opened_seek(1) [OF assms] True by blast
    have "\<exists>r s'. disk.open_root (length file + 2) st = Inr (r, s')"
      by (rule disk.open_root_answered) (use st True in simp_all)
    then show ?thesis using root(1) st(1) c True by simp
  qed
next
  case False
  then show ?thesis by (auto simp: openFile_read_def Let_def)
qed

text \<open>
  C3: no file makes the parser hang, trip one of its assertions or run out of the model's fuel:
  for every content of less than 2^31 bytes, damaged or not, opening returns, with the tree or
  with the error.
\<close>

theorem openFile_always_returns:
  assumes "length file < 2 ^ 31"
  shows "\<exists>r st. openFile_read (Some file) caching = Inr (r, st)"
  by (rule openFile_answered [OF assms])

lemma openFile_always_returns_witness:
  "\<exists>r st. openFile_read (Some [0, 0, 0, 0, 0xFE, 0xFE, 0xFD]) True = Inr (r, st)"
  by (rule openFile_always_returns) simp

lemma node_file_round_trip_witness:
  "\<exists>st. openFile_read (Some (fw_out (write_tree (Tree 1 [0xFE, 7] [Tree 2 [] []]) (openFile_write 100)))) True
    = Inr (mk_nodes 4 [Tree 1 [0xFE, 7] [Tree 2 [] []]], st)"
  using node_file_round_trip [of "Tree 1 [0xFE, 7] [Tree 2 [] []]" 100 True]
  by (simp add: file_of_def cut16_def special_byte_def)

text \<open>
  C5: node types are written escaped but read raw. The root of every file of less than 2^31 bytes
  whose root was written with one of the three special types gets the type 0xFD, or the file is
  not opened; so the types 0xFE and 0xFF are never read back, with or without the cache.
\<close>

theorem special_types_lost:
  assumes "special_byte (tree_type t)" "length (file_of (cut_tree t)) < 2 ^ 31"
    "length (file_of (cut_tree t)) \<le> room"
  shows "\<exists>r st. openFile_read (Some (fw_out (write_tree t (openFile_write room)))) caching = Inr (r, st)
    \<and> (\<forall>nd. r = Some nd \<longrightarrow> node_type nd = 0xFD)"
proof -
  let ?f = "file_of (cut_tree t)"
  have w: "fw_out (write_tree t (openFile_write room)) = ?f" by (rule written_file [OF assms(3)])
  obtain r st where r: "openFile_read (Some ?f) caching = Inr (r, st)"
    using openFile_answered [OF assms(2)] by blast
  have z: "le_decode (take 4 ?f) = 0" and l4: "4 \<le> length ?f" by (simp_all add: file_of_def)
  obtain rest where d: "drop 4 ?f = 0xFE # 0xFD # rest"
    using assms(1) by (cases t) (simp add: file_of_def)
  have "node_type nd = 0xFD" if nd: "r = Some nd" for nd
  proof (cases caching)
    case True
    obtain s where s: "safeSeek 4 (opened ?f True) = (True, s)" "cache_inv 1024 s" "fl_file s = ?f"
      using opened_seek(2) [OF assms(2) l4] by blast
    then have "cached.open_root (length ?f + 2) s = Inr (Some nd, st)"
      using openFile_read_root(2) [OF assms(2) l4 z] r nd True by simp
    then show ?thesis using cached.open_root_type [OF s(2)] s(3) d by fastforce
  next
    case False
    obtain s where s: "safeSeek 4 (opened ?f False) = (True, s)" "disk_inv 1024 s" "fl_file s = ?f"
      using opened_seek(1) [OF assms(2) l4] by blast
    then have "disk.open_root (length ?f + 2) s = Inr (Some nd, st)"
      using openFile_read_root(1) [OF assms(2) l4 z] r nd False by simp
    then show ?thesis using disk.open_root_type [OF s(2)] s(3) d by fastforce
  qed
  then show ?thesis unfolding w using r by blast
qed

lemma special_types_lost_witness:
  "\<exists>r st. openFile_read (Some (fw_out (write_tree (Tree 0xFF [] [Tree 1 [2] []]) (openFile_write 100)))) True = Inr (r, st)
    \<and> (case r of None \<Rightarrow> True | Some nd \<Rightarrow> node_type nd = 0xFD)"
proof -
  obtain r st where "openFile_read (Some (fw_out (write_tree (Tree 0xFF [] [Tree 1 [2] []]) (openFile_write 100)))) True = Inr (r, st)"
    "\<forall>nd. r = Some nd \<longrightarrow> node_type nd = 0xFD"
    using special_types_lost [of "Tree 0xFF [] [Tree 1 [2] []]" 100 True]
    by (auto simp: file_of_def cut16_def special_byte_def)
  then show ?thesis by (auto split: option.split)
qed

end
