(* ===== verification/File_Props.thy ===== *)
theory File_Props
  imports File_Round_Trip
begin

text \<open>
  \<^verbatim>\<open>getProps\<close>: reading a node's escaped properties through the file or block by block through the
  cache, unescaping them in place, and the size of the buffer they are read into.
\<close>

section \<open>Unescaping in place\<close>

lemma take_update_next: "j < length buf \<Longrightarrow> take (Suc j) (buf[j := x]) = take j buf @ [x]"
  by (simp add: take_Suc_conv_app_nth)

lemma drop_nth: "drop i buf = x # xs \<Longrightarrow> i < length buf \<and> buf ! i = x \<and> drop (Suc i) buf = xs"
  by (metis Cons_nth_drop_Suc drop_eq_Nil2 leI list.discI list.inject)

declare unescape_loop.simps [simp del]

lemma unescape_loop_ok:
  "drop i buf = escaped qs @ rest \<Longrightarrow> i + length (escaped qs) = n \<Longrightarrow> j \<le> i \<Longrightarrow> esc \<or> i = j \<Longrightarrow>
   \<exists>buf'. unescape_loop n i j esc buf = Inr (buf', j + length qs) \<and> take (j + length qs) buf' = take j buf @ qs"
proof (induction qs arbitrary: i j esc buf)
  case Nil
  then show ?case by (simp add: unescape_loop.simps)
next
  case (Cons c qs)
  show ?case
  proof (cases "special_byte c")
    case True
    then have d: "drop i buf = 0xFD # c # escaped qs @ rest" using Cons.prems(1) by simp
    have i: "i < length buf" "buf ! i = 0xFD" "drop (Suc i) buf = c # escaped qs @ rest"
      using drop_nth [OF d] by simp_all
    have i2: "Suc i < length buf" "buf ! Suc i = c" "drop (Suc (Suc i)) buf = escaped qs @ rest"
      using drop_nth [OF i(3)] by simp_all
    let ?buf = "buf[j := c]"
    have "unescape_loop n i j esc buf = unescape_loop n (i + 2) (j + 1) True ?buf"
      using i i2 Cons.prems(2) True by (subst unescape_loop.simps) simp
    moreover have "drop (i + 2) ?buf = escaped qs @ rest"
      using i2(3) Cons.prems(3) by simp
    moreover have "i + 2 + length (escaped qs) = n" using Cons.prems(2) True by simp
    ultimately obtain buf' where "unescape_loop n i j esc buf = Inr (buf', (j + 1) + length qs)"
        "take ((j + 1) + length qs) buf' = take (j + 1) ?buf @ qs"
      using Cons.IH [of "i + 2" ?buf "j + 1" True] Cons.prems(3) by auto
    then show ?thesis using take_update_next [of j buf c] i(1) Cons.prems(3) by simp
  next
    case False
    then have d: "drop i buf = c # escaped qs @ rest" using Cons.prems(1) by simp
    have i: "i < length buf" "buf ! i = c" "drop (Suc i) buf = escaped qs @ rest"
      using drop_nth [OF d] by simp_all
    let ?buf = "if esc then buf[j := c] else buf"
    have "unescape_loop n i j esc buf = unescape_loop n (i + 1) (j + 1) esc ?buf"
      using i Cons.prems(2) False special_byte_plain [OF False]
      by (subst unescape_loop.simps) simp
    moreover have "drop (i + 1) ?buf = escaped qs @ rest"
      using i(3) Cons.prems(3) by simp
    moreover have "i + 1 + length (escaped qs) = n" using Cons.prems(2) False by simp
    ultimately obtain buf' where "unescape_loop n i j esc buf = Inr (buf', (j + 1) + length qs)"
        "take ((j + 1) + length qs) buf' = take (j + 1) ?buf @ qs"
      using Cons.IH [of "i + 1" ?buf "j + 1" esc] Cons.prems(3,4) by auto
    moreover have "take (Suc j) ?buf = take j buf @ [c]"
      using take_update_next [of j buf c] i(1,2) Cons.prems(3,4) by (auto simp: take_Suc_conv_app_nth)
    ultimately show ?thesis by simp
  qed
qed

section \<open>Reading a stretch of the file\<close>

lemma readBytes_disk:
  assumes "disk_inv b st" "unat pos + unat k \<le> length (fl_file st)"
  shows "if unat k \<le> cap
    then \<exists>st'. readBytes cap k pos st = Inr (Some (take (unat k) (drop (unat pos) (fl_file st))), st')
      \<and> disk_inv b st' \<and> fl_file st' = fl_file st
    else readBytes cap k pos st = Inl Undefined_behaviour"
proof -
  have "unat pos < 2147483648" using assms by (simp add: disk_inv_def)
  then have "uint pos < 2147483648" unfolding uint_nat by linarith
  moreover have "- (2 ^ 31) \<le> uint pos" by (rule order_trans [of _ 0]) simp_all
  ultimately have "sint pos = uint pos" unfolding sint_uint by (intro signed_take_bit_int_eq_self) simp_all
  then have "\<not> sint pos < 0" by simp
  then show ?thesis using assms by (simp add: readBytes_def disk_inv_def)
qed

lemma take_drop_take: "off + k \<le> C \<Longrightarrow> take k (drop off (take C xs)) = take k (drop off xs)"
  by (simp add: drop_take)

lemma readBytes_cached_ok:
  "blocks_ok st \<Longrightarrow> fl_buffer_size st = b \<Longrightarrow> unat pos + unat remain \<le> length (fl_file st) \<Longrightarrow>
   unat remain < n \<Longrightarrow> length acc \<le> cap \<Longrightarrow>
   if length acc + unat remain \<le> cap
   then \<exists>st'. readBytes_cached n cap remain pos acc st
       = Inr (Some (acc @ take (unat remain) (drop (unat pos) (fl_file st))), st')
     \<and> cache_inv b st' \<and> fl_file st' = fl_file st
   else readBytes_cached n cap remain pos acc st = Inl Undefined_behaviour"
proof (induction n arbitrary: remain pos acc st)
  case (Suc n)
  have le: "unat pos \<le> length (fl_file st)" using Suc.prems(3) by simp
  have small: "length (fl_file st) < 2 ^ 31" using Suc.prems(1) by (simp add: blocks_ok_def)
  obtain i s1 where s1: "getCacheBlock pos st = (i, s1)" "blocks_ok s1" "cache_frame st s1"
      "unat i < 3" "cb_loaded (block_of s1 i)" "cb_base (block_of s1 i) = block_base st pos"
    by (rule getCacheBlock_ok [OF Suc.prems(1) le])
  have f: "fl_file s1 = fl_file st" "fl_cache_size s1 = fl_cache_size st" "fl_buffer_size s1 = b"
    using s1(3) Suc.prems(2) by (simp_all add: cache_frame_def)
  have cs: "fl_cache_size st \<in> cache_sizes" using Suc.prems(1) by (simp add: blocks_ok_def)
  let ?b = "block_base st pos" and ?size = "block_size s1 i"
  let ?off = "pos - ?b"
  note near = block_base_near [OF cs, of pos]
  have bsize: "?size = min (unat (fl_cache_size st)) (length (fl_file st) - unat ?b)"
    using block_size_eq(1) [OF s1(2,4,5)] f s1(6) by simp
  then have off_le: "unat ?off \<le> ?size" using near le by simp
  have size_le: "?size \<le> 32768" using bsize cache_size_bounds [OF cs] by linarith
  then have size_w: "unat (word_of_nat ?size :: u32) = ?size" unfolding unat_of_nat by simp
  let ?avail = "word_of_nat ?size - ?off"
  have avail: "unat ?avail = ?size - unat ?off"
    using off_le size_w by (subst unat_sub) (simp_all add: word_le_nat_alt)
  let ?r = "min remain ?avail"
  have r: "unat ?r = min (unat remain) (?size - unat ?off)"
    using avail by (auto simp: min_def word_le_nat_alt)
  then have fits: "\<not> unat ?off + unat ?r > ?size" using off_le by simp
  have data: "cb_data (block_of s1 i) = take (unat (fl_cache_size st)) (drop (unat ?b) (fl_file st))"
  proof -
    have "block_of s1 i \<in> set (fl_cached s1)" using s1(2,4) by (simp add: block_of_def blocks_ok_def)
    then show ?thesis
      using s1(2,5,6) f by (simp add: blocks_ok_def list_all_iff block_ok_def)
  qed
  have at: "unat ?off + unat ?b = unat pos" using near by simp
  have room: "unat ?off + unat ?r \<le> unat (fl_cache_size st)" using fits bsize by linarith
  have chunk: "take (unat ?r) (drop (unat ?off) (cb_data (block_of s1 i)))
      = take (unat ?r) (drop (unat pos) (fl_file st))"
    unfolding data take_drop_take [OF room] drop_drop at ..
  let ?acc = "acc @ take (unat ?r) (drop (unat pos) (fl_file st))"
  let ?s2 = "s1\<lparr>fl_cache_index := i, fl_cache_offset := ?off + ?r\<rparr>"
  have step: "readBytes_cached (Suc n) cap remain pos acc st =
      (if length acc + unat ?r > cap then Inl Undefined_behaviour
       else if remain - ?r > 0 then readBytes_cached n cap (remain - ?r) (pos + ?r) ?acc ?s2
       else Inr (Some ?acc, ?s2))"
    using s1(1,4,6) fits chunk by (auto simp: Let_def)
  have r_le: "unat ?r \<le> unat remain" using r by simp
  have left: "unat (remain - ?r) = unat remain - unat ?r"
    using r_le by (intro unat_sub) (simp add: word_le_nat_alt)
  have off_r: "unat (?off + ?r) = unat ?off + unat ?r"
    using fits size_le by (simp add: unat_word_ariths)
  have inv2: "cache_inv b ?s2"
    using s1(2,4,5) f(3) off_r fits by (simp add: cache_inv_def blocks_ok_def block_of_def block_size_def)
  show ?case
  proof (cases "length acc + unat ?r > cap")
    case True
    then show ?thesis using step r_le by simp
  next
    case cap: False
    show ?thesis
    proof (cases "remain - ?r > 0")
      case False
      then have "unat remain \<le> unat ?r" using left by (simp add: word_gt_0_no word_less_nat_alt)
      then have "unat ?r = unat remain" using r by simp
      then show ?thesis using step False cap inv2 f(1) by simp
    next
      case True
      then have more: "unat ?r < unat remain" using left by (simp add: word_less_nat_alt)
      then have "unat ?r = ?size - unat ?off" using r by simp
      moreover have "unat ?off < ?size" using bsize near Suc.prems(3) more by simp
      ultimately have pos_r: "0 < unat ?r" by simp
      have np: "unat (pos + ?r) = unat pos + unat ?r"
        using Suc.prems(3) more small by (simp add: unat_word_ariths)
      have in_file: "unat (pos + ?r) + unat (remain - ?r) \<le> length (fl_file ?s2)"
        using Suc.prems(3) f left np more by simp
      have less: "unat (remain - ?r) < n" using Suc.prems(4) left more pos_r by linarith
      have len: "length ?acc = length acc + unat ?r" using Suc.prems(3) more by simp
      have bok: "blocks_ok ?s2" "fl_buffer_size ?s2 = b" using inv2 by (simp_all add: cache_inv_def)
      have acc_cap: "length ?acc \<le> cap" using len cap by simp
      have glue: "?acc @ take (unat (remain - ?r)) (drop (unat (pos + ?r)) (fl_file ?s2))
          = acc @ take (unat remain) (drop (unat pos) (fl_file st))"
        using take_add [of "unat ?r" "unat remain - unat ?r" "drop (unat pos) (fl_file st)"] more
        by (simp add: add.commute f left np)
      have total: "length ?acc + unat (remain - ?r) = length acc + unat remain" using len left more by simp
      have "readBytes_cached (Suc n) cap remain pos acc st
          = readBytes_cached n cap (remain - ?r) (pos + ?r) ?acc ?s2" using step cap True by simp
      note run = this
      have "fl_file ?s2 = fl_file st" using f(1) by simp
      then show ?thesis
        using Suc.IH [OF bok in_file less acc_cap] unfolding total glue run by (simp only:)
    qed
  qed
qed simp


section \<open>The properties of every node\<close>

lemma readBytes_ok:
  assumes "serves b file st" "unat pos + unat k \<le> length file"
  shows "if unat k \<le> cap
    then \<exists>st'. readBytes cap k pos st = Inr (Some (take (unat k) (drop (unat pos) file)), st') \<and> serves b file st'
    else readBytes cap k pos st = Inl Undefined_behaviour"
proof -
  have f: "fl_file st = file" using assms(1) by (simp add: serves_def)
  consider "disk_inv b st" | "cache_inv b st" using assms(1) by (auto simp: serves_def)
  then show ?thesis
  proof cases
    case 1
    then show ?thesis using readBytes_disk [of b st pos k cap] assms(2) f by (auto simp: serves_def)
  next
    case 2
    then have "fl_use_cache st" "blocks_ok st" "fl_buffer_size st = b"
      by (simp_all add: cache_inv_def blocks_ok_def)
    then show ?thesis
      using readBytes_cached_ok [of st b pos k "unat k + 1" "[]" cap] assms(2) f
      by (auto simp: readBytes_def serves_def)
  qed
qed

text \<open>The size of the buffer a read of \<open>n\<close> bytes finds.\<close>

definition grown :: "u32 \<Rightarrow> nat \<Rightarrow> u32" where
  "grown b n = (if unat b \<le> n then b + 1024 else b)"

lemma serves_grow: "serves b file st \<Longrightarrow> serves c file (st\<lparr>fl_buffer_size := c\<rparr>)"
  by (auto simp: serves_def disk_inv_def cache_inv_def blocks_ok_def block_of_def block_size_def)

lemma serves_buffer: "serves b file st \<Longrightarrow> fl_buffer_size st = b"
  by (auto simp: serves_def disk_inv_def cache_inv_def)

lemma getProps_result:
  assumes "serves b file st" "length file < 2 ^ 31" "drop (off + 2) file = escaped ps @ rest"
    "off + 2 \<le> length file"
    "node_start nd = word_of_nat off" "node_propsSize nd = word_of_nat (length (escaped ps))"
  shows "if length (escaped ps) \<le> unat (grown b (length (escaped ps)))
    then \<exists>st'. getProps stale (Some nd) st = Inr (Some ps, st')
      \<and> serves (grown b (length (escaped ps))) file st'
    else getProps stale (Some nd) st = Inl Undefined_behaviour"
proof -
  let ?n = "length (escaped ps)"
  let ?b = "grown b ?n"
  have len: "length file - (off + 2) = ?n + length rest"
    using arg_cong [OF assms(3), of length] by simp
  then have n: "unat (node_propsSize nd) = ?n" using assms(2,6) by (simp add: unat_of_nat)
  have start: "unat (node_start nd + 2) = off + 2"
    using assms(2,4,5) by (simp add: unat_word_ariths unat_of_nat)
  let ?st = "st\<lparr>fl_buffer_size := ?b\<rparr>"
  have buf: "fl_buffer_size st = b" by (rule serves_buffer [OF assms(1)])
  have grow: "(if node_propsSize nd \<ge> fl_buffer_size st
      then st\<lparr>fl_buffer_size := fl_buffer_size st + 1024\<rparr> else st) = ?st"
    using buf n by (simp add: grown_def word_le_nat_alt)
  have data: "take ?n (escaped ps @ rest) = escaped ps" by simp
  have le: "unat (node_start nd + 2) + unat (node_propsSize nd) \<le> length file"
    using start n len assms(4) by simp
  have read: "if ?n \<le> unat ?b
      then \<exists>st'. readBytes (unat ?b) (node_propsSize nd) (node_start nd + 2) ?st = Inr (Some (escaped ps), st')
        \<and> serves ?b file st'
      else readBytes (unat ?b) (node_propsSize nd) (node_start nd + 2) ?st = Inl Undefined_behaviour"
    using readBytes_ok [OF serves_grow [OF assms(1), of ?b] le, of "unat ?b"]
    unfolding n start assms(3) data .
  have g: "getProps stale (Some nd) st = bind_run (readBytes (unat ?b) (node_propsSize nd) (node_start nd + 2) ?st)
      (\<lambda>(r, st). case r of None \<Rightarrow> Inr (None, st)
        | Some data \<Rightarrow> bind_run (unescape_loop ?n 0 0 False (data @ take (unat (fl_buffer_size st) - length data) stale))
            (\<lambda>(buf, j). Inr (Some (take j buf), st)))"
    unfolding getProps_def option.case Let_def grow n by simp
  show ?thesis
  proof (cases "?n \<le> unat ?b")
    case True
    then obtain st' where st': "readBytes (unat ?b) (node_propsSize nd) (node_start nd + 2) ?st
        = Inr (Some (escaped ps), st')" "serves ?b file st'" using read by auto
    let ?buf = "escaped ps @ take (unat (fl_buffer_size st') - ?n) stale"
    obtain buf' where "unescape_loop ?n 0 0 False ?buf = Inr (buf', length ps)" "take (length ps) buf' = ps"
      using unescape_loop_ok [of 0 ?buf ps _ ?n 0 False] by auto
    then have "getProps stale (Some nd) st = Inr (Some ps, st')" unfolding g st'(1) by simp
    then show ?thesis using True st'(2) by simp
  next
    case False
    then show ?thesis using read unfolding g by simp
  qed
qed

section \<open>Walking the nodes\<close>

text \<open>
  A client reaches a node from the root by \<^verbatim>\<open>getChildNode\<close> and \<^verbatim>\<open>getNextNode\<close>, stopping at a null
  node; \<open>trees_at\<close> is the same walk over the written trees.  A session is any list of such walks,
  each followed by \<^verbatim>\<open>getProps\<close>, the loader's state going from one call to the next.
\<close>

datatype move = To_Child | To_Next

fun written_node :: "node option \<Rightarrow> move list \<Rightarrow> node option \<Rightarrow> node option" where
  "written_node root [] n = n"
| "written_node root (m # ms) None = None"
| "written_node root (To_Child # ms) (Some n) = written_node root ms (getChildNode root (Some n))"
| "written_node root (To_Next # ms) (Some n) = written_node root ms (getNextNode (Some n))"

fun trees_at :: "move list \<Rightarrow> tree list \<Rightarrow> tree list" where
  "trees_at [] ts = ts"
| "trees_at (m # ms) [] = []"
| "trees_at (To_Child # ms) (Tree ty ps us # ts) = trees_at ms us"
| "trees_at (To_Next # ms) (Tree ty ps us # ts) = trees_at ms ts"

definition reach :: "node option \<Rightarrow> move list \<Rightarrow> node option" where
  "reach root ms = written_node root ms (getChildNode root None)"

fun read_session :: "node option \<Rightarrow> (move list \<times> bytes) list \<Rightarrow> file_loader
    \<Rightarrow> ((u32 option \<times> bytes option) list \<times> file_loader) run" where
  "read_session root [] st = Inr ([], st)"
| "read_session root ((ms, stale) # qs) st =
     bind_run (getProps stale (reach root ms) st) (\<lambda>(r, st).
       bind_run (read_session root qs st) (\<lambda>(rs, st).
         Inr ((map_option node_type (reach root ms), r) # rs, st)))"

definition written_at :: "tree \<Rightarrow> move list \<Rightarrow> u32 option \<times> bytes option" where
  "written_at t ms =
     (case trees_at ms [t] of [] \<Rightarrow> (None, None)
      | Tree ty ps us # ts \<Rightarrow> (Some (ucast ty), Some ps))"

fun small_props :: "tree \<Rightarrow> bool" where
  "small_props (Tree ty ps ts) \<longleftrightarrow> length (escaped ps) \<le> 2048 \<and> list_all small_props ts"

lemma escaped_longer: "length ps \<le> length (escaped ps)"
  by (induction ps) auto

lemma small_props_short: "small_props t \<Longrightarrow> short_props t"
proof (induction t rule: small_props.induct)
  case (1 ty ps ts)
  then show ?case using escaped_longer [of ps] by (auto simp: list_all_iff)
qed

lemma trees_at_plain: "list_all plain_types ts \<Longrightarrow> list_all plain_types (trees_at ms ts)"
  by (induction ms ts rule: trees_at.induct) simp_all

lemma trees_at_small: "list_all small_props ts \<Longrightarrow> list_all small_props (trees_at ms ts)"
  by (induction ms ts rule: trees_at.induct) simp_all

text \<open>A walk over the opened nodes ends where the walk over the written trees does.\<close>

lemma node_at_located:
  "list_all plain_types ts \<Longrightarrow> drop off file = encode_forest ts @ rest \<Longrightarrow> off \<le> length file \<Longrightarrow>
   \<exists>off' rest'. written_node root ms (mk_nodes off ts) = mk_nodes off' (trees_at ms ts)
     \<and> drop off' file = encode_forest (trees_at ms ts) @ rest' \<and> off' \<le> length file"
proof (induction ms ts arbitrary: off rest rule: trees_at.induct)
  case (1 ts)
  then show ?case by auto
next
  case (2 m ms)
  then show ?case by auto
next
  case (3 ms ty ps us ts)
  have d: "drop off file = [0xFE, ty] @ escaped ps @ encode_forest us @ [0xFF] @ encode_forest ts @ rest"
    using "3.prems"(1,2) by simp
  have d2: "drop (off + 2 + length (escaped ps)) file = encode_forest us @ [0xFF] @ encode_forest ts @ rest"
    using arg_cong [OF d, of "drop (2 + length (escaped ps))"] by (simp add: algebra_simps)
  have "off + 2 + length (escaped ps) \<le> length file"
    using arg_cong [OF d, of length] by simp
  then show ?case using "3.IH" [OF _ d2] "3.prems"(1) by (simp add: getChildNode_def)
next
  case (4 ms ty ps us ts)
  let ?t = "Tree ty ps us"
  have d: "drop off file = encode_tree ?t @ encode_forest ts @ rest" using "4.prems"(2) by simp
  have d2: "drop (off + length (encode_tree ?t)) file = encode_forest ts @ rest"
    using arg_cong [OF d, of "drop (length (encode_tree ?t))"] by (simp add: add.commute)
  have "off + length (encode_tree ?t) \<le> length file"
    using arg_cong [OF d, of length] "4.prems"(3) by simp
  then show ?case using "4.IH" [OF _ d2] "4.prems"(1) by (simp add: getNextNode_def)
qed

text \<open>One \<^verbatim>\<open>getProps\<close> at the end of a walk, over the file of a written tree.\<close>

lemma getProps_at:
  assumes "plain_types t" "length (file_of t) < 2 ^ 31" "serves b (file_of t) st"
    "trees_at ms [t] = Tree ty ps us # ts"
  shows "(\<exists>nd. reach (mk_nodes 4 [t]) ms = Some nd \<and> node_type nd = ucast ty)
    \<and> (if length (escaped ps) \<le> unat (grown b (length (escaped ps)))
       then \<exists>st'. getProps stale (reach (mk_nodes 4 [t]) ms) st = Inr (Some ps, st')
         \<and> serves (grown b (length (escaped ps))) (file_of t) st'
       else getProps stale (reach (mk_nodes 4 [t]) ms) st = Inl Undefined_behaviour)"
proof -
  have "drop 4 (file_of t) = encode_forest [t] @ []" by (simp add: file_of_def)
  then obtain off rest where at: "reach (mk_nodes 4 [t]) ms = mk_nodes off (Tree ty ps us # ts)"
      "drop off (file_of t) = encode_forest (Tree ty ps us # ts) @ rest" "off \<le> length (file_of t)"
    using node_at_located [of "[t]" 4 "file_of t" "[]" "mk_nodes 4 [t]" ms] assms(1,4)
    by (auto simp: reach_def getChildNode_def file_of_def)
  have ty: "\<not> special_byte ty" using trees_at_plain [of "[t]" ms] assms(1,4) by simp
  have d: "drop off (file_of t)
      = [0xFE, ty] @ escaped ps @ encode_forest us @ [0xFF] @ encode_forest ts @ rest"
    using at(2) ty by simp
  have d2: "drop (off + 2) (file_of t) = escaped ps @ encode_forest us @ [0xFF] @ encode_forest ts @ rest"
    using arg_cong [OF d, of "drop 2"] by (simp add: add.commute)
  have off2: "off + 2 \<le> length (file_of t)" using arg_cong [OF d, of length] by simp
  obtain nd where nd: "mk_nodes off (Tree ty ps us # ts) = Some nd" "node_type nd = ucast ty"
      "node_start nd = word_of_nat off" "node_propsSize nd = word_of_nat (length (escaped ps))"
    by simp
  show ?thesis
    unfolding at(1) nd(1) using getProps_result [OF assms(3,2) d2 off2 nd(3,4)] nd(2) by blast
qed

definition fair_buffer :: "u32 \<Rightarrow> bool" where
  "fair_buffer b \<longleftrightarrow> 1024 \<le> unat b \<and> unat b \<le> 3072"

lemma grown_fair:
  assumes "fair_buffer b" "n \<le> 2048"
  shows "n \<le> unat (grown b n)" "fair_buffer (grown b n)"
proof -
  have "unat (b + 1024) = unat b + 1024" if "unat b \<le> 2048" using that by (simp add: unat_word_ariths)
  then show "n \<le> unat (grown b n)" "fair_buffer (grown b n)"
    using assms by (auto simp: grown_def fair_buffer_def)
qed

lemma session_ok:
  assumes "plain_types t" "small_props t" "length (file_of t) < 2 ^ 31"
  shows "serves b (file_of t) st \<Longrightarrow> fair_buffer b \<Longrightarrow>
    \<exists>st'. read_session (mk_nodes 4 [t]) qs st = Inr (map (\<lambda>(ms, stale). written_at t ms) qs, st')"
proof (induction qs arbitrary: b st)
  case (Cons q qs)
  obtain ms stale where q: "q = (ms, stale)" by force
  have "\<exists>b' st'. getProps stale (reach (mk_nodes 4 [t]) ms) st = Inr (snd (written_at t ms), st')
      \<and> map_option node_type (reach (mk_nodes 4 [t]) ms) = fst (written_at t ms)
      \<and> serves b' (file_of t) st' \<and> fair_buffer b'"
  proof (cases "trees_at ms [t]")
    case Nil
    have "drop 4 (file_of t) = encode_forest [t] @ []" by (simp add: file_of_def)
    then have "reach (mk_nodes 4 [t]) ms = None"
      using node_at_located [of "[t]" 4 "file_of t" "[]" "mk_nodes 4 [t]" ms] assms(1) Nil
      by (auto simp: reach_def getChildNode_def file_of_def)
    then show ?thesis using Nil Cons.prems by (auto simp: written_at_def getProps_def)
  next
    case (Cons u ts)
    obtain ty ps us where u: "u = Tree ty ps us" by (cases u)
    have "length (escaped ps) \<le> 2048" using trees_at_small [of "[t]" ms] assms(2) Cons u by simp
    then show ?thesis
      using getProps_at [OF assms(1,3) Cons.prems(1) Cons [unfolded u], of stale] grown_fair [OF Cons.prems(2)]
        Cons u by (fastforce simp: written_at_def)
  qed
  then obtain b' st' where s: "getProps stale (reach (mk_nodes 4 [t]) ms) st = Inr (snd (written_at t ms), st')"
      "map_option node_type (reach (mk_nodes 4 [t]) ms) = fst (written_at t ms)"
      "serves b' (file_of t) st'" "fair_buffer b'" by blast
  show ?case using Cons.IH [OF s(3,4)] s(1,2) q by auto
qed simp

text \<open>
  C2: every node gives its properties back. A tree with ordinary node types, whose nodes each have
  at most 2048 bytes of escaped properties, is written and opened again, with or without the
  cache. Then any sequence of walks with \<^verbatim>\<open>getChildNode\<close> and \<^verbatim>\<open>getNextNode\<close>, each followed by
  \<^verbatim>\<open>getProps\<close>, in any order and with repetitions, yields exactly the types and properties written
  at the nodes it asks for, and the null node where the tree has none, whatever the property buffer
  held behind the bytes read.
\<close>

theorem node_props_round_trip:
  assumes "plain_types t" "small_props t" "length (file_of t) < 2 ^ 31" "length (file_of t) \<le> room"
  shows "\<exists>root st. openFile_read (Some (fw_out (write_tree t (openFile_write room)))) caching = Inr (root, st)
    \<and> (\<forall>qs. \<exists>st'. read_session root qs st = Inr (map (\<lambda>(ms, stale). written_at t ms) qs, st'))"
proof -
  have cut: "cut_tree t = t" using assms(2) by (intro cut_tree_short small_props_short)
  obtain st where st: "openFile_read (Some (file_of t)) caching = Inr (mk_nodes 4 [t], st)"
      "serves 1024 (file_of t) st"
    using open_written_file [OF assms(1,3)] by blast
  have "fair_buffer 1024" by (simp add: fair_buffer_def)
  then show ?thesis
    using st session_ok [OF assms(1-3) st(2)] written_file [of t room] assms(4) cut by auto
qed

lemma node_props_round_trip_witness:
  "\<exists>root st. openFile_read (Some (fw_out (write_tree (Tree 1 [0xFE, 7] [Tree 2 [] []]) (openFile_write 100)))) True
      = Inr (root, st)
    \<and> (\<forall>qs. \<exists>st'. read_session root qs st
        = Inr (map (\<lambda>(ms, stale). written_at (Tree 1 [0xFE, 7] [Tree 2 [] []]) ms) qs, st'))"
  by (rule node_props_round_trip) (simp_all add: file_of_def special_byte_def)

text \<open>
  C4: the buffer of \<^verbatim>\<open>getProps\<close> has 1024 bytes and grows by 1024 bytes at a time, however large the
  properties are. On a freshly opened file, cached or not, asking for the properties of a node,
  wherever it lies in the tree, writes behind the end of the heap block if and only if the node has
  more than 2048 bytes of escaped properties; otherwise it gives the properties written.
\<close>

theorem getProps_overflows:
  assumes "plain_types t" "short_props t" "length (file_of t) < 2 ^ 31" "length (file_of t) \<le> room"
    "trees_at ms [t] = u # us"
  shows "\<exists>root st. openFile_read (Some (fw_out (write_tree t (openFile_write room)))) caching = Inr (root, st)
    \<and> (if 2048 < length (escaped (tree_props u))
       then getProps stale (reach root ms) st = Inl Undefined_behaviour
       else \<exists>st'. getProps stale (reach root ms) st = Inr (Some (tree_props u), st'))"
proof -
  obtain st where st: "openFile_read (Some (file_of t)) caching = Inr (mk_nodes 4 [t], st)"
      "serves 1024 (file_of t) st"
    using open_written_file [OF assms(1,3)] by blast
  have w: "fw_out (write_tree t (openFile_write room)) = file_of t"
    using written_file [of t room] assms(4) cut_tree_short [OF assms(2)] by simp
  have g: "(n \<le> unat (grown 1024 n)) = (n \<le> 2048)" for n by (simp add: grown_def)
  obtain ty ps vs where u: "u = Tree ty ps vs" by (cases u)
  show ?thesis
    using getProps_at [OF assms(1,3) st(2) assms(5) [unfolded u], of stale] st(1) w u
    by (auto simp: g split: if_splits)
qed

lemma escaped_zeros: "escaped (replicate n 0) = replicate n 0"
  by (induction n) (simp_all add: special_byte_def)

lemma getProps_overflows_witness:
  "\<exists>root st. openFile_read (Some (fw_out (write_tree (Tree 1 [] [Tree 2 (replicate 2049 0) []])
        (openFile_write 3000)))) True = Inr (root, st)
    \<and> getProps [] (reach root [To_Child]) st = Inl Undefined_behaviour"
  using getProps_overflows [of "Tree 1 [] [Tree 2 (replicate 2049 0) []]" 3000 "[To_Child]" "Tree 2 (replicate 2049 0) []" "[]" True "[]"]
  by (simp add: file_of_def escaped_zeros special_byte_def)

end
