(* ===== verification/Network_Message.thy ===== *)
theory Network_Message
  imports Positions Codecs Checksum
begin

text \<open>
  \<^verbatim>\<open>NetworkMessage\<close> (\<^verbatim>\<open>src/sources/networkmessage.h\<close>, \<^verbatim>\<open>networkmessage.cpp\<close>) and the header
  handling of \<^verbatim>\<open>OutputMessage\<close> (\<^verbatim>\<open>outputmessage.h\<close>, \<^verbatim>\<open>outputmessage.cpp\<close>).  A message is its
  fixed buffer of 15360 bytes with its size and its read (and write) position, both \<^verbatim>\<open>int32_t\<close>.
  An access outside the buffer is undefined behaviour; writes that do not fit are dropped, as in
  the code.  What \<^verbatim>\<open>GetExtendedPosition\<close> asks the item table is a parameter.
\<close>

record network_message =
  m_MsgBuf :: bytes
  m_MsgSize :: int
  m_ReadPos :: int

text \<open>The buffer of a new message is not initialised; \<open>garbage\<close> is what it holds.\<close>

definition message_new :: "bytes \<Rightarrow> network_message" where
  "message_new garbage = \<lparr>m_MsgBuf = garbage, m_MsgSize = 0, m_ReadPos = 8\<rparr>"

definition Reset :: "'a network_message_scheme \<Rightarrow> 'a network_message_scheme" where
  "Reset m = m\<lparr>m_MsgSize := 0, m_ReadPos := 8\<rparr>"

definition SkipBytes :: "int \<Rightarrow> 'a network_message_scheme \<Rightarrow> 'a network_message_scheme" where
  "SkipBytes count m = m\<lparr>m_ReadPos := m_ReadPos m + count\<rparr>"

section \<open>Reading\<close>

definition peek_bytes :: "nat \<Rightarrow> 'a network_message_scheme \<Rightarrow> bytes run" where
  "peek_bytes n m =
     (if 0 \<le> m_ReadPos m \<and> m_ReadPos m + int n \<le> int (length (m_MsgBuf m))
      then Inr (take n (drop (nat (m_ReadPos m)) (m_MsgBuf m)))
      else Inl Undefined_behaviour)"

definition get_bytes :: "nat \<Rightarrow> 'a network_message_scheme \<Rightarrow> (bytes \<times> 'a network_message_scheme) run" where
  "get_bytes n m = bind_run (peek_bytes n m) (\<lambda>bs. Inr (bs, SkipBytes (int n) m))"

definition GetByte :: "'a network_message_scheme \<Rightarrow> (u8 \<times> 'a network_message_scheme) run" where
  "GetByte m = bind_run (get_bytes 1 m) (\<lambda>(bs, m). Inr (word_of_nat (le_decode bs), m))"

definition PeekByte :: "'a network_message_scheme \<Rightarrow> u8 run" where
  "PeekByte m = bind_run (peek_bytes 1 m) (\<lambda>bs. Inr (word_of_nat (le_decode bs)))"

definition GetU16 :: "'a network_message_scheme \<Rightarrow> (u16 \<times> 'a network_message_scheme) run" where
  "GetU16 m = bind_run (get_bytes 2 m) (\<lambda>(bs, m). Inr (word_of_nat (le_decode bs), m))"

definition PeekU16 :: "'a network_message_scheme \<Rightarrow> u16 run" where
  "PeekU16 m = bind_run (peek_bytes 2 m) (\<lambda>bs. Inr (word_of_nat (le_decode bs)))"

definition GetU32 :: "'a network_message_scheme \<Rightarrow> (u32 \<times> 'a network_message_scheme) run" where
  "GetU32 m = bind_run (get_bytes 4 m) (\<lambda>(bs, m). Inr (word_of_nat (le_decode bs), m))"

definition PeekU32 :: "'a network_message_scheme \<Rightarrow> u32 run" where
  "PeekU32 m = bind_run (peek_bytes 4 m) (\<lambda>bs. Inr (word_of_nat (le_decode bs)))"

definition GetString :: "u16 \<Rightarrow> 'a network_message_scheme \<Rightarrow> (bytes \<times> 'a network_message_scheme) run" where
  "GetString count m =
     bind_run (if count = 0 then GetU16 m else Inr (count, m)) (\<lambda>(count, m).
       if uint count \<ge> int NETWORKMESSAGE_MAXSIZE - m_ReadPos m then Inr ([], m)
       else get_bytes (unat count) m)"

definition GetRaw :: "'a network_message_scheme \<Rightarrow> (bytes \<times> 'a network_message_scheme) run" where
  "GetRaw m = GetString (word_of_int (m_MsgSize m - m_ReadPos m)) m"

definition GetSpriteId :: "'a network_message_scheme \<Rightarrow> (u16 \<times> 'a network_message_scheme) run" where
  "GetSpriteId m = GetU16 m"

definition GetPosition :: "'a network_message_scheme \<Rightarrow> (position \<times> 'a network_message_scheme) run" where
  "GetPosition m =
     bind_run (GetU16 m) (\<lambda>(x, m). bind_run (GetU16 m) (\<lambda>(y, m). bind_run (GetByte m) (\<lambda>(z, m).
       let pos = \<lparr>pos_x = x, pos_y = y, pos_z = z\<rparr> in require (position_isValid pos) (Inr (pos, m)))))"

text \<open>\<^verbatim>\<open>slots_t(y)\<close> for a value in the range of the enumerators.\<close>

definition slot_list :: "slots list" where
  "slot_list = [SLOT_WHEREEVER, SLOT_HEAD, SLOT_NECKLACE, SLOT_BACKPACK, SLOT_ARMOR, SLOT_RIGHT, SLOT_LEFT,
     SLOT_LEGS, SLOT_FEET, SLOT_RING, SLOT_AMMO, SLOT_DEPOT, SLOT_HAND]"

definition slot_of :: "nat \<Rightarrow> slots" where
  "slot_of y = slot_list ! y"

text \<open>
  The item table's answer is \<open>fluidContainer\<close>: for a client id nothing when there is no such
  kind, otherwise whether the kind is a fluid container.
\<close>

definition decode_extended :: "(u16 \<Rightarrow> bool option) \<Rightarrow> bool \<Rightarrow> u16 \<Rightarrow> u16 \<Rightarrow> u8 \<Rightarrow> u16 \<Rightarrow> u8
    \<Rightarrow> extended_position run" where
  "decode_extended fluidContainer detailed x y z spriteId index =
     (if x = 0xFFFF then
        if y AND 0x40 \<noteq> 0 then
          if y AND NOT 0x4F \<noteq> 0 then Inr Nowhere
          else Inr (forBackpack (ucast (y AND 0x0F)) z)
        else if y = 0 \<and> z = 0 then
          if \<not> detailed then Inr Nowhere
          else
            (case fluidContainer spriteId of
               None \<Rightarrow> Inr Nowhere
             | Some isFluidContainer \<Rightarrow>
                 Inr (forBackpackSearch spriteId
                   (if isFluidContainer \<and> unat index < length reverseFluidMap
                    then word_of_int (reverseFluidMap ! unat index) else - 1)))
        else
          require (index = 0)
            (if uint y < slots_value SLOT_HEAD \<or> uint y > slots_value SLOT_DEPOT then Inr Nowhere
             else Inr (forSlot (slot_of (unat y))))
      else if \<not> stack_coordinates_isValid (uint x) (uint y) (uint z) (uint index) then Inr Nowhere
      else bind_run (stack_new x y z index) forStackPosition)"

definition GetExtendedPosition :: "(u16 \<Rightarrow> bool option) \<Rightarrow> bool \<Rightarrow> 'a network_message_scheme
    \<Rightarrow> (extended_position \<times> 'a network_message_scheme) run" where
  "GetExtendedPosition fluidContainer detailed m =
     bind_run (GetU16 m) (\<lambda>(x, m). bind_run (GetU16 m) (\<lambda>(y, m). bind_run (GetByte m) (\<lambda>(z, m).
       bind_run (if detailed
         then bind_run (GetSpriteId m) (\<lambda>(spriteId, m). bind_run (GetByte m) (\<lambda>(index, m).
           Inr ((spriteId, index), m)))
         else Inr ((0, 0), m)) (\<lambda>((spriteId, index), m).
       bind_run (decode_extended fluidContainer detailed x y z spriteId index) (\<lambda>e. Inr (e, m))))))"

definition decodeHeader :: "'a network_message_scheme \<Rightarrow> (int \<times> 'a network_message_scheme) run" where
  "decodeHeader m =
     (if length (m_MsgBuf m) < 2 then Inl Undefined_behaviour
      else let count = uint (m_MsgBuf m ! 0) OR push_bit 8 (uint (m_MsgBuf m ! 1))
           in Inr (count, m\<lparr>m_MsgSize := count\<rparr>))"

section \<open>Writing\<close>

definition canAdd :: "int \<Rightarrow> 'a network_message_scheme \<Rightarrow> bool" where
  "canAdd count m \<longleftrightarrow> count + m_ReadPos m < int NETWORKMESSAGE_MAXSIZE - 16"

definition poke_bytes :: "bytes \<Rightarrow> 'a network_message_scheme \<Rightarrow> 'a network_message_scheme run" where
  "poke_bytes bs m =
     (let p = nat (m_ReadPos m) in
      if 0 \<le> m_ReadPos m \<and> p + length bs \<le> length (m_MsgBuf m)
      then Inr (m\<lparr>m_MsgBuf := take p (m_MsgBuf m) @ bs @ drop (p + length bs) (m_MsgBuf m)\<rparr>)
      else Inl Undefined_behaviour)"

definition put_bytes :: "bytes \<Rightarrow> 'a network_message_scheme \<Rightarrow> 'a network_message_scheme run" where
  "put_bytes bs m =
     bind_run (poke_bytes bs m) (\<lambda>m. Inr (m\<lparr>m_ReadPos := m_ReadPos m + int (length bs),
       m_MsgSize := m_MsgSize m + int (length bs)\<rparr>))"

definition AddByte :: "u8 \<Rightarrow> 'a network_message_scheme \<Rightarrow> 'a network_message_scheme run" where
  "AddByte v m = (if \<not> canAdd 1 m then Inr m else put_bytes (le_encode 1 (unat v)) m)"

definition AddU16 :: "u16 \<Rightarrow> 'a network_message_scheme \<Rightarrow> 'a network_message_scheme run" where
  "AddU16 v m = (if \<not> canAdd 2 m then Inr m else put_bytes (le_encode 2 (unat v)) m)"

definition AddU32 :: "u32 \<Rightarrow> 'a network_message_scheme \<Rightarrow> 'a network_message_scheme run" where
  "AddU32 v m = (if \<not> canAdd 4 m then Inr m else put_bytes (le_encode 4 (unat v)) m)"

text \<open>\<^verbatim>\<open>strcpy\<close> also writes the terminating zero, which the position is not moved over.\<close>

definition c_bytes :: "bytes \<Rightarrow> bytes" where
  "c_bytes v = takeWhile (\<lambda>c. c \<noteq> 0) v"

definition AddString :: "bytes \<Rightarrow> 'a network_message_scheme \<Rightarrow> 'a network_message_scheme run" where
  "AddString v m =
     (let str = c_bytes v; stringLen = word_of_nat (length str) :: u32 in
      if \<not> canAdd (sint (stringLen + 2)) m \<or> unat stringLen > 8192 then Inr m
      else
        bind_run (AddU16 (ucast stringLen) m) (\<lambda>m.
        bind_run (poke_bytes (str @ [0]) m) (\<lambda>m.
          Inr (m\<lparr>m_ReadPos := m_ReadPos m + uint stringLen, m_MsgSize := m_MsgSize m + uint stringLen\<rparr>))))"

definition AddBytes :: "bytes \<Rightarrow> u32 \<Rightarrow> 'a network_message_scheme \<Rightarrow> 'a network_message_scheme run" where
  "AddBytes bs count m =
     (if \<not> canAdd (sint count) m \<or> unat count > 8192 then Inr m
      else if unat count > length bs then Inl Undefined_behaviour
      else put_bytes (take (unat count) bs) m)"

definition AddPaddingBytes :: "u32 \<Rightarrow> 'a network_message_scheme \<Rightarrow> 'a network_message_scheme run" where
  "AddPaddingBytes n m =
     (if \<not> canAdd (sint n) m then Inr m
      else bind_run (poke_bytes (replicate (unat n) 0x33) m) (\<lambda>m.
        Inr (m\<lparr>m_MsgSize := m_MsgSize m + uint n\<rparr>)))"

definition AddPosition :: "position \<Rightarrow> 'a network_message_scheme \<Rightarrow> 'a network_message_scheme run" where
  "AddPosition pos m =
     require (position_isValid pos)
       (bind_run (AddU16 (pos_x pos) m) (\<lambda>m. bind_run (AddU16 (pos_y pos) m) (AddByte (pos_z pos))))"

definition AddPositionEx :: "stack_position \<Rightarrow> 'a network_message_scheme \<Rightarrow> 'a network_message_scheme run" where
  "AddPositionEx s m =
     require (stack_isValid s)
       (bind_run (AddU16 (pos_x s) m) (\<lambda>m. bind_run (AddU16 (pos_y s) m) (\<lambda>m.
        bind_run (AddByte (pos_z s) m) (AddByte (sp_index s)))))"

text \<open>What the code reads of an item: its kind's client id and properties, and its sub type.\<close>

record item_view =
  iv_clientId :: u16
  iv_stackable :: bool
  iv_rune :: bool
  iv_splash :: bool
  iv_fluidContainer :: bool
  iv_subType :: u16

definition AddItem :: "item_view \<Rightarrow> 'a network_message_scheme \<Rightarrow> 'a network_message_scheme run" where
  "AddItem it m =
     bind_run (AddU16 (iv_clientId it) m) (\<lambda>m.
       if iv_stackable it \<or> iv_rune it then AddByte (ucast (iv_subType it)) m
       else if iv_splash it \<or> iv_fluidContainer it
       then AddByte (word_of_int (client_fluid_value (fluidMap ! (unat (iv_subType it) mod 8)))) m
       else Inr m)"

definition AddItemId :: "item_view \<Rightarrow> 'a network_message_scheme \<Rightarrow> 'a network_message_scheme run" where
  "AddItemId it m = AddU16 (iv_clientId it) m"

definition AddItemId_of :: "u16 option \<Rightarrow> 'a network_message_scheme \<Rightarrow> 'a network_message_scheme run" where
  "AddItemId_of clientId m = AddU16 (case clientId of Some c \<Rightarrow> c | None \<Rightarrow> 0) m"

section \<open>Headers of an outgoing message\<close>

record output_message = network_message +
  m_outputBufferStart :: u32

definition getOutputBuffer :: "output_message \<Rightarrow> bytes" where
  "getOutputBuffer m = drop (unat (m_outputBufferStart m)) (m_MsgBuf m)"

definition addHeader :: "nat \<Rightarrow> nat \<Rightarrow> output_message \<Rightarrow> output_message" where
  "addHeader n v m =
     (if sint (m_outputBufferStart m) - int n < 0 then m
      else
        let start = m_outputBufferStart m - word_of_nat n; p = unat start
        in m\<lparr>m_outputBufferStart := start,
             m_MsgBuf := take p (m_MsgBuf m) @ le_encode n v @ drop (p + n) (m_MsgBuf m),
             m_MsgSize := m_MsgSize m + int n\<rparr>)"

definition writeMessageLength :: "output_message \<Rightarrow> output_message" where
  "writeMessageLength m = addHeader 2 (unat (word_of_int (m_MsgSize m) :: u16)) m"

definition addCryptoHeader :: "bool \<Rightarrow> output_message \<Rightarrow> output_message" where
  "addCryptoHeader addChecksum m =
     (let m = (if addChecksum
               then addHeader 4 (unat (adlerChecksum (take (nat (m_MsgSize m)) (getOutputBuffer m)))) m
               else m)
      in addHeader 2 (unat (word_of_int (m_MsgSize m) :: u16)) m)"

end
