(* ===== verification/Message_Codec.thy ===== *)
theory Message_Codec
  imports Network_Message Prop_Stream
begin

text \<open>
  What the message operations guarantee: the readers take apart what the writers wrote, no
  sequence of writes leaves the buffer, and which packets of a client make the server abort.
\<close>

section \<open>Readers as codecs\<close>

definition nm_wf :: "'a network_message_scheme \<Rightarrow> bool" where
  "nm_wf m \<longleftrightarrow> length (m_MsgBuf m) = 15360 \<and> 0 \<le> m_ReadPos m \<and> m_ReadPos m \<le> 15359"

text \<open>
  What is left to read. The last byte of the buffer is left out: \<^verbatim>\<open>GetString\<close> compares with
  \<^verbatim>\<open>>=\<close> and refuses a string that ends exactly at the end of the buffer.
\<close>

definition nm_view :: "'a network_message_scheme \<Rightarrow> bytes" where
  "nm_view m = drop (nat (m_ReadPos m)) (take 15359 (m_MsgBuf m))"

text \<open>The readers of a message have no failure value; \<open>some_read\<close> presents them as readers that never fail.\<close>

definition some_read :: "('s \<Rightarrow> ('a \<times> 's) run) \<Rightarrow> 's \<Rightarrow> ('a option \<times> 's) run" where
  "some_read get m = bind_run (get m) (\<lambda>(a, m). Inr (Some a, m))"

lemma some_read_Inr: "some_read get m = Inr (Some a, m') \<longleftrightarrow> get m = Inr (a, m')"
  by (cases "get m") (auto simp: some_read_def split: prod.splits)

lemma get_bytes_ok:
  assumes "nm_wf m" "nm_view m = bs @ rest" "length bs = n"
  shows "\<exists>m'. get_bytes n m = Inr (bs, m') \<and> nm_view m' = rest \<and> nm_wf m' \<and> m_MsgSize m' = m_MsgSize m
    \<and> m_ReadPos m' = m_ReadPos m + int n"
proof -
  let ?p = "nat (m_ReadPos m)" and ?buf = "take 15359 (m_MsgBuf m)"
  have len: "15359 - ?p = n + length rest"
    using arg_cong [OF assms(2), of length] assms(1,3) by (simp add: nm_view_def nm_wf_def)
  have fits: "m_ReadPos m + int n \<le> 15359" using assms(1) len by (auto simp: nm_wf_def)
  then have pn: "?p + n \<le> 15359" using assms(1) by (auto simp: nm_wf_def)
  have t: "take n (drop ?p ?buf) = bs" "drop n (drop ?p ?buf) = rest"
    using assms(2,3) by (simp_all add: nm_view_def)
  have "take n (drop ?p (m_MsgBuf m)) = bs"
    using t(1) pn by (simp add: drop_take)
  then have "get_bytes n m = Inr (bs, SkipBytes (int n) m)"
    using fits assms(1) by (simp add: get_bytes_def peek_bytes_def nm_wf_def)
  moreover have "nat (m_ReadPos m + int n) = n + ?p" using assms(1) by (simp add: nm_wf_def nat_add_distrib)
  then have "nm_view (SkipBytes (int n) m) = rest"
    using t(2) by (simp add: nm_view_def SkipBytes_def add.commute)
  ultimately show ?thesis using fits assms(1) by (simp add: nm_wf_def SkipBytes_def)
qed

lemma read_number:
  fixes v :: "'a :: len word"
  assumes get: "\<And>m. get m = bind_run (get_bytes n m) (\<lambda>(bs, m). Inr (word_of_nat (le_decode bs), m))"
    and fit: "unat v < 256 ^ n" and m: "nm_wf m" "nm_view m = le_encode n (unat v) @ rest"
  shows "\<exists>m'. some_read get m = Inr (Some v, m') \<and> nm_view m' = rest \<and> nm_wf m'"
  using get_bytes_ok [OF m] fit by (auto simp: some_read_def get)

interpretation nm_byte: byte_codec "\<lambda>v. le_encode 1 (unat v)" "some_read GetByte" nm_view nm_wf "\<lambda>_. True"
proof (unfold_locales, goal_cases)
  case (1 s a rest)
  have "unat a < 256 ^ 1" using unsigned_less [of a] by simp
  then show ?case using 1 by (intro read_number [OF GetByte_def])
qed

interpretation nm_u16: byte_codec "\<lambda>v. le_encode 2 (unat v)" "some_read GetU16" nm_view nm_wf "\<lambda>_. True"
proof (unfold_locales, goal_cases)
  case (1 s a rest)
  have "unat a < 256 ^ 2" using unsigned_less [of a] by simp
  then show ?case using 1 by (intro read_number [OF GetU16_def])
qed

interpretation nm_u32: byte_codec "\<lambda>v. le_encode 4 (unat v)" "some_read GetU32" nm_view nm_wf "\<lambda>_. True"
proof (unfold_locales, goal_cases)
  case (1 s a rest)
  have "unat a < 256 ^ 4" using unsigned_less [of a] by simp
  then show ?case using 1 by (intro read_number [OF GetU32_def])
qed

lemmas nm_read_simps = some_read_Inr

text \<open>A string is read after its 16-bit length; the reader's own length parameter is 0.\<close>

interpretation nm_string: byte_codec "\<lambda>a. le_encode 2 (length a) @ a" "some_read (GetString 0)" nm_view nm_wf
  "\<lambda>a. length a < 15350"
proof (unfold_locales, goal_cases)
  case (1 s a rest)
  let ?w = "word_of_nat (length a) :: u16"
  have w: "unat ?w = length a" "uint ?w = int (length a)"
    using 1(2) unat_of_length16 [of a] uint_of_length16 [of a] by simp_all
  have "nm_view s = le_encode 2 (unat ?w) @ a @ rest" using 1(3) w(1) by simp
  then obtain s1 where s1: "GetU16 s = Inr (?w, s1)" "nm_view s1 = a @ rest" "nm_wf s1"
    using nm_u16.get_enc [OF 1(1) TrueI, of ?w "a @ rest"] by (auto simp: some_read_Inr)
  obtain s2 where s2: "get_bytes (length a) s1 = Inr (a, s2)" "nm_view s2 = rest" "nm_wf s2"
    using get_bytes_ok [OF s1(3,2) refl] by blast
  have "length (nm_view s1) = 15359 - nat (m_ReadPos s1)"
    using s1(3) by (simp add: nm_view_def nm_wf_def)
  then have "length a + length rest = 15359 - nat (m_ReadPos s1)" using s1(2) by simp
  then have "\<not> int (length a) \<ge> 15360 - m_ReadPos s1" using s1(3) by (auto simp: nm_wf_def)
  then show ?case using s1(1) s2 w
    by (simp add: some_read_def GetString_def NETWORKMESSAGE_MAXSIZE_def)
qed

definition read_position :: "position \<Rightarrow> bytes" where
  "read_position p = le_encode 2 (unat (pos_x p)) @ le_encode 2 (unat (pos_y p)) @ le_encode 1 (unat (pos_z p))"

interpretation nm_position: byte_codec read_position "some_read GetPosition" nm_view nm_wf position_isValid
proof (unfold_locales, goal_cases)
  case (1 s p rest)
  obtain s1 where s1: "GetU16 s = Inr (pos_x p, s1)" "nm_wf s1"
      "nm_view s1 = le_encode 2 (unat (pos_y p)) @ le_encode 1 (unat (pos_z p)) @ rest"
    using nm_u16.get_enc [OF 1(1) TrueI] 1(3) by (fastforce simp: some_read_Inr read_position_def)
  obtain s2 where s2: "GetU16 s1 = Inr (pos_y p, s2)" "nm_wf s2" "nm_view s2 = le_encode 1 (unat (pos_z p)) @ rest"
    using nm_u16.get_enc [OF s1(2) TrueI s1(3)] by (auto simp: some_read_Inr)
  obtain s3 where "GetByte s2 = Inr (pos_z p, s3)" "nm_wf s3" "nm_view s3 = rest"
    using nm_byte.get_enc [OF s2(2) TrueI s2(3)] by (auto simp: some_read_Inr)
  then show ?case using s1(1) s2(1) 1(2)
    by (cases p) (simp add: some_read_def GetPosition_def Let_def)
qed


section \<open>Writers stay inside the buffer\<close>

definition nm_ready :: "'a network_message_scheme \<Rightarrow> bool" where
  "nm_ready m \<longleftrightarrow> length (m_MsgBuf m) = 15360 \<and> 0 \<le> m_ReadPos m \<and> m_ReadPos m < 15344"

definition nm_front :: "'a network_message_scheme \<Rightarrow> bytes" where
  "nm_front m = take (nat (m_ReadPos m)) (m_MsgBuf m)"

text \<open>What a write may do: append the bytes to the part of the buffer before the position.\<close>

definition appended :: "bytes \<Rightarrow> 'a network_message_scheme \<Rightarrow> 'a network_message_scheme \<Rightarrow> bool" where
  "appended bs m m' \<longleftrightarrow> nm_ready m' \<and> nm_front m' = nm_front m @ bs
     \<and> m_ReadPos m' = m_ReadPos m + int (length bs) \<and> m_MsgSize m' = m_MsgSize m + int (length bs)
     \<and> network_message.more m' = network_message.more m"

lemma appended_trans: "appended xs m m1 \<Longrightarrow> appended ys m1 m2 \<Longrightarrow> appended (xs @ ys) m m2"
  by (simp add: appended_def)

lemma appended_Nil: "nm_ready m \<Longrightarrow> appended [] m m"
  by (simp add: appended_def)

lemma put_bytes_ok:
  assumes "nm_ready m" "int (length bs) + m_ReadPos m < 15344"
  shows "\<exists>m'. put_bytes bs m = Inr m' \<and> appended bs m m'"
proof -
  let ?p = "nat (m_ReadPos m)"
  have p: "?p + length bs < 15344" using assms by (auto simp: nm_ready_def)
  have n: "nat (m_ReadPos m + int (length bs)) = ?p + length bs"
    using assms(1) by (simp add: nm_ready_def nat_add_distrib)
  show ?thesis
    using assms p n
    by (simp add: put_bytes_def poke_bytes_def appended_def nm_ready_def nm_front_def Let_def)
qed

lemma put_bytes_guarded:
  assumes "nm_ready m"
  shows "\<exists>m' k. (if \<not> canAdd (int (length bs)) m then Inr m else put_bytes bs m) = Inr m'
    \<and> appended (take k bs) m m' \<and> (canAdd (int (length bs)) m \<longrightarrow> k = length bs)"
proof (cases "canAdd (int (length bs)) m")
  case True
  then have "int (length bs) + m_ReadPos m < 15344" by (simp add: canAdd_def NETWORKMESSAGE_MAXSIZE_def)
  then obtain m' where "put_bytes bs m = Inr m'" "appended bs m m'" using put_bytes_ok [OF assms] by blast
  then show ?thesis using True by (intro exI [of _ m'] exI [of _ "length bs"]) simp
next
  case False
  then show ?thesis using appended_Nil [OF assms] by (intro exI [of _ m] exI [of _ 0]) simp
qed

text \<open>A message is a sequence of calls; a field names the call and its value.\<close>

datatype message_field = MByte u8 | MU16 u16 | MU32 u32 | MString bytes | MPosition position

fun add_message_field :: "message_field \<Rightarrow> 'a network_message_scheme \<Rightarrow> 'a network_message_scheme run" where
  "add_message_field (MByte v) = AddByte v"
| "add_message_field (MU16 v) = AddU16 v"
| "add_message_field (MU32 v) = AddU32 v"
| "add_message_field (MString v) = AddString v"
| "add_message_field (MPosition v) = AddPosition v"

fun add_message :: "message_field list \<Rightarrow> 'a network_message_scheme \<Rightarrow> 'a network_message_scheme run" where
  "add_message [] m = Inr m"
| "add_message (f # fs) m = bind_run (add_message_field f m) (add_message fs)"

fun get_message_field :: "message_field \<Rightarrow> 'a network_message_scheme \<Rightarrow> (message_field \<times> 'a network_message_scheme) run" where
  "get_message_field (MByte v) m = bind_run (GetByte m) (\<lambda>(v, m). Inr (MByte v, m))"
| "get_message_field (MU16 v) m = bind_run (GetU16 m) (\<lambda>(v, m). Inr (MU16 v, m))"
| "get_message_field (MU32 v) m = bind_run (GetU32 m) (\<lambda>(v, m). Inr (MU32 v, m))"
| "get_message_field (MString v) m = bind_run (GetString 0 m) (\<lambda>(v, m). Inr (MString v, m))"
| "get_message_field (MPosition v) m = bind_run (GetPosition m) (\<lambda>(v, m). Inr (MPosition v, m))"

fun get_message :: "message_field list \<Rightarrow> 'a network_message_scheme \<Rightarrow> (message_field list \<times> 'a network_message_scheme) run" where
  "get_message [] m = Inr ([], m)"
| "get_message (f # fs) m =
     bind_run (get_message_field f m) (\<lambda>(v, m). bind_run (get_message fs m) (\<lambda>(vs, m). Inr (v # vs, m)))"

fun message_bytes :: "message_field \<Rightarrow> bytes" where
  "message_bytes (MByte v) = le_encode 1 (unat v)"
| "message_bytes (MU16 v) = le_encode 2 (unat v)"
| "message_bytes (MU32 v) = le_encode 4 (unat v)"
| "message_bytes (MString v) = le_encode 2 (length (c_bytes v)) @ c_bytes v"
| "message_bytes (MPosition v) = read_position v"

fun no_assertion :: "message_field \<Rightarrow> bool" where
  "no_assertion (MPosition v) = position_isValid v"
| "no_assertion (MString v) = (length v < 2 ^ 31)"
| "no_assertion f = True"

lemma length_c_bytes: "length (c_bytes v) \<le> length v"
  by (simp add: c_bytes_def length_takeWhile_le)

lemma sint_small: "k < 2 ^ 31 \<Longrightarrow> sint (word_of_nat k :: u32) = int k"
  using sint_of_length32 [of "replicate k 0"] by simp

lemma sint_small_2: "k + 2 < 2 ^ 31 \<Longrightarrow> sint (word_of_nat k + 2 :: u32) = int (k + 2)"
  using sint_small [of "k + 2"] by (simp add: add.commute)

lemma AddString_ok:
  assumes "nm_ready m" "length v < 2 ^ 31"
  shows "\<exists>m' k. AddString v m = Inr m' \<and> appended (take k (message_bytes (MString v))) m m'
    \<and> (length (c_bytes v) \<le> 8192 \<and> int (length (message_bytes (MString v))) + m_ReadPos m < 15344
        \<longrightarrow> k = length (message_bytes (MString v)))"
proof -
  let ?s = "c_bytes v"
  let ?n = "length ?s"
  let ?w = "word_of_nat ?n :: u32"
  have n: "?n < 2 ^ 31" using length_c_bytes [of v] assms(2) by linarith
  then have w: "unat ?w = ?n" unfolding unat_of_nat by simp
  show ?thesis
  proof (cases "?n \<le> 8192 \<and> canAdd (sint (?w + 2)) m")
    case False
    then have "AddString v m = Inr m" using w by (auto simp: AddString_def Let_def)
    moreover have "\<not> (?n \<le> 8192 \<and> int (length (message_bytes (MString v))) + m_ReadPos m < 15344)"
    proof
      assume a: "?n \<le> 8192 \<and> int (length (message_bytes (MString v))) + m_ReadPos m < 15344"
      then have "sint (?w + 2) = int (?n + 2)" by (intro sint_small_2) simp
      then show False using False a by (simp add: canAdd_def NETWORKMESSAGE_MAXSIZE_def)
    qed
    ultimately show ?thesis using appended_Nil [OF assms(1)] by (intro exI [of _ m] exI [of _ 0]) simp
  next
    case True
    then have "sint (?w + 2) = int (?n + 2)" by (intro sint_small_2) simp
    then have room: "int ?n + 2 + m_ReadPos m < 15344"
      using True by (simp add: canAdd_def NETWORKMESSAGE_MAXSIZE_def)
    have u: "unat (ucast ?w :: u16) = ?n"
      using True w by (simp add: unsigned_ucast_eq take_bit_nat_eq_self)
    have "canAdd 2 m" using room by (simp add: canAdd_def NETWORKMESSAGE_MAXSIZE_def)
    then obtain m1 where m1: "AddU16 (ucast ?w) m = Inr m1" "appended (le_encode 2 ?n) m m1"
      using put_bytes_ok [OF assms(1), of "le_encode 2 ?n"] room u by (auto simp: AddU16_def)
    have r1: "nm_ready m1" "m_ReadPos m1 = m_ReadPos m + 2" using m1(2) by (simp_all add: appended_def)
    let ?p = "nat (m_ReadPos m1)"
    have p: "?p + ?n < 15344" "m_ReadPos m1 + int ?n < 15344" using room r1 by (auto simp: nm_ready_def)
    have np: "nat (m_ReadPos m1 + int ?n) = ?p + ?n" using r1(1) by (simp add: nm_ready_def nat_add_distrib)
    let ?m2 = "m1\<lparr>m_MsgBuf := take ?p (m_MsgBuf m1) @ (?s @ [0]) @ drop (?p + Suc ?n) (m_MsgBuf m1),
      m_ReadPos := m_ReadPos m1 + int ?n, m_MsgSize := m_MsgSize m1 + int ?n\<rparr>"
    have "uint ?w = int ?n" using w by (simp add: uint_nat)
    then have "AddString v m = Inr ?m2"
      using True w m1(1) r1 p by (simp add: AddString_def Let_def poke_bytes_def nm_ready_def)
    moreover have "appended ?s m1 ?m2"
      using r1(1) p np by (simp add: appended_def nm_ready_def nm_front_def)
    then have "appended (message_bytes (MString v)) m ?m2" using appended_trans [OF m1(2)] by simp
    ultimately show ?thesis
      by (intro exI [of _ ?m2] exI [of _ "length (message_bytes (MString v))"]) simp
  qed
qed


definition field_fits :: "message_field \<Rightarrow> 'a network_message_scheme \<Rightarrow> bool" where
  "field_fits f m \<longleftrightarrow> int (length (message_bytes f)) + m_ReadPos m < 15344
     \<and> (case f of MString v \<Rightarrow> length (c_bytes v) \<le> 8192 | _ \<Rightarrow> True)"

lemma number_ok:
  assumes "nm_ready m"
  shows "\<exists>m' bs. (if \<not> canAdd (int n) m then Inr m else put_bytes (le_encode n v) m) = Inr m'
    \<and> appended bs m m' \<and> (int n + m_ReadPos m < 15344 \<longrightarrow> bs = le_encode n v)"
proof -
  obtain m' k where "(if \<not> canAdd (int n) m then Inr m else put_bytes (le_encode n v) m) = Inr m'"
      "appended (take k (le_encode n v)) m m'" "canAdd (int n) m \<longrightarrow> k = n"
    using put_bytes_guarded [OF assms, of "le_encode n v"] by auto
  then show ?thesis
    by (intro exI [of _ m'] exI [of _ "take k (le_encode n v)"])
      (simp add: canAdd_def NETWORKMESSAGE_MAXSIZE_def)
qed

lemma add_message_field_ok:
  assumes "nm_ready m" "no_assertion f"
  shows "\<exists>m' bs. add_message_field f m = Inr m' \<and> appended bs m m' \<and> (field_fits f m \<longrightarrow> bs = message_bytes f)"
proof (cases f)
  case (MByte v)
  then show ?thesis using number_ok [OF assms(1), of 1 "unat v"] by (simp add: AddByte_def field_fits_def)
next
  case (MU16 v)
  then show ?thesis using number_ok [OF assms(1), of 2 "unat v"] by (simp add: AddU16_def field_fits_def)
next
  case (MU32 v)
  then show ?thesis using number_ok [OF assms(1), of 4 "unat v"] by (simp add: AddU32_def field_fits_def)
next
  case (MString v)
  then have v: "length v < 2 ^ 31" using assms(2) by simp
  obtain m' k where "AddString v m = Inr m'" "appended (take k (message_bytes (MString v))) m m'"
      "length (c_bytes v) \<le> 8192 \<and> int (length (message_bytes (MString v))) + m_ReadPos m < 15344
        \<longrightarrow> k = length (message_bytes (MString v))"
    using AddString_ok [OF assms(1) v] by blast
  then show ?thesis unfolding MString
    by (intro exI [of _ m'] exI [of _ "take k (message_bytes (MString v))"]) (simp add: field_fits_def)
next
  case (MPosition p)
  obtain m1 xs where m1: "AddU16 (pos_x p) m = Inr m1" "appended xs m m1"
      "int 2 + m_ReadPos m < 15344 \<longrightarrow> xs = le_encode 2 (unat (pos_x p))"
    using number_ok [OF assms(1), of 2 "unat (pos_x p)"] by (auto simp: AddU16_def)
  then have r1: "nm_ready m1" by (simp add: appended_def)
  obtain m2 ys where m2: "AddU16 (pos_y p) m1 = Inr m2" "appended ys m1 m2"
      "int 2 + m_ReadPos m1 < 15344 \<longrightarrow> ys = le_encode 2 (unat (pos_y p))"
    using number_ok [OF r1, of 2 "unat (pos_y p)"] by (auto simp: AddU16_def)
  then have r2: "nm_ready m2" by (simp add: appended_def)
  obtain m3 zs where m3: "AddByte (pos_z p) m2 = Inr m3" "appended zs m2 m3"
      "int 1 + m_ReadPos m2 < 15344 \<longrightarrow> zs = le_encode 1 (unat (pos_z p))"
    using number_ok [OF r2, of 1 "unat (pos_z p)"] by (auto simp: AddByte_def)
  have "appended (xs @ ys @ zs) m m3"
    using appended_trans [OF m1(2) appended_trans [OF m2(2) m3(2)]] by simp
  moreover have "xs @ ys @ zs = message_bytes (MPosition p)" if "field_fits (MPosition p) m"
  proof -
    have a: "5 + m_ReadPos m < 15344" using that by (simp add: field_fits_def read_position_def)
    then have x: "xs = le_encode 2 (unat (pos_x p))" using m1(3) by simp
    then have b: "m_ReadPos m1 = m_ReadPos m + 2" using m1(2) by (simp add: appended_def)
    then have y: "ys = le_encode 2 (unat (pos_y p))" using m2(3) a by simp
    then have "m_ReadPos m2 = m_ReadPos m + 4" using m2(2) b by (simp add: appended_def)
    then have "zs = le_encode 1 (unat (pos_z p))" using m3(3) a by simp
    then show ?thesis using x y by (simp add: read_position_def)
  qed
  moreover have "add_message_field (MPosition p) m = Inr m3"
    using m1(1) m2(1) m3(1) assms(2) MPosition by (simp add: AddPosition_def)
  ultimately show ?thesis using MPosition by blast
qed

lemma add_message_safe:
  "nm_ready m \<Longrightarrow> list_all no_assertion fs \<Longrightarrow> \<exists>m' bs. add_message fs m = Inr m' \<and> appended bs m m'"
proof (induction fs arbitrary: m)
  case (Cons f fs)
  obtain m1 bs where m1: "add_message_field f m = Inr m1" "appended bs m m1"
    using add_message_field_ok [OF Cons.prems(1), of f] Cons.prems(2) by (simp, blast)
  then have "nm_ready m1" by (simp add: appended_def)
  then obtain m2 cs where m2: "add_message fs m1 = Inr m2" "appended cs m1 m2"
    using Cons.IH [of m1] Cons.prems(2) by (simp, blast)
  show ?case using m1(1) m2(1) appended_trans [OF m1(2) m2(2)] by auto
qed (auto intro: appended_Nil)

lemma add_message_exact:
  "nm_ready m \<Longrightarrow> list_all no_assertion fs \<Longrightarrow>
   list_all (\<lambda>f. case f of MString v \<Rightarrow> length (c_bytes v) \<le> 8192 | _ \<Rightarrow> True) fs \<Longrightarrow>
   int (length (concat (map message_bytes fs))) + m_ReadPos m < 15344 \<Longrightarrow>
   \<exists>m'. add_message fs m = Inr m' \<and> appended (concat (map message_bytes fs)) m m'"
proof (induction fs arbitrary: m)
  case (Cons f fs)
  have "field_fits f m" using Cons.prems(3,4) by (simp add: field_fits_def)
  then obtain m1 where m1: "add_message_field f m = Inr m1" "appended (message_bytes f) m m1"
    using add_message_field_ok [OF Cons.prems(1), of f] Cons.prems(2) by (simp, blast)
  then have "nm_ready m1" "m_ReadPos m1 = m_ReadPos m + int (length (message_bytes f))"
    by (simp_all add: appended_def)
  then obtain m2 where "add_message fs m1 = Inr m2" "appended (concat (map message_bytes fs)) m1 m2"
    using Cons.IH [of m1] Cons.prems by auto
  then show ?case using m1 appended_trans [OF m1(2)] by auto
qed (auto intro: appended_Nil)

text \<open>What reading gives back: a string ends at its first zero byte.\<close>

fun sent_field :: "message_field \<Rightarrow> message_field" where
  "sent_field (MString v) = MString (c_bytes v)"
| "sent_field f = f"

lemma get_message_field_ok:
  assumes "nm_wf m" "no_assertion f" "case f of MString v \<Rightarrow> length (c_bytes v) \<le> 8192 | _ \<Rightarrow> True"
    "nm_view m = message_bytes f @ rest"
  shows "\<exists>m'. get_message_field f m = Inr (sent_field f, m') \<and> nm_view m' = rest \<and> nm_wf m'"
proof (cases f)
  case (MByte v)
  then show ?thesis using nm_byte.get_enc [OF assms(1) TrueI, of v rest] assms(4) by (auto simp: some_read_Inr)
next
  case (MU16 v)
  then show ?thesis using nm_u16.get_enc [OF assms(1) TrueI, of v rest] assms(4) by (auto simp: some_read_Inr)
next
  case (MU32 v)
  then show ?thesis using nm_u32.get_enc [OF assms(1) TrueI, of v rest] assms(4) by (auto simp: some_read_Inr)
next
  case (MString v)
  then show ?thesis
    using nm_string.get_enc [OF assms(1), of "c_bytes v" rest] assms(3,4) by (auto simp: some_read_Inr)
next
  case (MPosition v)
  then show ?thesis
    using nm_position.get_enc [OF assms(1), of v rest] assms(2,4) by (auto simp: some_read_Inr)
qed

lemma get_message_ok:
  "nm_wf m \<Longrightarrow> list_all no_assertion fs \<Longrightarrow>
   list_all (\<lambda>f. case f of MString v \<Rightarrow> length (c_bytes v) \<le> 8192 | _ \<Rightarrow> True) fs \<Longrightarrow>
   nm_view m = concat (map message_bytes fs) @ rest \<Longrightarrow>
   \<exists>m'. get_message fs m = Inr (map sent_field fs, m') \<and> nm_view m' = rest"
proof (induction fs arbitrary: m)
  case (Cons f fs)
  then obtain m1 where "get_message_field f m = Inr (sent_field f, m1)"
      "nm_view m1 = concat (map message_bytes fs) @ rest" "nm_wf m1"
    using get_message_field_ok [of m f "concat (map message_bytes fs) @ rest"] by auto
  then show ?case using Cons.IH [of m1] Cons.prems by auto
qed simp

lemma add_message_append:
  "add_message (fs @ gs) m = bind_run (add_message fs m) (add_message gs)"
proof (induction fs arbitrary: m)
  case (Cons f fs)
  then show ?case by (cases "add_message_field f m") simp_all
qed simp

lemma appended_front:
  assumes "appended bs m m'" "nm_ready m"
  shows "take (nat (m_ReadPos m)) (m_MsgBuf m') = take (nat (m_ReadPos m)) (m_MsgBuf m)"
proof -
  let ?k = "nat (m_ReadPos m)" and ?k' = "nat (m_ReadPos m')"
  have k: "?k \<le> ?k'" "length (m_MsgBuf m) = 15360" "?k \<le> 15360" "take ?k' (m_MsgBuf m') = take ?k (m_MsgBuf m) @ bs"
    using assms by (auto simp: appended_def nm_ready_def nm_front_def)
  have "take ?k (m_MsgBuf m') = take ?k (take ?k' (m_MsgBuf m'))" using k(1) by (simp add: min_absorb1)
  also have "\<dots> = take ?k (m_MsgBuf m)" using k(2,3) by (simp add: k(4))
  finally show ?thesis .
qed

text \<open>
  C25: no sequence of writes of a handler, whatever its values and however long, leaves the message
  buffer or trips an assertion as long as its positions are valid: what does not fit is dropped,
  what was written before stays in place, the room in front for the headers is left alone, and
  size and position advance together.
\<close>

theorem message_writes_safe:
  assumes "length garbage = 15360" "list_all no_assertion (fs @ gs)"
  shows "\<exists>m n. add_message fs (message_new garbage) = Inr m \<and> add_message (fs @ gs) (message_new garbage) = Inr n
    \<and> m_ReadPos m \<le> m_ReadPos n \<and> m_ReadPos n < 15344 \<and> m_MsgSize n = m_ReadPos n - 8
    \<and> take 8 (m_MsgBuf n) = take 8 garbage
    \<and> take (nat (m_ReadPos m)) (m_MsgBuf n) = take (nat (m_ReadPos m)) (m_MsgBuf m)"
proof -
  let ?new = "message_new garbage"
  have new: "nm_ready ?new" using assms(1) by (simp add: nm_ready_def message_new_def)
  then obtain m bs where m: "add_message fs ?new = Inr m" "appended bs ?new m"
    using add_message_safe assms(2) by (metis list_all_append)
  then have "nm_ready m" by (simp add: appended_def)
  moreover from this obtain n cs where n: "add_message gs m = Inr n" "appended cs m n"
    using add_message_safe assms(2) by (metis list_all_append)
  moreover have bn: "appended (bs @ cs) ?new n" using appended_trans [OF m(2) n(2)] .
  then have "take 8 (m_MsgBuf n) = take 8 garbage"
    using appended_front [OF _ new] by (force simp: message_new_def)
  moreover have "m_ReadPos n < 15344" using n(2) by (simp add: appended_def nm_ready_def)
  moreover have "m_MsgSize n = m_ReadPos n - 8" using bn by (simp add: appended_def message_new_def)
  moreover have "m_ReadPos m \<le> m_ReadPos n" using n(2) by (simp add: appended_def)
  ultimately show ?thesis
    using m(1) appended_front [OF n(2)] by (intro exI [of _ m] exI [of _ n]) (simp add: add_message_append)
qed

lemma message_writes_safe_witness:
  "\<exists>m n. add_message [MU32 1] (message_new (replicate 15360 0)) = Inr m
    \<and> add_message [MU32 1, MString (replicate 9000 65)] (message_new (replicate 15360 0)) = Inr n
    \<and> take (nat (m_ReadPos m)) (m_MsgBuf n) = take (nat (m_ReadPos m)) (m_MsgBuf m)"
  using message_writes_safe [of "replicate 15360 0" "[MU32 1]" "[MString (replicate 9000 65)]"] by force

text \<open>
  C26: what the writers of a message put in, the readers take out: for fields that fit, with
  strings of at most 8192 bytes, the fields read from the start of the body are the fields
  written, each string up to its first zero byte.
\<close>

theorem message_round_trip:
  assumes "length garbage = 15360" "list_all no_assertion fs"
    and "list_all (\<lambda>f. case f of MString v \<Rightarrow> length (c_bytes v) \<le> 8192 | _ \<Rightarrow> True) fs"
    and "length (concat (map message_bytes fs)) < 15336"
  shows "\<exists>m m'. add_message fs (message_new garbage) = Inr m
    \<and> m_MsgSize m = int (length (concat (map message_bytes fs)))
    \<and> get_message fs (m\<lparr>m_ReadPos := 8\<rparr>) = Inr (map sent_field fs, m')"
proof -
  let ?bs = "concat (map message_bytes fs)"
  have "nm_ready (message_new garbage)" using assms(1) by (simp add: nm_ready_def message_new_def)
  then obtain m where m: "add_message fs (message_new garbage) = Inr m" "appended ?bs (message_new garbage) m"
    using add_message_exact [of "message_new garbage" fs] assms(2-4) by (auto simp: message_new_def)
  have pos: "m_ReadPos m = 8 + int (length ?bs)" "length (m_MsgBuf m) = 15360"
    using m(2) by (simp_all add: appended_def nm_ready_def message_new_def)
  then have n: "nat (m_ReadPos m) = 8 + length ?bs" by simp
  have front: "take (8 + length ?bs) (m_MsgBuf m) = take 8 garbage @ ?bs"
    using m(2) n by (simp add: appended_def nm_front_def message_new_def)
  let ?m = "m\<lparr>m_ReadPos := 8\<rparr>"
  have "take 15359 (m_MsgBuf m) = (take 8 garbage @ ?bs) @ take (15359 - (8 + length ?bs)) (drop (8 + length ?bs) (m_MsgBuf m))"
    using assms(4) by (simp add: front [symmetric] flip: take_add)
  then have "nm_view ?m = ?bs @ take (15359 - (8 + length ?bs)) (drop (8 + length ?bs) (m_MsgBuf m))"
    using assms(1) by (simp add: nm_view_def)
  moreover have "nm_wf ?m" using pos(2) by (simp add: nm_wf_def)
  ultimately obtain m' where "get_message fs ?m = Inr (map sent_field fs, m')"
    using get_message_ok assms(2,3) by blast
  then show ?thesis using m by (auto simp: appended_def message_new_def)
qed

lemma message_round_trip_witness:
  "\<exists>m m'. add_message [MU16 7, MString [65, 66], MPosition \<lparr>pos_x = 1, pos_y = 2, pos_z = 3\<rparr>]
        (message_new (replicate 15360 0)) = Inr m
    \<and> get_message [MU16 7, MString [65, 66], MPosition \<lparr>pos_x = 1, pos_y = 2, pos_z = 3\<rparr>] (m\<lparr>m_ReadPos := 8\<rparr>)
       = Inr ([MU16 7, MString [65, 66], MPosition \<lparr>pos_x = 1, pos_y = 2, pos_z = 3\<rparr>], m')"
  using message_round_trip [of "replicate 15360 0"
      "[MU16 7, MString [65, 66], MPosition \<lparr>pos_x = 1, pos_y = 2, pos_z = 3\<rparr>]"]
  by (auto simp: c_bytes_def read_position_def valid_iff)


section \<open>Packets that abort the server\<close>

definition client_message :: "bytes \<Rightarrow> network_message" where
  "client_message bs = \<lparr>m_MsgBuf = replicate 8 0 @ bs @ replicate (15352 - length bs) 0,
     m_MsgSize = int (length bs), m_ReadPos = 8\<rparr>"

lemma client_message_wf: "length bs \<le> 15351 \<Longrightarrow> nm_wf (client_message bs)"
  by (simp add: client_message_def nm_wf_def)

lemma client_message_view:
  "length bs \<le> 15351 \<Longrightarrow> nm_view (client_message bs) = bs @ replicate (15351 - length bs) 0"
  by (simp add: client_message_def nm_view_def)

lemma decode_extended_failure:
  "decode_extended fc d x y z s i = Inl e \<longleftrightarrow>
     e = Assertion_failed \<and> x = 0xFFFF \<and> y AND 0x40 = 0 \<and> \<not> (y = 0 \<and> z = 0) \<and> i \<noteq> 0"
proof (cases "x = 0xFFFF")
  case True
  then show ?thesis by (auto simp: decode_extended_def require_def split: option.splits)
next
  case False
  show ?thesis
  proof (cases "stack_coordinates_isValid (uint x) (uint y) (uint z) (uint i)")
    case True
    then have ok: "position_isValid \<lparr>pos_x = x, pos_y = y, pos_z = z\<rparr>"
      by (simp add: stack_coordinates_isValid_def position_isValid_def)
    let ?s = "stack_of \<lparr>pos_x = x, pos_y = y, pos_z = z\<rparr> i"
    have "stack_isValid ?s"
      using True ok by (simp add: stack_isValid_def stack_isValid_at_def stack_coordinates_isValid_def
          withoutIndex_def stack_of_def)
    moreover have "stack_of (withoutIndex ?s) (sp_index ?s) = ?s" "position_isValid (withoutIndex ?s)"
      using ok by (simp_all add: withoutIndex_def stack_of_def)
    ultimately have "forStackPosition ?s = Inr (At_Stack ?s)"
      by (simp add: forStackPosition_def stack_copy_def Let_def)
    with True False ok show ?thesis
      by (simp add: decode_extended_def stack_new_def position_new_def Let_def)
  qed (use False in \<open>simp add: decode_extended_def\<close>)
qed

lemma GetPosition_aborts:
  assumes "nm_wf m" "nm_view m = le_encode 2 (unat x) @ le_encode 2 (unat y) @ le_encode 1 (unat z) @ rest"
  shows "GetPosition m = Inl Assertion_failed \<longleftrightarrow> \<not> position_isValid \<lparr>pos_x = x, pos_y = y, pos_z = z\<rparr>"
proof -
  obtain s1 where s1: "GetU16 m = Inr (x, s1)" "nm_wf s1"
      "nm_view s1 = le_encode 2 (unat y) @ le_encode 1 (unat z) @ rest"
    using nm_u16.get_enc [OF assms(1) TrueI assms(2)] by (auto simp: some_read_Inr)
  obtain s2 where s2: "GetU16 s1 = Inr (y, s2)" "nm_wf s2" "nm_view s2 = le_encode 1 (unat z) @ rest"
    using nm_u16.get_enc [OF s1(2) TrueI s1(3)] by (auto simp: some_read_Inr)
  obtain s3 where "GetByte s2 = Inr (z, s3)"
    using nm_byte.get_enc [OF s2(2) TrueI s2(3)] by (auto simp: some_read_Inr)
  then show ?thesis using s1(1) s2(1) by (simp add: GetPosition_def require_def Let_def)
qed

lemma GetExtendedPosition_reads:
  assumes "nm_wf m" "nm_view m = le_encode 2 (unat x) @ le_encode 2 (unat y) @ le_encode 1 (unat z)
      @ le_encode 2 (unat s) @ le_encode 1 (unat i) @ rest"
  shows "\<exists>m'. GetExtendedPosition fc True m = bind_run (decode_extended fc True x y z s i) (\<lambda>e. Inr (e, m'))"
proof -
  obtain s1 where s1: "GetU16 m = Inr (x, s1)" "nm_wf s1"
      "nm_view s1 = le_encode 2 (unat y) @ le_encode 1 (unat z) @ le_encode 2 (unat s) @ le_encode 1 (unat i) @ rest"
    using nm_u16.get_enc [OF assms(1) TrueI assms(2)] by (auto simp: some_read_Inr)
  obtain s2 where s2: "GetU16 s1 = Inr (y, s2)" "nm_wf s2"
      "nm_view s2 = le_encode 1 (unat z) @ le_encode 2 (unat s) @ le_encode 1 (unat i) @ rest"
    using nm_u16.get_enc [OF s1(2) TrueI s1(3)] by (auto simp: some_read_Inr)
  obtain s3 where s3: "GetByte s2 = Inr (z, s3)" "nm_wf s3"
      "nm_view s3 = le_encode 2 (unat s) @ le_encode 1 (unat i) @ rest"
    using nm_byte.get_enc [OF s2(2) TrueI s2(3)] by (auto simp: some_read_Inr)
  obtain s4 where s4: "GetU16 s3 = Inr (s, s4)" "nm_wf s4" "nm_view s4 = le_encode 1 (unat i) @ rest"
    using nm_u16.get_enc [OF s3(2) TrueI s3(3)] by (auto simp: some_read_Inr)
  obtain s5 where "GetByte s4 = Inr (i, s5)"
    using nm_byte.get_enc [OF s4(2) TrueI s4(3)] by (auto simp: some_read_Inr)
  then show ?thesis using s1(1) s2(1) s3(1) s4(1)
    by (intro exI [of _ s5]) (simp add: GetExtendedPosition_def GetSpriteId_def)
qed

text \<open>
  C27: exactly which positions of a client's packet make the server abort. An extended position
  does for a slot (x is 0xFFFF, neither a backpack nor a search) that comes with a nonzero index,
  whatever the item table says; a plain position does for coordinates outside the world. All
  other bytes are decoded or refused as \<^verbatim>\<open>nowhere\<close>.
\<close>

theorem client_positions_abort:
  fixes x y s :: u16 and z i :: u8
  shows "(GetExtendedPosition fc True (client_message (le_encode 2 (unat x) @ le_encode 2 (unat y)
       @ le_encode 1 (unat z) @ le_encode 2 (unat s) @ le_encode 1 (unat i))) = Inl e)
     = (e = Assertion_failed \<and> x = 0xFFFF \<and> y AND 0x40 = 0 \<and> \<not> (y = 0 \<and> z = 0) \<and> i \<noteq> 0)
   \<and> (GetPosition (client_message (le_encode 2 (unat x) @ le_encode 2 (unat y) @ le_encode 1 (unat z)))
        = Inl Assertion_failed)
     = (uint x > 60000 \<or> uint y > 60000 \<or> uint z > 15)"
proof
  let ?bs = "le_encode 2 (unat x) @ le_encode 2 (unat y) @ le_encode 1 (unat z)
    @ le_encode 2 (unat s) @ le_encode 1 (unat i)"
  obtain m' where "GetExtendedPosition fc True (client_message ?bs)
      = bind_run (decode_extended fc True x y z s i) (\<lambda>e. Inr (e, m'))"
    using GetExtendedPosition_reads [OF client_message_wf, of ?bs x y z s i] client_message_view [of ?bs]
    by force
  then show "(GetExtendedPosition fc True (client_message ?bs) = Inl e)
     = (e = Assertion_failed \<and> x = 0xFFFF \<and> y AND 0x40 = 0 \<and> \<not> (y = 0 \<and> z = 0) \<and> i \<noteq> 0)"
    using decode_extended_failure [of fc True x y z s i]
    by (cases "decode_extended fc True x y z s i") auto
next
  let ?bs = "le_encode 2 (unat x) @ le_encode 2 (unat y) @ le_encode 1 (unat z)"
  show "(GetPosition (client_message ?bs) = Inl Assertion_failed)
     = (uint x > 60000 \<or> uint y > 60000 \<or> uint z > 15)"
    using GetPosition_aborts [OF client_message_wf, of ?bs x y z] client_message_view [of ?bs]
    by (auto simp: valid_iff)
qed

end
