(* ===== verification/Protocol_Crypto.thy ===== *)
theory Protocol_Crypto
  imports Message_Codec "HOL-Library.Signed_Division"
begin

text \<open>
  \<^verbatim>\<open>Protocol\<close> (\<^verbatim>\<open>src/sources/protocol.h\<close>, \<^verbatim>\<open>protocol.cpp\<close>): the XTEA cipher over the buffer of a
  message and what happens to a message that is sent or received.  The virtual \<^verbatim>\<open>parsePacket\<close> is
  the client of this component; \<open>onRecvMessage\<close> returns the message it is called with.
\<close>

record protocol =
  p_rawMessages :: bool
  p_encryptionEnabled :: bool
  p_checksumEnabled :: bool
  p_key :: "u32 list"
  p_outputBuffer :: "nat option"
  p_refCount :: u32
  p_connection :: "nat option"

definition protocol_new :: "nat option \<Rightarrow> protocol" where
  "protocol_new connection = \<lparr>p_rawMessages = False, p_encryptionEnabled = False, p_checksumEnabled = False,
     p_key = [0, 0, 0, 0], p_outputBuffer = None, p_refCount = 0, p_connection = connection\<rparr>"

definition enableXTEAEncryption :: "protocol \<Rightarrow> protocol" where
  "enableXTEAEncryption p = p\<lparr>p_encryptionEnabled := True\<rparr>"

definition setXTEAKey :: "u32 list \<Rightarrow> protocol \<Rightarrow> protocol" where
  "setXTEAKey key p = p\<lparr>p_key := take 4 key\<rparr>"

definition enableChecksum :: "protocol \<Rightarrow> protocol" where
  "enableChecksum p = p\<lparr>p_checksumEnabled := True\<rparr>"

section \<open>XTEA\<close>

text \<open>The function of a half round: \<^verbatim>\<open>((v << 4 ^ v >> 5) + v) ^ (sum + key)\<close>.\<close>

definition xtea_mix :: "u32 \<Rightarrow> u32 \<Rightarrow> u32 \<Rightarrow> u32" where
  "xtea_mix v acc key = ((push_bit 4 v XOR drop_bit 5 v) + v) XOR (acc + key)"

definition xtea_delta :: u32 where "xtea_delta = 0x61C88647"

definition encrypt_round :: "u32 list \<Rightarrow> u32 \<times> u32 \<times> u32 \<Rightarrow> u32 \<times> u32 \<times> u32" where
  "encrypt_round k = (\<lambda>(v0, v1, sum).
     let v0 = v0 + xtea_mix v1 sum (k ! unat (sum AND 3));
         sum = sum - xtea_delta;
         v1 = v1 + xtea_mix v0 sum (k ! unat (drop_bit 11 sum AND 3))
     in (v0, v1, sum))"

definition decrypt_round :: "u32 list \<Rightarrow> u32 \<times> u32 \<times> u32 \<Rightarrow> u32 \<times> u32 \<times> u32" where
  "decrypt_round k = (\<lambda>(v0, v1, sum).
     let v1 = v1 - xtea_mix v0 sum (k ! unat (drop_bit 11 sum AND 3));
         sum = sum + xtea_delta;
         v0 = v0 - xtea_mix v1 sum (k ! unat (sum AND 3))
     in (v0, v1, sum))"

definition encrypt_block :: "u32 list \<Rightarrow> u32 \<times> u32 \<Rightarrow> u32 \<times> u32" where
  "encrypt_block k = (\<lambda>(v0, v1). case (encrypt_round k ^^ 32) (v0, v1, 0) of (v0, v1, _) \<Rightarrow> (v0, v1))"

definition decrypt_block :: "u32 list \<Rightarrow> u32 \<times> u32 \<Rightarrow> u32 \<times> u32" where
  "decrypt_block k = (\<lambda>(v0, v1). case (decrypt_round k ^^ 32) (v0, v1, 0xC6EF3720) of (v0, v1, _) \<Rightarrow> (v0, v1))"

text \<open>The buffer read and written as \<^verbatim>\<open>uint32_t\<close>s, two at a time.\<close>

definition word_at :: "bytes \<Rightarrow> nat \<Rightarrow> u32" where
  "word_at buf p = word_of_nat (le_decode (take 4 (drop p buf)))"

definition put_at :: "bytes \<Rightarrow> nat \<Rightarrow> bytes \<Rightarrow> bytes" where
  "put_at buf p bs = take p buf @ bs @ drop (p + length bs) buf"

function crypt_loop :: "(u32 \<times> u32 \<Rightarrow> u32 \<times> u32) \<Rightarrow> nat \<Rightarrow> int \<Rightarrow> int \<Rightarrow> bytes \<Rightarrow> bytes run" where
  "crypt_loop f base readPos limit buf =
     (if readPos < limit then
        let p = base + 4 * nat readPos in
        if readPos < 0 \<or> p + 8 > length buf then Inl Undefined_behaviour
        else
          let (v0, v1) = f (word_at buf p, word_at buf (p + 4))
          in crypt_loop f base (readPos + 2) limit
               (put_at (put_at buf p (le_encode 4 (unat v0))) (p + 4) (le_encode 4 (unat v1)))
      else Inr buf)"
  by pat_completeness auto
termination
  by (relation "measure (\<lambda>(f, base, readPos, limit, buf). nat (limit - readPos))") auto

declare crypt_loop.simps [simp del]

definition XTEA_encrypt :: "protocol \<Rightarrow> output_message \<Rightarrow> output_message run" where
  "XTEA_encrypt p msg =
     (let messageLength = m_MsgSize msg; r = messageLength smod 8 in
      bind_run (if r \<noteq> 0
          then bind_run (AddPaddingBytes (word_of_int (8 - r)) msg) (\<lambda>msg. Inr (msg, messageLength + (8 - r)))
          else Inr (msg, messageLength)) (\<lambda>(msg, messageLength).
      bind_run (crypt_loop (encrypt_block (p_key p)) (unat (m_outputBufferStart msg)) 0 (messageLength sdiv 4)
          (m_MsgBuf msg)) (\<lambda>buf.
        Inr (msg\<lparr>m_MsgBuf := buf\<rparr>))))"

definition XTEA_decrypt :: "protocol \<Rightarrow> network_message \<Rightarrow> (bool \<times> network_message) run" where
  "XTEA_decrypt p msg =
     (if (m_MsgSize msg - 6) smod 8 \<noteq> 0 then Inr (False, msg)
      else if m_ReadPos msg < 0 then Inl Undefined_behaviour
      else
        bind_run (crypt_loop (decrypt_block (p_key p)) (nat (m_ReadPos msg)) 0 ((m_MsgSize msg - 6) sdiv 4)
          (m_MsgBuf msg)) (\<lambda>buf.
        bind_run (GetU16 (msg\<lparr>m_MsgBuf := buf\<rparr>)) (\<lambda>(tmp, msg).
          if uint tmp > m_MsgSize msg - 8 then Inr (False, msg)
          else Inr (True, msg\<lparr>m_MsgSize := uint tmp\<rparr>))))"

section \<open>Sending and receiving\<close>

definition onSendMessage :: "nat \<Rightarrow> output_message \<Rightarrow> protocol \<Rightarrow> (output_message \<times> protocol) run" where
  "onSendMessage handle msg p =
     bind_run
       (if p_rawMessages p then Inr msg
        else
          bind_run (let msg = writeMessageLength msg in
            if p_encryptionEnabled p then XTEA_encrypt p msg else Inr msg) (\<lambda>msg.
          Inr (if p_checksumEnabled p then addCryptoHeader (p_checksumEnabled p) msg else msg)))
       (\<lambda>msg. Inr (msg, if p_outputBuffer p = Some handle then p\<lparr>p_outputBuffer := None\<rparr> else p))"

text \<open>The verdict of \<^verbatim>\<open>XTEA_decrypt\<close> is not looked at.\<close>

definition onRecvMessage :: "network_message \<Rightarrow> protocol \<Rightarrow> network_message run" where
  "onRecvMessage msg p =
     (if p_encryptionEnabled p then bind_run (XTEA_decrypt p msg) (\<lambda>(_, msg). Inr msg) else Inr msg)"

text \<open>\<open>rsa\<close> is the decryption of 128 bytes with the server's key.\<close>

definition Protocol_RSA_decrypt :: "(bytes \<Rightarrow> bytes run) \<Rightarrow> network_message \<Rightarrow> (bool \<times> network_message) run" where
  "Protocol_RSA_decrypt rsa msg =
     (if m_MsgSize msg - m_ReadPos msg \<noteq> 128 then Inr (False, msg)
      else
        bind_run (peek_bytes 128 msg) (\<lambda>c. bind_run (rsa c) (\<lambda>plain.
        bind_run (poke_bytes plain msg) (\<lambda>msg. bind_run (GetByte msg) (\<lambda>(b, msg).
          Inr (b = 0, msg))))))"

section \<open>The cipher is inverted\<close>

lemma decrypt_encrypt_round: "decrypt_round k (encrypt_round k s) = s"
  by (cases s) (simp add: encrypt_round_def decrypt_round_def Let_def)

lemma encrypt_decrypt_round: "encrypt_round k (decrypt_round k s) = s"
  by (cases s) (simp add: encrypt_round_def decrypt_round_def Let_def)

lemma funpow_inverse:
  fixes f g :: "'s \<Rightarrow> 's"
  assumes "\<And>s. g (f s) = s"
  shows "(g ^^ n) ((f ^^ n) s) = s"
proof (induction n)
  case (Suc n)
  then show ?case unfolding funpow_Suc_right [of n g] using assms by simp
qed simp

lemma encrypt_rounds_sum: "snd (snd ((encrypt_round k ^^ n) (a, b, c))) = c - of_nat n * xtea_delta"
proof (induction n)
  case (Suc n)
  then show ?case
    by (cases "(encrypt_round k ^^ n) (a, b, c)") (simp add: encrypt_round_def Let_def algebra_simps)
qed simp

lemma decrypt_rounds_sum: "snd (snd ((decrypt_round k ^^ n) (a, b, c))) = c + of_nat n * xtea_delta"
proof (induction n)
  case (Suc n)
  then show ?case
    by (cases "(decrypt_round k ^^ n) (a, b, c)") (simp add: decrypt_round_def Let_def algebra_simps)
qed simp

lemma decrypt_encrypt_block: "decrypt_block k (encrypt_block k v) = v"
proof -
  obtain a b where v: "v = (a, b)" by fastforce
  obtain x y z where e: "(encrypt_round k ^^ 32) (a, b, 0) = (x, y, z)" by (metis prod_cases3)
  have "z = 0xC6EF3720" using encrypt_rounds_sum [of 32 k a b 0] by (simp add: e xtea_delta_def)
  then have "(decrypt_round k ^^ 32) (x, y, 0xC6EF3720) = (a, b, 0)"
    using funpow_inverse [of "decrypt_round k" "encrypt_round k" 32 "(a, b, 0)"] decrypt_encrypt_round e
    by simp
  then show ?thesis by (simp add: decrypt_block_def encrypt_block_def v e)
qed

lemma encrypt_decrypt_block: "encrypt_block k (decrypt_block k v) = v"
proof -
  obtain a b where v: "v = (a, b)" by fastforce
  obtain x y z where e: "(decrypt_round k ^^ 32) (a, b, 0xC6EF3720) = (x, y, z)" by (metis prod_cases3)
  have "z = 0" using decrypt_rounds_sum [of 32 k a b "0xC6EF3720"] by (simp add: e xtea_delta_def)
  then have "(encrypt_round k ^^ 32) (x, y, 0) = (a, b, 0xC6EF3720)"
    using funpow_inverse [of "encrypt_round k" "decrypt_round k" 32 "(a, b, 0xC6EF3720)"]
      encrypt_decrypt_round e by simp
  then show ?thesis by (simp add: decrypt_block_def encrypt_block_def v e)
qed

text \<open>Iteration with a concrete count is unfolded from the front, so that every round is evaluated at once.\<close>

lemma funpow_numeral_step: "(f ^^ numeral n) s = (f ^^ pred_numeral n) (f s)"
  by (simp add: numeral_eq_Suc funpow_swap1)

lemma xtea_test_rounds:
  "(encrypt_round [0x00010203, 0x04050607, 0x08090A0B, 0x0C0D0E0F] ^^ 32) (0x41424344, 0x45464748, 0)
     = (0x497DF3D0, 0x72612CB5, 0xC6EF3720)"
  by (simp add: encrypt_round_def xtea_mix_def xtea_delta_def Let_def funpow_numeral_step)

lemma xtea_test_vector:
  "encrypt_block [0x00010203, 0x04050607, 0x08090A0B, 0x0C0D0E0F] (0x41424344, 0x45464748)
     = (0x497DF3D0, 0x72612CB5)"
  unfolding encrypt_block_def by (simp only: prod.case xtea_test_rounds)

text \<open>
  C36: XTEA as the server runs it is a permutation of the blocks for every key, the decryption
  being its inverse on both sides although it starts from the precomputed sum 0xC6EF3720, and it
  is the published cipher: it maps the published test vector to its published ciphertext.
\<close>

theorem xtea_is_a_permutation:
  "decrypt_block k (encrypt_block k v) = v \<and> encrypt_block k (decrypt_block k v) = v
   \<and> encrypt_block [0x00010203, 0x04050607, 0x08090A0B, 0x0C0D0E0F] (0x41424344, 0x45464748)
       = (0x497DF3D0, 0x72612CB5)"
  using decrypt_encrypt_block encrypt_decrypt_block xtea_test_vector by blast

section \<open>The loop over the buffer\<close>

function map_blocks :: "(u32 \<times> u32 \<Rightarrow> u32 \<times> u32) \<Rightarrow> bytes \<Rightarrow> bytes" where
  "map_blocks f bs =
     (if length bs < 8 then bs
      else let (v0, v1) = f (word_at bs 0, word_at bs 4)
           in le_encode 4 (unat v0) @ le_encode 4 (unat v1) @ map_blocks f (drop 8 bs))"
  by pat_completeness auto
termination
  by (relation "measure (\<lambda>(f, bs). length bs)") auto

declare map_blocks.simps [simp del]

lemma length_map_blocks [simp]: "length (map_blocks f bs) = length bs"
proof (induction f bs rule: map_blocks.induct)
  case (1 f bs)
  then show ?case by (subst map_blocks.simps) (auto split: prod.splits)
qed

lemma word_at_append: "p + 4 \<le> length xs \<Longrightarrow> word_at (xs @ ys) p = word_at xs p"
  by (simp add: word_at_def)

lemma word_at_shift: "word_at (pre @ xs) (length pre + p) = word_at xs p"
  by (simp add: word_at_def)

lemma word_at_encode: "word_at (le_encode 4 (unat v) @ ys) 0 = v"
  by (simp add: word_at_def)

lemma word_at_encode_4: "length xs = 4 \<Longrightarrow> word_at (xs @ le_encode 4 (unat v) @ ys) 4 = v"
  using word_at_shift [of xs "le_encode 4 (unat v) @ ys" 0] by (simp add: word_at_encode)

lemma map_blocks_inverse:
  assumes inv: "\<And>v. g (f v) = v"
  shows "length bs = 8 * n \<Longrightarrow> map_blocks g (map_blocks f bs) = bs"
proof (induction n arbitrary: bs)
  case 0
  then show ?case by (simp add: map_blocks.simps)
next
  case (Suc n)
  obtain v0 v1 where v: "f (word_at bs 0, word_at bs 4) = (v0, v1)" by fastforce
  let ?rest = "map_blocks f (drop 8 bs)"
  have f: "map_blocks f bs = le_encode 4 (unat v0) @ le_encode 4 (unat v1) @ ?rest"
    using Suc.prems v by (subst map_blocks.simps) simp
  have IH: "map_blocks g ?rest = drop 8 bs" using Suc by simp
  have w: "g (v0, v1) = (word_at bs 0, word_at bs 4)" using inv v by metis
  have t: "le_encode 4 (unat (word_at bs 0)) = take 4 bs" "le_encode 4 (unat (word_at bs 4)) = take 4 (drop 4 bs)"
    using Suc.prems le_encode_decode [of "take 4 bs"] le_encode_decode [of "take 4 (drop 4 bs)"]
      le_decode_bound [of "take 4 bs"] le_decode_bound [of "take 4 (drop 4 bs)"]
    by (simp_all add: word_at_def unat_of_nat)
  have "take 4 bs @ take 4 (drop 4 bs) @ drop 8 bs = bs"
    by (metis append_take_drop_id drop_drop numeral_Bit0)
  then show ?case
    unfolding f by (subst map_blocks.simps) (simp add: word_at_encode word_at_encode_4 w t IH)
qed

lemma put_at_append: "p = length pre \<Longrightarrow> length xs = length bs \<Longrightarrow> put_at (pre @ xs @ rest) p bs = pre @ bs @ rest"
  by (simp add: put_at_def)

lemma crypt_loop_blocks:
  "length data = 8 * n \<Longrightarrow> length pre = base + 4 * nat r \<Longrightarrow> 0 \<le> r \<Longrightarrow>
   crypt_loop f base r (r + 2 * int n) (pre @ data @ rest) = Inr (pre @ map_blocks f data @ rest)"
proof (induction n arbitrary: pre data r)
  case 0
  then show ?case by (simp add: crypt_loop.simps map_blocks.simps)
next
  case (Suc n)
  obtain v0 v1 where v: "f (word_at data 0, word_at data 4) = (v0, v1)" by fastforce
  let ?p = "base + 4 * nat r"
  let ?e0 = "le_encode 4 (unat v0)" and ?e1 = "le_encode 4 (unat v1)"
  have split: "data = take 4 data @ take 4 (drop 4 data) @ drop 8 data"
    by (metis append_take_drop_id drop_drop numeral_Bit0)
  have w: "word_at (pre @ data @ rest) ?p = word_at data 0" "word_at (pre @ data @ rest) (?p + 4) = word_at data 4"
    using word_at_shift [of pre "data @ rest" 0] word_at_shift [of pre "data @ rest" 4]
      word_at_append [of 0 data rest] word_at_append [of 4 data rest] Suc.prems(1,2) by simp_all
  have "put_at (pre @ data @ rest) ?p ?e0 = pre @ ?e0 @ (take 4 (drop 4 data) @ drop 8 data) @ rest"
    using put_at_append [of ?p pre "take 4 data" ?e0 "(take 4 (drop 4 data) @ drop 8 data) @ rest"]
      Suc.prems(1,2) by (subst split) simp
  moreover have "put_at ((pre @ ?e0) @ take 4 (drop 4 data) @ drop 8 data @ rest) (?p + 4) ?e1
      = (pre @ ?e0) @ ?e1 @ drop 8 data @ rest"
    using Suc.prems(1,2) by (intro put_at_append) simp_all
  ultimately have put: "put_at (put_at (pre @ data @ rest) ?p ?e0) (?p + 4) ?e1
      = (pre @ ?e0 @ ?e1) @ drop 8 data @ rest" by simp
  have "nat (r + 2) = nat r + 2" using Suc.prems(3) by (simp add: nat_add_distrib)
  then have "crypt_loop f base (r + 2) (r + 2 + 2 * int n) ((pre @ ?e0 @ ?e1) @ drop 8 data @ rest)
      = Inr ((pre @ ?e0 @ ?e1) @ map_blocks f (drop 8 data) @ rest)"
    using Suc.prems by (intro Suc.IH) simp_all
  moreover have "map_blocks f data = ?e0 @ ?e1 @ map_blocks f (drop 8 data)"
    using Suc.prems(1) v by (subst map_blocks.simps) simp
  ultimately show ?case
    using Suc.prems v w put by (subst crypt_loop.simps) (simp add: Let_def algebra_simps)
qed

section \<open>What goes over the wire\<close>

lemma smod_nonneg: "0 \<le> a \<Longrightarrow> 0 < b \<Longrightarrow> a smod b = a mod (b :: int)"
  by (cases "a = 0") (simp_all add: signed_modulo_int_def)

lemma sdiv_nonneg: "0 \<le> a \<Longrightarrow> 0 < b \<Longrightarrow> a sdiv b = a div (b :: int)"
  by (cases "a = 0") (simp_all add: signed_divide_int_def)

lemma addHeader_front:
  assumes "m_MsgBuf m = pre @ h @ tail" "length h = n" "m_outputBufferStart m = word_of_nat (length pre + n)"
    and "length pre + n < 2 ^ 31"
  shows "addHeader n v m = m\<lparr>m_MsgBuf := pre @ le_encode n v @ tail,
    m_outputBufferStart := word_of_nat (length pre), m_MsgSize := m_MsgSize m + int n\<rparr>"
proof -
  have "sint (m_outputBufferStart m) = int (length pre + n)"
    unfolding assms(3) by (rule sint_small) (rule assms(4))
  moreover have "m_outputBufferStart m - word_of_nat n = word_of_nat (length pre)"
    by (simp add: assms(3))
  moreover have "unat (word_of_nat (length pre) :: u32) = length pre"
    using assms(4) by (simp add: unat_of_nat)
  ultimately show ?thesis using assms(1,2) by (simp add: addHeader_def Let_def)
qed

definition padding :: "nat \<Rightarrow> nat" where
  "padding n = (if n mod 8 = 0 then 0 else 8 - n mod 8)"

lemma padding_blocks: "\<exists>k. n + padding n = 8 * k"
proof (cases "n mod 8 = 0")
  case False
  then have "n + padding n = 8 * (n div 8 + 1)" by (simp add: padding_def) presburger
  then show ?thesis by blast
qed (auto simp: padding_def)

lemma padding_less: "padding n < 8"
  by (simp add: padding_def)

lemma padding_fits:
  assumes "n < 15335"
  shows "8 + n + padding (2 + n) < 15344"
proof -
  obtain k where "2 + n + padding (2 + n) = 8 * k" using padding_blocks by blast
  then show ?thesis using padding_less [of "2 + n"] assms by presburger
qed

lemma AddPaddingBytes_ok:
  assumes "m_MsgBuf m = pre @ gap @ rest" "length gap = n" "m_ReadPos m = int (length pre)" "length pre + n < 15344"
  shows "AddPaddingBytes (word_of_nat n) m =
    Inr (m\<lparr>m_MsgBuf := pre @ replicate n 0x33 @ rest, m_MsgSize := m_MsgSize m + int n\<rparr>)"
proof -
  have n: "n < 2 ^ 31" using assms(4) by simp
  have "unat (word_of_nat n :: u32) = n" using n by (simp add: unat_of_nat)
  moreover have "uint (word_of_nat n :: u32) = int n"
    using calculation by (simp add: uint_nat)
  ultimately show ?thesis
    using assms sint_small [OF n]
    by (simp add: AddPaddingBytes_def canAdd_def NETWORKMESSAGE_MAXSIZE_def poke_bytes_def Let_def)
qed

lemma XTEA_encrypt_ok:
  assumes "m_MsgBuf m = pre @ plain @ gap @ rest" "length gap = padding (length plain)"
    and "m_outputBufferStart m = word_of_nat (length pre)" "m_ReadPos m = int (length pre + length plain)"
    and "m_MsgSize m = int (length plain)" "length pre + length plain + padding (length plain) < 15344"
  shows "XTEA_encrypt p m = Inr (m\<lparr>m_MsgBuf := pre @ map_blocks (encrypt_block (p_key p))
      (plain @ replicate (padding (length plain)) 0x33) @ rest,
    m_MsgSize := int (length plain + padding (length plain))\<rparr>)"
proof -
  let ?n = "length plain" and ?pad = "padding (length plain)"
  let ?data = "plain @ replicate ?pad 0x33"
  have r: "m_MsgSize m smod 8 = int (?n mod 8)" by (simp add: assms(5) smod_nonneg zmod_int)
  have add: "(if m_MsgSize m smod 8 \<noteq> 0
       then bind_run (AddPaddingBytes (word_of_int (8 - m_MsgSize m smod 8)) m)
         (\<lambda>m'. Inr (m', m_MsgSize m + (8 - m_MsgSize m smod 8)))
       else Inr (m, m_MsgSize m))
    = Inr (m\<lparr>m_MsgBuf := pre @ ?data @ rest, m_MsgSize := int (?n + ?pad)\<rparr>, int (?n + ?pad))"
  proof (cases "?n mod 8 = 0")
    case True
    then have "m\<lparr>m_MsgBuf := pre @ ?data @ rest, m_MsgSize := int (?n + ?pad)\<rparr> = m"
      using assms(1,2,5) by (simp add: padding_def)
    then show ?thesis using True assms(5) unfolding r by (simp add: padding_def)
  next
    case False
    then have "8 - int (?n mod 8) = int ?pad" by (simp add: padding_def of_nat_diff)
    then have p: "word_of_int (8 - int (?n mod 8)) = (word_of_nat ?pad :: u32)"
        "m_MsgSize m + (8 - int (?n mod 8)) = int (?n + ?pad)"
      using assms(5) by (metis of_int_of_nat_eq, simp)
    have "AddPaddingBytes (word_of_nat ?pad) m
        = Inr (m\<lparr>m_MsgBuf := (pre @ plain) @ replicate ?pad 0x33 @ rest, m_MsgSize := m_MsgSize m + int ?pad\<rparr>)"
      by (rule AddPaddingBytes_ok [where gap = gap]) (use assms in simp_all)
    then show ?thesis using False assms(5) unfolding r p by simp
  qed
  obtain k where k: "?n + ?pad = 8 * k" using padding_blocks by blast
  then have "int (?n + ?pad) sdiv 4 = 2 * int k" by (simp add: sdiv_nonneg)
  moreover have "crypt_loop (encrypt_block (p_key p)) (length pre) 0 (0 + 2 * int k) (pre @ ?data @ rest)
      = Inr (pre @ map_blocks (encrypt_block (p_key p)) ?data @ rest)"
    using k by (intro crypt_loop_blocks) simp_all
  moreover have "unat (word_of_nat (length pre) :: u32) = length pre"
    using assms(6) by (simp add: unat_of_nat)
  ultimately show ?thesis
    unfolding XTEA_encrypt_def Let_def add using assms(3) by simp
qed

definition sealed :: "u32 list \<Rightarrow> bytes \<Rightarrow> bytes" where
  "sealed k body =
     (let plain = le_encode 2 (length body) @ body
      in map_blocks (encrypt_block k) (plain @ replicate (padding (length plain)) 0x33))"

definition packet :: "u32 list \<Rightarrow> bytes \<Rightarrow> bytes" where
  "packet k body =
     (let c = sealed k body
      in le_encode 2 (length c + 4) @ le_encode 4 (unat (adlerChecksum c)) @ c)"

lemma length_sealed: "length (sealed k body) = length body + 2 + padding (length body + 2)"
  by (simp add: sealed_def Let_def add.commute)

lemma onSendMessage_packet:
  assumes "m_MsgBuf m = h @ body @ rest" "length h = 8" "length (m_MsgBuf m) = 15360" "length body < 15335"
    and "m_outputBufferStart m = 8" "m_ReadPos m = int (8 + length body)" "m_MsgSize m = int (length body)"
    and "\<not> p_rawMessages p" "p_encryptionEnabled p" "p_checksumEnabled p"
  shows "\<exists>m'. onSendMessage i m p = Inr (m', if p_outputBuffer p = Some i then p\<lparr>p_outputBuffer := None\<rparr> else p)
    \<and> take (nat (m_MsgSize m')) (getOutputBuffer m') = packet (p_key p) body
    \<and> m_MsgSize m' = int (length (packet (p_key p) body))"
proof -
  let ?l = "length body"
  let ?plain = "le_encode 2 ?l @ body"
  let ?c = "sealed (p_key p) body"
  let ?pad = "padding (2 + ?l)"
  define h0 h1 h2 where "h0 = take 2 h" and "h1 = take 4 (drop 2 h)" and "h2 = drop 6 h"
  have h: "h = h0 @ h1 @ h2" "length h0 = 2" "length h1 = 4" "length h2 = 2"
    using assms(2) by (simp_all add: h0_def h1_def h2_def flip: append_assoc take_add)
  define gap where "gap = take ?pad rest"
  define tl where "tl = drop ?pad rest"
  have pad: "?pad < 8" by (rule padding_less)
  have "length rest = 15352 - ?l" using assms(1-3) by (simp add: h)
  then have rest: "rest = gap @ tl" "length gap = ?pad" using pad assms(4) by (simp_all add: gap_def tl_def)
  have "unat (word_of_int (m_MsgSize m) :: u16) = ?l"
    using assms(4,7) by (simp add: unat_of_nat)
  then have m1: "writeMessageLength m = m\<lparr>m_MsgBuf := (h0 @ h1) @ le_encode 2 ?l @ (body @ gap @ tl),
      m_outputBufferStart := word_of_nat (length (h0 @ h1)), m_MsgSize := int (2 + ?l)\<rparr>"
    using addHeader_front [of m "h0 @ h1" h2 "body @ rest" 2 ?l] assms(1,5,7) h rest
    by (simp add: writeMessageLength_def)
  have m2: "XTEA_encrypt p (writeMessageLength m)
      = Inr (m\<lparr>m_MsgBuf := (h0 @ h1) @ ?c @ tl, m_outputBufferStart := word_of_nat 6,
          m_MsgSize := int (2 + ?l + ?pad)\<rparr>)"
    using XTEA_encrypt_ok [of "writeMessageLength m" "h0 @ h1" ?plain gap tl p] rest(2) h assms(6) padding_fits [OF assms(4)]
    by (simp add: m1 sealed_def Let_def)
  let ?m2 = "m\<lparr>m_MsgBuf := (h0 @ h1) @ ?c @ tl, m_outputBufferStart := word_of_nat 6,
      m_MsgSize := int (2 + ?l + ?pad)\<rparr>"
  have len: "length ?c = 2 + ?l + ?pad" by (simp add: length_sealed add.commute)
  have "take (nat (m_MsgSize ?m2)) (getOutputBuffer ?m2) = ?c"
    using h len by (simp add: getOutputBuffer_def)
  then have "addHeader 4 (unat (adlerChecksum (take (nat (m_MsgSize ?m2)) (getOutputBuffer ?m2)))) ?m2
      = m\<lparr>m_MsgBuf := h0 @ le_encode 4 (unat (adlerChecksum ?c)) @ ?c @ tl,
          m_outputBufferStart := word_of_nat 2, m_MsgSize := int (length ?c + 4)\<rparr>"
    using addHeader_front [of ?m2 h0 h1 "?c @ tl" 4] h len by simp
  moreover have "unat (word_of_int (int (length ?c + 4)) :: u16) = length ?c + 4"
    using len pad assms(4) by (simp only: of_int_of_nat_eq unat_of_nat) simp
  ultimately have m3: "addCryptoHeader True ?m2
      = m\<lparr>m_MsgBuf := le_encode 2 (length ?c + 4) @ le_encode 4 (unat (adlerChecksum ?c)) @ ?c @ tl,
          m_outputBufferStart := 0, m_MsgSize := int (length ?c + 6)\<rparr>"
    using addHeader_front [of "m\<lparr>m_MsgBuf := h0 @ le_encode 4 (unat (adlerChecksum ?c)) @ ?c @ tl,
          m_outputBufferStart := word_of_nat 2, m_MsgSize := int (length ?c + 4)\<rparr>" "[]" h0
          "le_encode 4 (unat (adlerChecksum ?c)) @ ?c @ tl" 2 "length ?c + 4"] h
    by (simp add: addCryptoHeader_def Let_def)
  have "take (nat (m_MsgSize (addCryptoHeader True ?m2))) (getOutputBuffer (addCryptoHeader True ?m2))
      = packet (p_key p) body"
    unfolding m3 by (simp add: getOutputBuffer_def packet_def Let_def)
  moreover have "m_MsgSize (addCryptoHeader True ?m2) = int (length (packet (p_key p) body))"
    unfolding m3 by (simp add: packet_def Let_def)
  moreover have "onSendMessage i m p
      = Inr (addCryptoHeader True ?m2, if p_outputBuffer p = Some i then p\<lparr>p_outputBuffer := None\<rparr> else p)"
    using m2 assms(8-10) by (simp add: onSendMessage_def Let_def)
  ultimately show ?thesis by blast
qed

lemma XTEA_decrypt_ok:
  assumes "m_MsgBuf m = pre @ sealed (p_key p) body @ rest" "length pre = 6" "m_ReadPos m = 6"
    and "m_MsgSize m = int (length (sealed (p_key p) body) + 6)" "length body < 65536"
  shows "XTEA_decrypt p m = Inr (True, m\<lparr>m_MsgBuf := pre @ (le_encode 2 (length body) @ body
      @ replicate (padding (2 + length body)) 0x33) @ rest, m_ReadPos := 8, m_MsgSize := int (length body)\<rparr>)"
proof -
  let ?plain = "le_encode 2 (length body) @ body @ replicate (padding (2 + length body)) 0x33"
  let ?c = "sealed (p_key p) body"
  have c: "?c = map_blocks (encrypt_block (p_key p)) ?plain" by (simp add: sealed_def Let_def)
  obtain k where k: "2 + length body + padding (2 + length body) = 8 * k" using padding_blocks by blast
  then have len: "length ?plain = 8 * k" "length ?c = 8 * k" by (simp_all add: c)
  have "crypt_loop (decrypt_block (p_key p)) 6 0 (0 + 2 * int k) (pre @ ?c @ rest)
      = Inr (pre @ map_blocks (decrypt_block (p_key p)) ?c @ rest)"
    using len(2) assms(2) by (intro crypt_loop_blocks) simp_all
  moreover have "map_blocks (decrypt_block (p_key p)) ?c = ?plain"
    unfolding c using len(1) by (intro map_blocks_inverse decrypt_encrypt_block)
  moreover have "(m_MsgSize m - 6) smod 8 = 0" "(m_MsgSize m - 6) sdiv 4 = 2 * int k"
    using len(2) assms(4) by (simp_all add: smod_nonneg sdiv_nonneg)
  ultimately have loop: "crypt_loop (decrypt_block (p_key p)) 6 0 ((m_MsgSize m - 6) sdiv 4) (m_MsgBuf m)
      = Inr (pre @ ?plain @ rest)" "(m_MsgSize m - 6) smod 8 = 0"
    by (simp_all add: assms(1))
  let ?m = "m\<lparr>m_MsgBuf := pre @ ?plain @ rest\<rparr>"
  let ?w = "word_of_nat (length body) :: u16"
  have w: "unat ?w = length body" "uint ?w = int (length body)"
    using assms(5) by (simp_all add: unat_of_nat uint_nat)
  have "GetU16 ?m = Inr (?w, SkipBytes 2 ?m)"
    using assms(2,3,5) by (simp add: GetU16_def get_bytes_def peek_bytes_def)
  moreover have "\<not> uint ?w > m_MsgSize m - 8"
    using w(2) k len(2) by (simp add: assms(4))
  ultimately show ?thesis
    using loop w(2) assms(2,3) unfolding XTEA_decrypt_def by (simp add: SkipBytes_def)
qed

lemma XTEA_decrypt_refuses:
  "(m_MsgSize m - 6) mod 8 \<noteq> 0 \<Longrightarrow> XTEA_decrypt p m = Inr (False, m)"
proof -
  assume a: "(m_MsgSize m - 6) mod 8 \<noteq> 0"
  have "x smod 8 = 0 \<Longrightarrow> x mod 8 = 0" for x :: int
    by (auto simp: signed_modulo_int_def sgn_if abs_if split: if_splits)
  then show ?thesis using a by (auto simp: XTEA_decrypt_def)
qed

text \<open>
  C37: the one length that cannot be sent. A message filled to the last byte the writers allow has
  no room left for its padding, which is dropped: the bytes that go out end inside a cipher block,
  and the receiving side refuses any message of that size, whatever the key.
\<close>

theorem longest_message_unreadable:
  assumes "length (m_MsgBuf m) = 15360" "m_outputBufferStart m = 8"
    and "m_ReadPos m = 15343" "m_MsgSize m = 15335"
    and "\<not> p_rawMessages p" "p_encryptionEnabled p" "p_checksumEnabled p"
  shows "\<not> canAdd 1 m \<and>
    (\<exists>m' p'. onSendMessage i m p = Inr (m', p') \<and> m_MsgSize m' = 15343
      \<and> (m_MsgSize received = m_MsgSize m' \<longrightarrow> XTEA_decrypt q received = Inr (False, received)))"
proof -
  define b where "b = m_MsgBuf m"
  have "length (take 6 b) = 6" "length (take 2 (drop 6 b)) = 2" "b = take 6 b @ take 2 (drop 6 b) @ drop 8 b"
    using assms(1) by (simp_all add: b_def flip: append_assoc take_add)
  then obtain m1 where m1: "writeMessageLength m = m1" "m_outputBufferStart m1 = 6" "m_ReadPos m1 = 15343"
      "m_MsgSize m1 = 15337" "length (m_MsgBuf m1) = 15360"
    using addHeader_front [of m "take 6 b" "take 2 (drop 6 b)" "drop 8 b" 2] assms(1-4)
    by (simp add: writeMessageLength_def b_def)
  define data where "data = take 15344 (drop 6 (m_MsgBuf m1))"
  have split: "m_MsgBuf m1 = take 6 (m_MsgBuf m1) @ data @ drop 15350 (m_MsgBuf m1)"
    by (simp add: data_def flip: append_assoc take_add)
  have "length data = 8 * 1918" using m1(5) by (simp add: data_def)
  then have "crypt_loop (encrypt_block (p_key p)) 6 0 (0 + 2 * int 1918) (m_MsgBuf m1)
      = Inr (take 6 (m_MsgBuf m1) @ map_blocks (encrypt_block (p_key p)) data @ drop 15350 (m_MsgBuf m1))"
    using m1(5) by (subst split) (intro crypt_loop_blocks, simp_all)
  moreover have "sint (7 :: u32) = 7" by simp
  moreover have "(15337 :: int) smod 8 = 1" "(15344 :: int) sdiv 4 = 3836"
    by (simp_all add: smod_nonneg sdiv_nonneg)
  ultimately obtain buf where enc: "XTEA_encrypt p m1 = Inr (m1\<lparr>m_MsgBuf := buf\<rparr>)" "length buf = 15360"
    using m1(2-5) \<open>length data = 8 * 1918\<close>
    by (simp add: XTEA_encrypt_def Let_def AddPaddingBytes_def canAdd_def NETWORKMESSAGE_MAXSIZE_def)
  define m2 where "m2 = m1\<lparr>m_MsgBuf := buf\<rparr>"
  have m2: "m_outputBufferStart m2 = 6" "m_MsgSize m2 = 15337" using m1 by (simp_all add: m2_def)
  have "m_MsgSize (addCryptoHeader True m2) = 15343"
    using m2 by (simp add: addCryptoHeader_def Let_def addHeader_def)
  moreover have "XTEA_decrypt q received = Inr (False, received)" if "m_MsgSize received = 15343"
    using that by (intro XTEA_decrypt_refuses) simp
  moreover have "\<exists>p'. onSendMessage i m p = Inr (addCryptoHeader True m2, p')"
    using assms(5-7) m1(1) enc(1) by (simp add: onSendMessage_def Let_def m2_def)
  moreover have "\<not> canAdd 1 m" using assms(3) by (simp add: canAdd_def NETWORKMESSAGE_MAXSIZE_def)
  ultimately show ?thesis by auto
qed

lemma longest_message_unreadable_witness:
  "\<exists>m' p'. onSendMessage 0 \<lparr>m_MsgBuf = replicate 15360 0, m_MsgSize = 15335, m_ReadPos = 15343, m_outputBufferStart = 8\<rparr>
      (enableChecksum (enableXTEAEncryption (protocol_new None))) = Inr (m', p') \<and> m_MsgSize m' = 15343
    \<and> XTEA_decrypt (protocol_new None) \<lparr>m_MsgBuf = [], m_MsgSize = 15343, m_ReadPos = 2\<rparr>
       = Inr (False, \<lparr>m_MsgBuf = [], m_MsgSize = 15343, m_ReadPos = 2\<rparr>)"
  using longest_message_unreadable [of "\<lparr>m_MsgBuf = replicate 15360 0, m_MsgSize = 15335, m_ReadPos = 15343,
      m_outputBufferStart = 8\<rparr>" "enableChecksum (enableXTEAEncryption (protocol_new None))" 0
      "\<lparr>m_MsgBuf = [], m_MsgSize = 15343, m_ReadPos = 2\<rparr>" "protocol_new None"]
  by (fastforce simp: enableChecksum_def enableXTEAEncryption_def protocol_new_def)

end
