(* ===== verification/Connection.thy ===== *)
theory Connection
  imports Protocol_Crypto
begin

text \<open>
  \<^verbatim>\<open>Connection\<close> (\<^verbatim>\<open>src/sources/connection.h\<close>, \<^verbatim>\<open>connection.cpp\<close>): one client's socket with its
  read loop, its write and its orderly end.  Every handler runs under \<^verbatim>\<open>m_connectionLock\<close>, so a
  handler is one step: it changes the record and lists what it asks of the world outside (start a
  read or a write, arm or cancel a timer, queue a task for the dispatcher).  A call through the
  null \<^verbatim>\<open>m_socket\<close> (also by \<^verbatim>\<open>getHandle\<close>) or the null \<^verbatim>\<open>m_protocol\<close> is undefined behaviour.  The
  socket library does not throw in this model, and the log is left out.  What the protocol does inside a callback to this connection (\<^verbatim>\<open>close\<close>,
  \<^verbatim>\<open>send\<close>) is a step of its own.
\<close>

section \<open>State and effects\<close>

datatype connection_state =
    CONNECTION_STATE_OPEN | CONNECTION_STATE_REQUEST_CLOSE | CONNECTION_STATE_CLOSING
  | CONNECTION_STATE_CLOSED

datatype conn_effect =
    Arm_read_timer | Cancel_read_timer | Arm_write_timer | Cancel_write_timer
  | Read_header | Read_body nat | Write_bytes bytes
  | Add_close_task | Schedule_release | Dispatch_stop | Auto_send
  | Release_protocol | On_connect | Make_protocol bool
  | Recv_first network_message | Recv network_message | Release_from_manager

record connection =
  c_msg :: network_message
  c_protocol :: bool
  c_socket :: bool
  c_socketOpen :: bool
  c_receivedFirst :: bool
  c_writeError :: bool
  c_readError :: bool
  c_pendingWrite :: int
  c_pendingRead :: int
  c_state :: connection_state
  c_refCount :: u32

definition connection_new :: "bytes \<Rightarrow> connection" where
  "connection_new garbage =
     \<lparr>c_msg = message_new garbage, c_protocol = False, c_socket = True, c_socketOpen = True,
      c_receivedFirst = False, c_writeError = False, c_readError = False, c_pendingWrite = 0,
      c_pendingRead = 0, c_state = CONNECTION_STATE_OPEN, c_refCount = 0\<rparr>"

type_synonym conn_op = "connection \<Rightarrow> (connection \<times> conn_effect list) run"

definition op_then :: "conn_op \<Rightarrow> conn_op \<Rightarrow> conn_op" where
  "op_then f g c = bind_run (f c) (\<lambda>(c, es). bind_run (g c) (\<lambda>(c, fs). Inr (c, es @ fs)))"

definition skip :: conn_op where
  "skip c = Inr (c, [])"

definition change :: "(connection \<Rightarrow> connection) \<Rightarrow> conn_op" where
  "change f c = Inr (f c, [])"

definition emit :: "conn_effect list \<Rightarrow> conn_op" where
  "emit es c = Inr (c, es)"

text \<open>\<^verbatim>\<open>getHandle\<close> dereferences \<^verbatim>\<open>m_socket\<close>; every read and write is started through it.\<close>

definition getHandle :: conn_op where
  "getHandle c = (if c_socket c then Inr (c, []) else Inl Undefined_behaviour)"

section \<open>Closing\<close>

definition close :: conn_op where
  "close c =
     (if c_state c = CONNECTION_STATE_CLOSED \<or> c_state c = CONNECTION_STATE_REQUEST_CLOSE then skip c
      else Inr (c\<lparr>c_state := CONNECTION_STATE_REQUEST_CLOSE\<rparr>, [Add_close_task]))"

definition closeSocket :: conn_op where
  "closeSocket c =
     (if \<not> c_socket c then Inl Undefined_behaviour
      else if c_socketOpen c
      then Inr (c\<lparr>c_pendingRead := 0, c_pendingWrite := 0, c_socketOpen := False\<rparr>, [])
      else skip c)"

definition onStop :: conn_op where
  "onStop c =
     (if \<not> c_socket c then Inl Undefined_behaviour
      else Inr (c\<lparr>c_socketOpen := False, c_socket := False\<rparr>,
        [Cancel_read_timer, Cancel_write_timer, Release_from_manager]))"

definition deleteConnection :: conn_op where
  "deleteConnection c = require (c_refCount c = 0) (Inr (c, [Dispatch_stop]))"

definition releaseConnection :: conn_op where
  "releaseConnection c =
     (if c_refCount c > 0 then Inr (c, [Schedule_release]) else deleteConnection c)"

definition closeConnection :: conn_op where
  "closeConnection c =
     (if c_state c \<noteq> CONNECTION_STATE_REQUEST_CLOSE then skip c
      else
        op_then
          (\<lambda>c. if c_protocol c then Inr (c\<lparr>c_protocol := False\<rparr>, [Release_protocol]) else skip c)
        (op_then (change (\<lambda>c. c\<lparr>c_state := CONNECTION_STATE_CLOSING\<rparr>))
          (\<lambda>c. if c_pendingWrite c = 0 \<or> c_writeError c
               then op_then closeSocket (op_then releaseConnection
                      (change (\<lambda>c. c\<lparr>c_state := CONNECTION_STATE_CLOSED\<rparr>))) c
               else skip c)) c)"

section \<open>Reading\<close>

text \<open>
  \<^verbatim>\<open>operation_aborted\<close> does not close the connection; every other code does, \<^verbatim>\<open>success\<close> included,
  with which \<open>parseHeader\<close> reports a bad size.
\<close>

datatype io_error = Success | Operation_aborted | Other_error

definition handleReadError :: "io_error \<Rightarrow> conn_op" where
  "handleReadError e =
     op_then (if e = Operation_aborted then skip else close) (change (\<lambda>c. c\<lparr>c_readError := True\<rparr>))"

definition handleWriteError :: "io_error \<Rightarrow> conn_op" where
  "handleWriteError e =
     op_then (if e = Operation_aborted then skip else close) (change (\<lambda>c. c\<lparr>c_writeError := True\<rparr>))"

definition accept :: conn_op where
  "accept =
     op_then (change (\<lambda>c. c\<lparr>c_pendingRead := c_pendingRead c + 1\<rparr>))
       (op_then (emit [Arm_read_timer]) (op_then getHandle (emit [Read_header])))"

definition handle :: conn_op where
  "handle = op_then (\<lambda>c. Inr (c\<lparr>c_protocol := True\<rparr>, [On_connect])) accept"

definition refused :: "connection \<Rightarrow> bool" where
  "refused c \<longleftrightarrow> c_state c \<noteq> CONNECTION_STATE_OPEN \<or> c_readError c"

definition parseHeader :: "io_error \<Rightarrow> conn_op" where
  "parseHeader e c =
     bind_run (decodeHeader (c_msg c)) (\<lambda>(count, msg).
       op_then (emit [Cancel_read_timer])
       (op_then
         (if e \<noteq> Success \<or> count \<le> 0 \<or> count \<ge> int NETWORKMESSAGE_MAXSIZE - 16 then handleReadError e else skip)
         (\<lambda>c. if refused c then close c
              else
                op_then (change (\<lambda>c. c\<lparr>c_pendingRead := c_pendingRead c - 1\<rparr>))
                (op_then (change (\<lambda>c. c\<lparr>c_pendingRead := c_pendingRead c + 1\<rparr>))
                (op_then (emit [Arm_read_timer])
                (op_then (change (\<lambda>c. c\<lparr>c_msg := (c_msg c)\<lparr>m_MsgSize := count + 2, m_ReadPos := 2\<rparr>\<rparr>))
                (op_then getHandle
                  (emit [Read_body (nat count)]))))) c))
       (c\<lparr>c_msg := msg\<rparr>))"

text \<open>The services of a port: their protocol numbers and whether their first packet has a checksum.\<close>

type_synonym services = "(u8 \<times> bool) list"

fun find_service :: "services \<Rightarrow> bool \<Rightarrow> u8 \<Rightarrow> u8 option" where
  "find_service [] checksum protocolId = None"
| "find_service ((ident, hasChecksum) # rest) checksum protocolId =
     (if ident = protocolId \<and> ((checksum \<and> hasChecksum) \<or> \<not> hasChecksum) then Some ident
      else find_service rest checksum protocolId)"

definition makeProtocol :: "services \<Rightarrow> bool \<Rightarrow> network_message \<Rightarrow> (u8 option \<times> network_message) run" where
  "makeProtocol services checksum msg =
     bind_run (GetByte msg) (\<lambda>(protocolId, msg). Inr (find_service services checksum protocolId, msg))"

definition checksum_of :: "network_message \<Rightarrow> u32 run" where
  "checksum_of msg =
     (let count = word_of_int (m_MsgSize msg - m_ReadPos msg - 4) :: u32; p = nat (m_ReadPos msg) + 4 in
      if count = 0 \<or> unat count > NETWORKMESSAGE_MAXSIZE then Inr 0
      else if p + unat count > length (m_MsgBuf msg) then Inl Undefined_behaviour
      else Inr (adlerChecksum (take (unat count) (drop p (m_MsgBuf msg)))))"

text \<open>
  \<open>leave\<close> is what the protocol leaves in the message it is given.  A later packet goes to the
  protocol without asking whether there is one.
\<close>

definition await_header :: conn_op where
  "await_header =
     op_then (change (\<lambda>c. c\<lparr>c_pendingRead := c_pendingRead c + 1\<rparr>))
       (op_then (emit [Arm_read_timer]) (op_then getHandle (emit [Read_header])))"

definition deliver :: "services \<Rightarrow> (network_message \<Rightarrow> network_message) \<Rightarrow> bool \<Rightarrow> conn_op" where
  "deliver services leave checksumEnabled c =
     (if c_receivedFirst c
      then
        if \<not> c_protocol c then Inl Undefined_behaviour
        else op_then (\<lambda>c. Inr (c\<lparr>c_msg := leave (c_msg c)\<rparr>, [Recv (c_msg c)])) await_header c
      else
        let c = c\<lparr>c_receivedFirst := True\<rparr> in
        if c_protocol c
        then op_then (change (\<lambda>c. c\<lparr>c_msg := SkipBytes 1 (c_msg c)\<rparr>))
          (op_then (\<lambda>c. Inr (c\<lparr>c_msg := leave (c_msg c)\<rparr>, [Recv_first (c_msg c)])) await_header) c
        else
          bind_run (makeProtocol services checksumEnabled (c_msg c)) (\<lambda>(p, msg).
            let c = c\<lparr>c_msg := msg\<rparr> in
            if p = None then op_then (emit [Make_protocol checksumEnabled]) close c
            else op_then (\<lambda>c. Inr (c\<lparr>c_protocol := True\<rparr>, [Make_protocol checksumEnabled]))
              (op_then (\<lambda>c. Inr (c\<lparr>c_msg := leave (c_msg c)\<rparr>, [Recv_first (c_msg c)])) await_header) c))"

definition parsePacket :: "services \<Rightarrow> (network_message \<Rightarrow> network_message) \<Rightarrow> io_error \<Rightarrow> conn_op" where
  "parsePacket services leave e =
     op_then (emit [Cancel_read_timer])
     (op_then (if e \<noteq> Success then handleReadError e else skip)
       (\<lambda>c. if refused c then close c
            else
              let c = c\<lparr>c_pendingRead := c_pendingRead c - 1\<rparr> in
              bind_run (PeekU32 (c_msg c)) (\<lambda>checksumReceived.
              bind_run (checksum_of (c_msg c)) (\<lambda>checksum.
                if checksumReceived = checksum
                then deliver services leave True (c\<lparr>c_msg := SkipBytes 4 (c_msg c)\<rparr>)
                else deliver services leave False c))))"

section \<open>Writing\<close>

definition internalSend :: "output_message \<Rightarrow> conn_op" where
  "internalSend msg =
     op_then (change (\<lambda>c. c\<lparr>c_pendingWrite := c_pendingWrite c + 1\<rparr>))
       (op_then (emit [Arm_write_timer])
       (op_then getHandle (emit [Write_bytes (take (nat (m_MsgSize msg)) (getOutputBuffer msg))])))"

text \<open>
  The result says whether the message was taken; \<open>onSend\<close> is \<^verbatim>\<open>onSendMessage\<close> of the message's
  protocol, which may be gone.
\<close>

definition send :: "bool \<Rightarrow> (output_message \<Rightarrow> output_message run) option \<Rightarrow> output_message \<Rightarrow> connection
    \<Rightarrow> (bool \<times> connection \<times> conn_effect list) run" where
  "send forceClose onSend msg c =
     (if c_state c \<noteq> CONNECTION_STATE_OPEN \<or> c_writeError c then Inr (False, c, [])
      else
        bind_run
          (if c_pendingWrite c = 0
           then bind_run (case onSend of Some f \<Rightarrow> f msg | None \<Rightarrow> Inr msg) (\<lambda>msg. internalSend msg c)
           else if c_pendingWrite c > 100 \<and> forceClose then close c
           else Inr (c, [Auto_send]))
          (\<lambda>(c, es). Inr (True, c, es)))"

definition onWrite :: "io_error \<Rightarrow> conn_op" where
  "onWrite e =
     op_then (emit [Cancel_write_timer])
     (op_then (if e \<noteq> Success then handleWriteError e else skip)
       (\<lambda>c. if c_state c \<noteq> CONNECTION_STATE_OPEN \<or> c_writeError c
            then op_then closeSocket close c
            else change (\<lambda>c. c\<lparr>c_pendingWrite := c_pendingWrite c - 1\<rparr>) c))"

section \<open>Timeouts\<close>

text \<open>
  The timer handlers hold a weak pointer; \<open>expired\<close> says that the connection is gone.
\<close>

definition onReadTimeout :: conn_op where
  "onReadTimeout c =
     (if c_pendingRead c > 0 \<or> c_readError c then op_then closeSocket close c else skip c)"

definition onWriteTimeout :: conn_op where
  "onWriteTimeout c =
     (if c_pendingWrite c > 0 \<or> c_writeError c then op_then closeSocket close c else skip c)"

definition handleReadTimeout :: "io_error \<Rightarrow> bool \<Rightarrow> conn_op" where
  "handleReadTimeout e expired = (if e = Operation_aborted \<or> expired then skip else onReadTimeout)"

definition handleWriteTimeout :: "io_error \<Rightarrow> bool \<Rightarrow> conn_op" where
  "handleWriteTimeout e expired = (if e = Operation_aborted \<or> expired then skip else onWriteTimeout)"

section \<open>References held by messages\<close>

definition conn_addRef :: "connection \<Rightarrow> connection" where
  "conn_addRef c = c\<lparr>c_refCount := c_refCount c + 1\<rparr>"

definition conn_unRef :: "connection \<Rightarrow> connection" where
  "conn_unRef c = c\<lparr>c_refCount := c_refCount c - 1\<rparr>"

end
