(* ===== verification/Connection_Safety.thy ===== *)
theory Connection_Safety
  imports Connection
begin

text \<open>
  The life of a connection: its handlers run in whatever order the network, the timers and the
  dispatcher bring them.  The world around the record holds what is outstanding; one step runs one
  handler.  The invariant of the reachable worlds shows which handlers can use the socket after it
  was deleted, that none leaves the message buffer, and that a connection is never stuck.
  \<^verbatim>\<open>ConnectionManager::shutdown\<close>, which closes all sockets when the server ends, is not a step.
\<close>

section \<open>The world around a connection\<close>

datatype read_op = Header_op | Body_op nat

record world =
  w_conn :: connection
  w_managed :: bool
  w_reads :: "read_op list"
  w_writes :: nat
  w_closeTasks :: nat
  w_releaseTasks :: nat
  w_stops :: nat
  w_readTimer :: bool
  w_readQueued :: nat
  w_writeTimer :: bool
  w_writeQueued :: nat
  w_refs :: nat

text \<open>
  \<open>w_refs\<close> counts the messages that hold a reference on the connection and are not being written.
  A write takes over the reference of its message.  A timer waits while it is armed; when its time
  is up its handler is queued with success, and cancelling the timer or arming it again, which
  aborts the wait, does not take a queued handler back (as Boost.Asio documents).  The handlers of
  aborted waits get \<^verbatim>\<open>operation_aborted\<close>.

  The connection lives while somebody holds a shared pointer to it: the list of the
  \<^verbatim>\<open>ConnectionManager\<close>, the handlers of reads and writes, the messages, and the protocol.  The tasks
  hold a plain \<^verbatim>\<open>this\<close>, the timers a weak pointer.
\<close>

definition alive :: "world \<Rightarrow> bool" where
  "alive w \<longleftrightarrow> w_managed w \<or> w_reads w \<noteq> [] \<or> w_writes w > 0 \<or> w_refs w > 0 \<or> c_protocol (w_conn w)"

fun absorb :: "conn_effect \<Rightarrow> world \<Rightarrow> world" where
  "absorb Arm_read_timer w = w\<lparr>w_readTimer := True\<rparr>"
| "absorb Cancel_read_timer w = w\<lparr>w_readTimer := False\<rparr>"
| "absorb Arm_write_timer w = w\<lparr>w_writeTimer := True\<rparr>"
| "absorb Cancel_write_timer w = w\<lparr>w_writeTimer := False\<rparr>"
| "absorb Read_header w = w\<lparr>w_reads := w_reads w @ [Header_op]\<rparr>"
| "absorb (Read_body n) w = w\<lparr>w_reads := w_reads w @ [Body_op n]\<rparr>"
| "absorb (Write_bytes bs) w = w\<lparr>w_writes := w_writes w + 1, w_refs := w_refs w - 1\<rparr>"
| "absorb Add_close_task w = w\<lparr>w_closeTasks := w_closeTasks w + 1\<rparr>"
| "absorb Schedule_release w = w\<lparr>w_releaseTasks := w_releaseTasks w + 1\<rparr>"
| "absorb Dispatch_stop w = w\<lparr>w_stops := w_stops w + 1\<rparr>"
| "absorb Release_from_manager w = w\<lparr>w_managed := False\<rparr>"
| "absorb _ w = w"

definition settle :: "connection \<times> conn_effect list \<Rightarrow> world \<Rightarrow> world" where
  "settle = (\<lambda>(c, es) w. fold absorb es (w\<lparr>w_conn := c\<rparr>))"

definition perform :: "conn_op \<Rightarrow> world \<Rightarrow> world run" where
  "perform f w = bind_run (f (w_conn w)) (\<lambda>r. Inr (settle r w))"

text \<open>A task that holds \<^verbatim>\<open>this\<close>: using it after the connection is gone is undefined.\<close>

definition perform_raw :: "conn_op \<Rightarrow> world \<Rightarrow> world run" where
  "perform_raw f w = (if alive w then perform f w else Inl Undefined_behaviour)"

text \<open>What the network puts into the buffer when a read completes.\<close>

definition fill :: "nat \<Rightarrow> bytes \<Rightarrow> world \<Rightarrow> world run" where
  "fill p bs w =
     (let msg = c_msg (w_conn w) in
      if p + length bs > length (m_MsgBuf msg) then Inl Undefined_behaviour
      else Inr (w\<lparr>w_conn := (w_conn w)\<lparr>c_msg := msg\<lparr>m_MsgBuf := put_at (m_MsgBuf msg) p bs\<rparr>\<rparr>\<rparr>))"

definition world_of :: "connection \<Rightarrow> world" where
  "world_of c = \<lparr>w_conn = c, w_managed = True, w_reads = [], w_writes = 0, w_closeTasks = 0,
     w_releaseTasks = 0, w_stops = 0, w_readTimer = False, w_readQueued = 0, w_writeTimer = False,
     w_writeQueued = 0, w_refs = 0\<rparr>"

text \<open>
  A message is made for the connection of a protocol, so only while it has one; \<^verbatim>\<open>onSendMessage\<close> of
  the protocol returns.
\<close>

inductive conn_step :: "services \<Rightarrow> world \<Rightarrow> world run \<Rightarrow> bool" for services where
  header_read: "w_reads w = Header_op # rest \<Longrightarrow> length bs = 2 \<Longrightarrow>
    conn_step services w (bind_run (fill 0 bs (w\<lparr>w_reads := rest\<rparr>)) (perform (parseHeader e)))"
| body_read: "w_reads w = Body_op n # rest \<Longrightarrow> length bs = n \<Longrightarrow>
    (\<And>m. length (m_MsgBuf (leave m)) = length (m_MsgBuf m)) \<Longrightarrow>
    conn_step services w (bind_run (fill 2 bs (w\<lparr>w_reads := rest\<rparr>)) (perform (parsePacket services leave e)))"
| written: "w_writes w > 0 \<Longrightarrow>
    conn_step services w (perform (onWrite e) (w\<lparr>w_writes := w_writes w - 1, w_refs := w_refs w + 1\<rparr>))"
| sent: "w_refs w > 0 \<Longrightarrow> (\<And>f m. onSend = Some f \<Longrightarrow> \<exists>m'. f m = Inr m') \<Longrightarrow>
    conn_step services w (bind_run (send forceClose onSend msg (w_conn w)) (\<lambda>(taken, r). Inr (settle r w)))"
| referenced: "c_protocol (w_conn w) \<Longrightarrow> w_refs w + w_writes w < 2 ^ 32 - 1 \<Longrightarrow>
    conn_step services w (Inr (w\<lparr>w_refs := w_refs w + 1, w_conn := conn_addRef (w_conn w)\<rparr>))"
| unreferenced: "w_refs w > 0 \<Longrightarrow>
    conn_step services w (Inr (w\<lparr>w_refs := w_refs w - 1, w_conn := conn_unRef (w_conn w)\<rparr>))"
| closed_by_user: "alive w \<Longrightarrow> conn_step services w (perform close w)"
| close_task: "w_closeTasks w > 0 \<Longrightarrow>
    conn_step services w (perform_raw closeConnection (w\<lparr>w_closeTasks := w_closeTasks w - 1\<rparr>))"
| release_task: "w_releaseTasks w > 0 \<Longrightarrow>
    conn_step services w (perform_raw releaseConnection (w\<lparr>w_releaseTasks := w_releaseTasks w - 1\<rparr>))"
| stop: "w_stops w > 0 \<Longrightarrow>
    conn_step services w (perform_raw onStop (w\<lparr>w_stops := w_stops w - 1\<rparr>))"
| read_timer_up: "w_readTimer w \<Longrightarrow>
    conn_step services w (Inr (w\<lparr>w_readTimer := False, w_readQueued := w_readQueued w + 1\<rparr>))"
| write_timer_up: "w_writeTimer w \<Longrightarrow>
    conn_step services w (Inr (w\<lparr>w_writeTimer := False, w_writeQueued := w_writeQueued w + 1\<rparr>))"
| read_timeout: "w_readQueued w > 0 \<Longrightarrow>
    conn_step services w (perform (handleReadTimeout Success (\<not> alive w)) (w\<lparr>w_readQueued := w_readQueued w - 1\<rparr>))"
| write_timeout: "w_writeQueued w > 0 \<Longrightarrow>
    conn_step services w (perform (handleWriteTimeout Success (\<not> alive w)) (w\<lparr>w_writeQueued := w_writeQueued w - 1\<rparr>))"
| read_wait_aborted: "conn_step services w (perform (handleReadTimeout Operation_aborted (\<not> alive w)) w)"
| write_wait_aborted: "conn_step services w (perform (handleWriteTimeout Operation_aborted (\<not> alive w)) w)"

text \<open>A connection starts with its first read, with or without a protocol of its own.\<close>

inductive conn_reachable :: "services \<Rightarrow> world \<Rightarrow> bool" for services where
  accepted: "length garbage = 15360 \<Longrightarrow> perform accept (world_of (connection_new garbage)) = Inr w \<Longrightarrow>
    conn_reachable services w"
| handled: "length garbage = 15360 \<Longrightarrow> perform handle (world_of (connection_new garbage)) = Inr w \<Longrightarrow>
    conn_reachable services w"
| stepped: "conn_reachable services w \<Longrightarrow> conn_step services w (Inr w') \<Longrightarrow> conn_reachable services w'"

section \<open>The invariant\<close>

definition reads_ok :: "read_op list \<Rightarrow> network_message \<Rightarrow> bool" where
  "reads_ok reads msg \<longleftrightarrow> reads = [Header_op] \<or>
     (\<exists>n. reads = [Body_op n] \<and> 0 < n \<and> n < 15344 \<and> m_MsgSize msg = int n + 2 \<and> m_ReadPos msg = 2)"

definition refs_ok :: "u32 \<Rightarrow> nat \<Rightarrow> bool" where
  "refs_ok r n \<longleftrightarrow> r = of_nat n \<and> n < 2 ^ 32"

text \<open>
  Every state owes the world something: an open connection reads, a closing one waits for its
  close task or for its write, a closed one for its release until the socket is gone.
\<close>

fun state_ok :: "connection_state \<Rightarrow> connection \<Rightarrow> world \<Rightarrow> bool" where
  "state_ok CONNECTION_STATE_OPEN c w \<longleftrightarrow> c_socket c \<and> c_socketOpen c \<and> \<not> c_writeError c \<and> \<not> c_readError c
     \<and> c_pendingRead c = 1 \<and> c_pendingWrite c = int (w_writes w) \<and> w_managed w
     \<and> (c_receivedFirst c \<longrightarrow> c_protocol c)
     \<and> w_closeTasks w = 0 \<and> w_releaseTasks w = 0 \<and> w_stops w = 0"
| "state_ok CONNECTION_STATE_REQUEST_CLOSE c w \<longleftrightarrow> c_socket c \<and> w_managed w \<and> w_closeTasks w = 1
     \<and> w_releaseTasks w = 0 \<and> w_stops w = 0"
| "state_ok CONNECTION_STATE_CLOSING c w \<longleftrightarrow> c_socket c \<and> w_managed w \<and> \<not> c_protocol c
     \<and> \<not> c_writeError c \<and> c_pendingWrite c = 1
     \<and> w_closeTasks w = 0 \<and> w_releaseTasks w = 0 \<and> w_stops w = 0"
| "state_ok CONNECTION_STATE_CLOSED c w \<longleftrightarrow> \<not> c_socketOpen c \<and> (w_managed w \<longleftrightarrow> c_socket c) \<and> \<not> c_protocol c
     \<and> w_closeTasks w = 0
     \<and> w_releaseTasks w + w_stops w + (if c_socket c then 0 else 1) = 1
     \<and> (w_stops w > 0 \<or> \<not> c_socket c \<longrightarrow> w_writes w = 0 \<and> w_refs w = 0)
     \<and> (\<not> c_socket c \<longrightarrow> \<not> w_readTimer w \<and> \<not> w_writeTimer w)"

definition base_inv :: "world \<Rightarrow> bool" where
  "base_inv w \<longleftrightarrow>
     (let c = w_conn w in
      length (m_MsgBuf (c_msg c)) = 15360 \<and> refs_ok (c_refCount c) (w_refs w + w_writes w) \<and> w_writes w \<le> 1
      \<and> (c_pendingWrite c = 0 \<or> c_pendingWrite c = 1 \<and> w_writes w = 1)
      \<and> (\<not> c_socketOpen c \<longrightarrow> c_pendingWrite c = 0 \<and> c_pendingRead c = 0) \<and> state_ok (c_state c) c w)"

definition conn_inv :: "world \<Rightarrow> bool" where
  "conn_inv w \<longleftrightarrow> base_inv w \<and>
     (if c_state (w_conn w) = CONNECTION_STATE_OPEN then reads_ok (w_reads w) (c_msg (w_conn w))
      else w_reads w = [] \<or> reads_ok (w_reads w) (c_msg (w_conn w)) \<and> \<not> c_readError (w_conn w))"

lemma refs_ok_zero: "refs_ok r n \<Longrightarrow> r = 0 \<longleftrightarrow> n = 0"
  by (auto simp: refs_ok_def word_unat_eq_iff unat_of_nat)

lemma refs_ok_pos: "refs_ok r n \<Longrightarrow> r > 0 \<longleftrightarrow> n > 0"
  using refs_ok_zero [of r n] by (simp add: word_gt_0)

text \<open>A step that cannot fail and keeps the invariant.\<close>

definition sound :: "world run \<Rightarrow> bool" where
  "sound r \<longleftrightarrow> (\<exists>w. r = Inr w \<and> conn_inv w)"

lemma sound_Inr [simp]: "sound (Inr w) \<longleftrightarrow> conn_inv w"
  by (simp add: sound_def)

lemmas handler_defs = perform_def perform_raw_def alive_def getHandle_def op_then_def skip_def change_def emit_def settle_def require_def
  close_def closeSocket_def closeConnection_def releaseConnection_def deleteConnection_def onStop_def
  handleReadError_def handleWriteError_def refused_def handleReadTimeout_def handleWriteTimeout_def
  onReadTimeout_def onWriteTimeout_def onWrite_def

lemmas conn_inv_defs = conn_inv_def base_inv_def Let_def

lemma close_sound:
  assumes "conn_inv w"
  shows "sound (perform close w)"
  using assms by (cases "c_state (w_conn w)") (auto simp: handler_defs conn_inv_defs)

lemma stop_sound:
  assumes "conn_inv w" "w_stops w > 0"
  shows "sound (perform_raw onStop (w\<lparr>w_stops := w_stops w - 1\<rparr>))"
  using assms by (cases "c_state (w_conn w)") (auto simp add: handler_defs conn_inv_defs split: if_splits)

lemma release_sound:
  assumes "conn_inv w" "w_releaseTasks w > 0"
  shows "sound (perform_raw releaseConnection (w\<lparr>w_releaseTasks := w_releaseTasks w - 1\<rparr>))"
proof (cases "c_refCount (w_conn w) = 0")
  case True
  have "refs_ok (c_refCount (w_conn w)) (w_refs w + w_writes w)" using assms by (simp add: conn_inv_defs)
  then have "w_refs w = 0" "w_writes w = 0" using True refs_ok_zero by fastforce+
  with True assms show ?thesis
    by (cases "c_state (w_conn w)") (auto simp: handler_defs conn_inv_defs split: if_splits)
next
  case False
  then have "c_refCount (w_conn w) > 0" by (simp add: word_gt_0)
  with assms show ?thesis
    by (cases "c_state (w_conn w)") (auto simp: handler_defs conn_inv_defs split: if_splits)
qed

lemma close_task_sound:
  assumes "conn_inv w" "w_closeTasks w > 0"
  shows "sound (perform_raw closeConnection (w\<lparr>w_closeTasks := w_closeTasks w - 1\<rparr>))"
proof (cases "c_state (w_conn w) = CONNECTION_STATE_REQUEST_CLOSE")
  case True
  have r: "refs_ok (c_refCount (w_conn w)) (w_refs w + w_writes w)" using assms by (simp add: conn_inv_defs)
  show ?thesis
  proof (cases "c_refCount (w_conn w) = 0")
    case z: True
    then have "w_refs w = 0" "w_writes w = 0" using refs_ok_zero [OF r] by simp_all
    with True z assms show ?thesis by (auto simp add: handler_defs conn_inv_defs split: if_splits)
  next
    case False
    then have "c_refCount (w_conn w) > 0" by (simp add: word_gt_0)
    with True False assms show ?thesis by (auto simp add: handler_defs conn_inv_defs split: if_splits)
  qed
next
  case False
  with assms show ?thesis
    by (cases "c_state (w_conn w)") (auto simp add: handler_defs conn_inv_defs split: if_splits)
qed

lemma read_timeout_sound:
  assumes "conn_inv w" "w_readQueued w > 0"
  shows "sound (perform (handleReadTimeout Success (\<not> alive w)) (w\<lparr>w_readQueued := w_readQueued w - 1\<rparr>))"
  using assms by (cases "c_state (w_conn w)") (auto simp: handler_defs conn_inv_defs split: if_splits)

text \<open>
  The one handler that can fail: the handler of the write timer was queued before a write failed,
  and runs after the socket was deleted, while a read keeps the connection alive.
\<close>

definition late_write_timeout :: "world \<Rightarrow> world run \<Rightarrow> bool" where
  "late_write_timeout w r \<longleftrightarrow> r = Inl Undefined_behaviour \<and> w_writeQueued w > 0
     \<and> c_state (w_conn w) = CONNECTION_STATE_CLOSED \<and> \<not> c_socket (w_conn w)
     \<and> c_writeError (w_conn w) \<and> w_reads w \<noteq> []"

lemma write_timeout_sound:
  assumes "conn_inv w" "w_writeQueued w > 0"
  defines "r \<equiv> perform (handleWriteTimeout Success (\<not> alive w)) (w\<lparr>w_writeQueued := w_writeQueued w - 1\<rparr>)"
  shows "sound r \<or> late_write_timeout w r"
  using assms by (cases "c_state (w_conn w)") (auto simp: late_write_timeout_def handler_defs conn_inv_defs split: if_splits)

lemma timer_up_sound:
  assumes "conn_inv w"
  shows "w_readTimer w \<Longrightarrow> conn_inv (w\<lparr>w_readTimer := False, w_readQueued := w_readQueued w + 1\<rparr>)"
    "w_writeTimer w \<Longrightarrow> conn_inv (w\<lparr>w_writeTimer := False, w_writeQueued := w_writeQueued w + 1\<rparr>)"
  using assms by (cases "c_state (w_conn w)"; auto simp: conn_inv_defs split: if_splits)+

lemma aborted_sound:
  assumes "conn_inv w"
  shows "sound (perform (handleReadTimeout Operation_aborted x) w)"
    "sound (perform (handleWriteTimeout Operation_aborted x) w)"
  using assms by (simp_all add: handler_defs)

lemma written_sound:
  assumes "conn_inv w" "w_writes w > 0"
  shows "sound (perform (onWrite e) (w\<lparr>w_writes := w_writes w - 1, w_refs := w_refs w + 1\<rparr>))"
proof -
  have "w_writes w = 1" using assms by (simp add: conn_inv_defs)
  with assms show ?thesis
    by (cases "c_state (w_conn w)"; cases e) (auto simp: handler_defs conn_inv_defs split: if_splits)
qed

lemma referenced_sound:
  assumes "conn_inv w" "c_protocol (w_conn w)" "w_refs w + w_writes w < 2 ^ 32 - 1"
  shows "conn_inv (w\<lparr>w_refs := w_refs w + 1, w_conn := conn_addRef (w_conn w)\<rparr>)"
proof -
  have "refs_ok (c_refCount (w_conn w) + 1) (Suc (w_refs w + w_writes w))"
    using assms by (simp add: conn_inv_defs refs_ok_def add.commute)
  with assms(1,2) show ?thesis
    by (cases "c_state (w_conn w)") (auto simp: conn_addRef_def conn_inv_defs split: if_splits)
qed

lemma unreferenced_sound:
  assumes "conn_inv w" "w_refs w > 0"
  shows "conn_inv (w\<lparr>w_refs := w_refs w - 1, w_conn := conn_unRef (w_conn w)\<rparr>)"
proof -
  obtain k where k: "w_refs w = Suc k" using assms(2) by (cases "w_refs w") simp_all
  then have "refs_ok (c_refCount (w_conn w) - 1) (k + w_writes w)"
    using assms by (simp add: conn_inv_defs refs_ok_def)
  with assms(1) k show ?thesis
    by (cases "c_state (w_conn w)") (auto simp: conn_unRef_def conn_inv_defs split: if_splits)
qed

lemma sent_sound:
  assumes "conn_inv w" "w_refs w > 0" "\<And>f m. onSend = Some f \<Longrightarrow> \<exists>m'. f m = Inr m'"
  shows "sound (bind_run (send forceClose onSend msg (w_conn w)) (\<lambda>(taken, r). Inr (settle r w)))"
proof (cases "c_state (w_conn w) = CONNECTION_STATE_OPEN")
  case True
  obtain k where k: "w_refs w = Suc k" using assms(2) by (cases "w_refs w") simp_all
  show ?thesis
  proof (cases "w_writes w = 0")
    case z: True
    obtain m' where m': "(case onSend of Some f \<Rightarrow> f msg | None \<Rightarrow> Inr msg) = Inr m'"
      using assms(3) by (cases onSend) auto
    from True assms(1) z have "c_pendingWrite (w_conn w) = 0" by (simp add: conn_inv_defs)
    with True assms(1,2) k z m' show ?thesis
      by (auto simp: send_def internalSend_def handler_defs conn_inv_defs)
  next
    case False
    with True assms(1) have "c_pendingWrite (w_conn w) = 1" "w_writes w = 1" by (simp_all add: conn_inv_defs)
    with True assms(1,2) k show ?thesis
      by (auto simp: send_def settle_def conn_inv_defs)
  qed
next
  case False
  with assms(1,2) show ?thesis by (auto simp: send_def settle_def)
qed

section \<open>Reads\<close>

text \<open>While a read completes, nothing is being read.\<close>

definition reading :: "world \<Rightarrow> bool" where
  "reading w \<longleftrightarrow> base_inv w \<and> w_reads w = []"

lemma fill_reading:
  assumes "reading w" "p + length bs \<le> 15360"
  shows "\<exists>w'. fill p bs w = Inr w' \<and> reading w'
    \<and> m_MsgSize (c_msg (w_conn w')) = m_MsgSize (c_msg (w_conn w))
    \<and> m_ReadPos (c_msg (w_conn w')) = m_ReadPos (c_msg (w_conn w))"
  using assms
  by (cases "c_state (w_conn w)") (auto simp: fill_def reading_def base_inv_def Let_def put_at_def)

lemma header_sound:
  assumes "reading w"
  shows "sound (perform (parseHeader e) w)"
proof -
  let ?c = "w_conn w"
  obtain count where d: "decodeHeader (c_msg ?c) = Inr (count, (c_msg ?c)\<lparr>m_MsgSize := count\<rparr>)"
    using assms by (simp add: decodeHeader_def reading_def base_inv_def Let_def)
  show ?thesis
  proof (cases "e \<noteq> Success \<or> count \<le> 0 \<or> count \<ge> 15344")
    case True
    with assms d show ?thesis
      by (cases "c_state ?c"; cases e)
        (auto simp: parseHeader_def NETWORKMESSAGE_MAXSIZE_def handler_defs reading_def conn_inv_defs split: if_splits)
  next
    case False
    then have "reads_ok [Body_op (nat count)] ((c_msg ?c)\<lparr>m_MsgSize := count + 2, m_ReadPos := 2\<rparr>)"
      by (auto simp: reads_ok_def)
    with False assms d show ?thesis
      by (cases "c_state ?c")
        (auto simp: parseHeader_def NETWORKMESSAGE_MAXSIZE_def handler_defs reading_def conn_inv_defs split: if_splits)
  qed
qed

lemma checksum_of_ok:
  assumes "length (m_MsgBuf m) = 15360" "m_ReadPos m = 2" "m_MsgSize m = int n + 2" "n < 15344"
  shows "\<exists>v. checksum_of m = Inr v"
proof (cases "n < 4")
  case True
  then consider "n = 0" | "n = 1" | "n = 2" | "n = 3" by linarith
  then show ?thesis using assms by cases
    (simp_all add: checksum_of_def Let_def NETWORKMESSAGE_MAXSIZE_def unsigned_minus_1_eq_mask mask_eq_exp_minus_1)
next
  case False
  then have "m_MsgSize m - m_ReadPos m - 4 = int (n - 4)" using assms(2,3) by simp
  then have "word_of_int (m_MsgSize m - m_ReadPos m - 4) = (word_of_nat (n - 4) :: u32)" by simp
  moreover have "unat (word_of_nat (n - 4) :: u32) = n - 4" using assms(4) by (simp add: unat_of_nat)
  ultimately show ?thesis using assms False by (simp add: checksum_of_def Let_def)
qed

text \<open>What the code needs of the message when a body has arrived.\<close>

lemma body_sound:
  assumes w: "reading w"
    and m: "m_ReadPos (c_msg (w_conn w)) = 2" "m_MsgSize (c_msg (w_conn w)) = int n + 2" "n < 15344"
    and leave: "\<And>m. length (m_MsgBuf (leave m)) = length (m_MsgBuf m)"
  shows "sound (perform (parsePacket services leave e) w)"
proof -
  let ?c = "w_conn w"
  have len: "length (m_MsgBuf (c_msg ?c)) = 15360" using w by (simp add: reading_def base_inv_def Let_def)
  obtain v where v: "checksum_of (c_msg ?c) = Inr v" using checksum_of_ok [OF len m] by blast
  obtain u where u: "PeekU32 (c_msg ?c) = Inr u" using len m(1) by (simp add: PeekU32_def peek_bytes_def)
  have p: "\<exists>q. makeProtocol services checksum msg = Inr (q, SkipBytes 1 msg)"
    if "m_ReadPos msg = 2 \<or> m_ReadPos msg = 6" "length (m_MsgBuf msg) = 15360" for checksum msg
    using that by (auto simp: makeProtocol_def GetByte_def get_bytes_def peek_bytes_def)
  show ?thesis
  proof (cases "refused ?c \<or> e \<noteq> Success")
    case True
    with w show ?thesis
      by (cases "c_state ?c"; cases e) (auto simp: parsePacket_def handler_defs reading_def conn_inv_defs split: if_splits)
  next
    case False
    then have "c_state ?c = CONNECTION_STATE_OPEN" by (simp add: refused_def)
    with False w len m u v p [of "SkipBytes 4 (c_msg ?c)" True] p [of "c_msg ?c" False] leave show ?thesis
      by (auto simp: parsePacket_def deliver_def await_header_def handler_defs reading_def conn_inv_defs
          reads_ok_def SkipBytes_def split: if_splits)
  qed
qed

section \<open>All orders of events\<close>

lemma base_inv_of: "conn_inv w \<Longrightarrow> w_reads w = op # rest \<Longrightarrow> reading (w\<lparr>w_reads := rest\<rparr>)"
  by (cases "c_state (w_conn w)") (auto simp: reading_def conn_inv_defs reads_ok_def split: if_splits)

lemma step_sound:
  assumes "conn_inv w" "conn_step services w r"
  shows "sound r \<or> late_write_timeout w r"
  using assms(2)
proof (cases rule: conn_step.cases)
  case (header_read rest bs e)
  then have "reading (w\<lparr>w_reads := rest\<rparr>)" using assms(1) base_inv_of by blast
  then obtain w' where "fill 0 bs (w\<lparr>w_reads := rest\<rparr>) = Inr w'" "reading w'"
    using fill_reading [of _ 0 bs] header_read by fastforce
  then show ?thesis using header_sound header_read by simp
next
  case (body_read n rest bs leave e)
  then have r: "reading (w\<lparr>w_reads := rest\<rparr>)" using assms(1) base_inv_of by blast
  have "reads_ok (w_reads w) (c_msg (w_conn w))"
    using assms(1) body_read by (auto simp: conn_inv_def split: if_splits)
  then have m: "n < 15344" "m_ReadPos (c_msg (w_conn w)) = 2" "m_MsgSize (c_msg (w_conn w)) = int n + 2"
    using body_read by (simp_all add: reads_ok_def)
  then obtain w' where "fill 2 bs (w\<lparr>w_reads := rest\<rparr>) = Inr w'" "reading w'"
      "m_MsgSize (c_msg (w_conn w')) = int n + 2" "m_ReadPos (c_msg (w_conn w')) = 2"
    using fill_reading [OF r, of 2 bs] body_read by auto
  then show ?thesis using body_sound [of w' n leave services e] body_read m by simp
next
  case (sent onSend forceClose msg)
  then show ?thesis using sent_sound [OF assms(1)] by blast
next
  case write_timeout
  then show ?thesis using write_timeout_sound [OF assms(1)] by blast
qed (use assms(1) close_sound stop_sound release_sound close_task_sound read_timeout_sound timer_up_sound
    aborted_sound written_sound referenced_sound unreferenced_sound in simp_all)

lemma start_sound:
  assumes "length garbage = 15360"
  shows "sound (perform accept (world_of (connection_new garbage)))"
    "sound (perform handle (world_of (connection_new garbage)))"
  using assms
  by (simp_all add: accept_def handle_def handler_defs world_of_def connection_new_def message_new_def
      conn_inv_defs refs_ok_def reads_ok_def)

lemma reachable_inv: "conn_reachable services w \<Longrightarrow> conn_inv w"
proof (induction rule: conn_reachable.induct)
  case (stepped w w')
  then show ?case using step_sound [of w services "Inr w'"] by (auto simp: late_write_timeout_def)
qed (use start_sound in fastforce)+

definition fresh_world :: world where
  "fresh_world = settle ((connection_new (replicate 15360 0))\<lparr>c_pendingRead := 1\<rparr>, [Arm_read_timer, Read_header])
     (world_of (connection_new (replicate 15360 0)))"

lemma fresh_reachable: "conn_reachable services fresh_world"
  by (rule conn_reachable.accepted [of "replicate 15360 0"])
    (simp_all add: accept_def perform_def op_then_def change_def emit_def getHandle_def fresh_world_def connection_new_def world_of_def)

text \<open>
  C23: whatever order the network, the timers, the dispatcher and the messages bring the events in, no
  handler of a connection fails, with a single exception: the socket and the protocol are not used
  while they are null, also not by \<^verbatim>\<open>getHandle\<close>, no task runs on a connection that is gone, the
  assertion of \<^verbatim>\<open>deleteConnection\<close> holds, and no packet, whatever its size and contents, makes the
  read loop leave the message buffer.  This includes timer handlers that were already queued with
  success when their timer was cancelled.  The exception is such a handler of the write timer that
  runs after a write failed and \<^verbatim>\<open>onStop\<close> deleted the socket, while a read not yet completed keeps
  the connection alive: exactly then the step uses the null socket.
\<close>

theorem connection_never_fails:
  assumes "conn_reachable services w" "conn_step services w r"
  shows "(\<exists>w'. r = Inr w')
    \<or> r = Inl Undefined_behaviour \<and> w_writeQueued w > 0 \<and> c_state (w_conn w) = CONNECTION_STATE_CLOSED
      \<and> \<not> c_socket (w_conn w) \<and> c_writeError (w_conn w) \<and> w_reads w \<noteq> []"
  using step_sound [OF reachable_inv [OF assms(1)] assms(2)] by (auto simp: sound_def late_write_timeout_def)

definition timed_world :: world where
  "timed_world = fresh_world\<lparr>w_readTimer := False, w_readQueued := 1\<rparr>"

lemma timed_reachable: "conn_reachable services timed_world"
proof -
  have "conn_step services fresh_world (Inr (fresh_world\<lparr>w_readTimer := False, w_readQueued := w_readQueued fresh_world + 1\<rparr>))"
    by (rule conn_step.read_timer_up) (simp add: fresh_world_def settle_def world_of_def)
  then have "conn_step services fresh_world (Inr timed_world)"
    by (simp add: timed_world_def fresh_world_def settle_def world_of_def)
  then show ?thesis by (rule conn_reachable.stepped [OF fresh_reachable])
qed

lemma connection_never_fails_witness:
  "\<exists>w'. perform (handleReadTimeout Success (\<not> alive timed_world)) (timed_world\<lparr>w_readQueued := 0\<rparr>) = Inr w'"
proof -
  have "conn_step [] timed_world (perform (handleReadTimeout Success (\<not> alive timed_world))
      (timed_world\<lparr>w_readQueued := w_readQueued timed_world - 1\<rparr>))"
    by (rule conn_step.read_timeout) (simp add: timed_world_def)
  from connection_never_fails [OF timed_reachable this] show ?thesis
    by (simp add: timed_world_def fresh_world_def settle_def world_of_def connection_new_def)
qed

text \<open>
  Fact: the exception does happen when the ready handlers run in no particular order, as they may
  without a strand: a message is written, its write takes until the timer is up, then fails; the
  connection is closed, released and stopped, with its read still to be aborted, and the handler of
  the timer runs last.
\<close>

lemma step_to: "conn_reachable services w \<Longrightarrow> conn_step services w r \<Longrightarrow> r = Inr w' \<Longrightarrow> conn_reachable services w'"
  using conn_reachable.stepped by blast

lemma late_write_timeout_happens:
  "\<exists>w. conn_reachable services w \<and> conn_step services w (Inl Undefined_behaviour)"
proof -
  define g where "g = (replicate 15360 0 :: bytes)"
  define m where "m = \<lparr>m_MsgBuf = [], m_MsgSize = 0, m_ReadPos = 8, m_outputBufferStart = 8\<rparr>"
  let ?c = "(connection_new g)\<lparr>c_protocol := True, c_pendingRead := 1\<rparr>"
  define w0 where "w0 = (world_of ?c)\<lparr>w_reads := [Header_op], w_readTimer := True\<rparr>"
  define w1 where "w1 = w0\<lparr>w_refs := 1, w_conn := ?c\<lparr>c_refCount := 1\<rparr>\<rparr>"
  define w2 where "w2 = w1\<lparr>w_refs := 0, w_writes := 1, w_writeTimer := True,
    w_conn := ?c\<lparr>c_refCount := 1, c_pendingWrite := 1\<rparr>\<rparr>"
  define w3 where "w3 = w2\<lparr>w_writeTimer := False, w_writeQueued := 1\<rparr>"
  define w4 where "w4 = w3\<lparr>w_refs := 1, w_writes := 0, w_closeTasks := 1,
    w_conn := ?c\<lparr>c_refCount := 1, c_pendingRead := 0, c_writeError := True, c_socketOpen := False,
      c_state := CONNECTION_STATE_REQUEST_CLOSE\<rparr>\<rparr>"
  define w5 where "w5 = w4\<lparr>w_refs := 0, w_conn := (w_conn w4)\<lparr>c_refCount := 0\<rparr>\<rparr>"
  define w6 where "w6 = w5\<lparr>w_closeTasks := 0, w_stops := 1,
    w_conn := (w_conn w5)\<lparr>c_protocol := False, c_state := CONNECTION_STATE_CLOSED\<rparr>\<rparr>"
  define w7 where "w7 = w6\<lparr>w_stops := 0, w_managed := False, w_readTimer := False,
    w_conn := (w_conn w6)\<lparr>c_socket := False\<rparr>\<rparr>"
  note ws = w7_def w6_def w5_def w4_def w3_def w2_def w1_def w0_def world_of_def connection_new_def
  have "perform handle (world_of (connection_new g)) = Inr w0"
    by (simp add: handle_def accept_def handler_defs ws)
  then have "conn_reachable services w0" by (intro conn_reachable.handled [of g]) (simp_all add: g_def)
  note r1 = step_to [OF this conn_step.referenced]
  have "conn_reachable services w1" by (rule r1) (simp_all add: ws conn_addRef_def)
  note r2 = step_to [OF this conn_step.sent [where forceClose = False and onSend = None and msg = m]]
  have "conn_reachable services w2"
    by (rule r2) (simp_all add: ws m_def send_def internalSend_def getOutputBuffer_def handler_defs)
  note r3 = step_to [OF this conn_step.write_timer_up]
  have "conn_reachable services w3" by (rule r3) (simp_all add: ws)
  note r4 = step_to [OF this conn_step.written [where e = Other_error]]
  have "conn_reachable services w4" by (rule r4) (simp_all add: ws handler_defs)
  note r5 = step_to [OF this conn_step.unreferenced]
  have "conn_reachable services w5" by (rule r5) (simp_all add: ws conn_unRef_def)
  note r6 = step_to [OF this conn_step.close_task]
  have "conn_reachable services w6" by (rule r6) (simp_all add: ws handler_defs)
  note r7 = step_to [OF this conn_step.stop]
  have reached: "conn_reachable services w7" by (rule r7) (simp_all add: ws handler_defs)
  have "conn_step services w7 (perform (handleWriteTimeout Success (\<not> alive w7)) (w7\<lparr>w_writeQueued := w_writeQueued w7 - 1\<rparr>))"
    by (rule conn_step.write_timeout) (simp add: ws)
  then have "conn_step services w7 (Inl Undefined_behaviour)" by (simp add: ws handler_defs)
  then show ?thesis using reached by blast
qed

text \<open>
  C24: a connection is never stuck. In every reachable state the next event that moves it on is under
  way: an open connection has exactly one read outstanding, of a size that fits the buffer; one
  that is asked to close has exactly one close task queued; a closing one has its last write
  outstanding; a closed one has exactly one release, scheduled or dispatched, until its socket is
  deleted, and no write then.
\<close>

theorem connection_never_stuck:
  assumes "conn_reachable services w"
  shows "case c_state (w_conn w) of
      CONNECTION_STATE_OPEN \<Rightarrow> w_reads w = [Header_op] \<or> (\<exists>n. w_reads w = [Body_op n] \<and> 2 + n \<le> 15360)
    | CONNECTION_STATE_REQUEST_CLOSE \<Rightarrow> w_closeTasks w = 1
    | CONNECTION_STATE_CLOSING \<Rightarrow> w_writes w = 1
    | CONNECTION_STATE_CLOSED \<Rightarrow> w_releaseTasks w + w_stops w = (if c_socket (w_conn w) then 1 else 0)
        \<and> (c_socket (w_conn w) \<or> w_writes w = 0)"
  using reachable_inv [OF assms]
  by (cases "c_state (w_conn w)") (auto simp: conn_inv_defs reads_ok_def split: if_splits)

lemma connection_never_stuck_witness:
  "w_reads fresh_world = [Header_op] \<or> (\<exists>n. w_reads fresh_world = [Body_op n] \<and> 2 + n \<le> 15360)"
  using connection_never_stuck [OF fresh_reachable [of "[]"]]
  by (simp add: fresh_world_def settle_def connection_new_def world_of_def)

text \<open>
  Fact: a slow connection is never forced to close. At most one write of a connection is ever pending,
  so the branch of \<^verbatim>\<open>send\<close> for more than a hundred of them is dead: with the option
  \<^verbatim>\<open>FORCE_CLOSE_SLOW_CONNECTION\<close> and without it, \<^verbatim>\<open>send\<close> does the same in every reachable state.
\<close>

theorem slow_connections_stay:
  assumes "conn_reachable services w"
  shows "0 \<le> c_pendingWrite (w_conn w) \<and> c_pendingWrite (w_conn w) \<le> 1
    \<and> send True onSend msg (w_conn w) = send False onSend msg (w_conn w)"
proof -
  have "c_pendingWrite (w_conn w) = 0 \<or> c_pendingWrite (w_conn w) = 1"
    using reachable_inv [OF assms] by (auto simp: conn_inv_defs)
  then show ?thesis by (auto simp: send_def)
qed

lemma slow_connections_stay_witness:
  "\<forall>msg. send True None msg (w_conn fresh_world) = send False None msg (w_conn fresh_world)"
  using slow_connections_stay [OF fresh_reachable [of "[]"]] by blast

end
