(* ===== verification/Packet_Round_Trip.thy ===== *)
theory Packet_Round_Trip
  imports Connection
begin

text \<open>
  The components of the network layer together: a message is written (\<open>Message_Codec\<close>), sealed
  by its protocol (\<open>Protocol_Crypto\<close>), goes over the wire, is taken in by the read loop of a
  connection (\<open>Connection\<close>), decrypted, and read back.
\<close>

definition output_new :: "bytes \<Rightarrow> output_message" where
  "output_new garbage = \<lparr>m_MsgBuf = garbage, m_MsgSize = 0, m_ReadPos = 8, m_outputBufferStart = 8\<rparr>"

definition wire :: "output_message \<Rightarrow> bytes" where
  "wire m = take (nat (m_MsgSize m)) (getOutputBuffer m)"

text \<open>The bytes of a completed read, at the place \<^verbatim>\<open>async_read\<close> was given.\<close>

definition received :: "nat \<Rightarrow> bytes \<Rightarrow> connection \<Rightarrow> connection" where
  "received p bs c = c\<lparr>c_msg := (c_msg c)\<lparr>m_MsgBuf := put_at (m_MsgBuf (c_msg c)) p bs\<rparr>\<rparr>"

definition listening :: "connection \<Rightarrow> bool" where
  "listening c \<longleftrightarrow> c_state c = CONNECTION_STATE_OPEN \<and> \<not> c_readError c \<and> c_receivedFirst c
     \<and> c_protocol c \<and> c_socket c \<and> length (m_MsgBuf (c_msg c)) = 15360"

lemma written_message:
  assumes "length garbage = 15360" "list_all no_assertion fs"
    and "list_all (\<lambda>f. case f of MString v \<Rightarrow> length (c_bytes v) \<le> 8192 | _ \<Rightarrow> True) fs"
    and "length (concat (map message_bytes fs)) < 15335"
  shows "\<exists>m h rest. add_message fs (output_new garbage) = Inr m \<and> length h = 8
    \<and> m_MsgBuf m = h @ concat (map message_bytes fs) @ rest \<and> length (m_MsgBuf m) = 15360
    \<and> m_outputBufferStart m = 8 \<and> m_ReadPos m = int (8 + length (concat (map message_bytes fs)))
    \<and> m_MsgSize m = int (length (concat (map message_bytes fs)))"
proof -
  let ?bs = "concat (map message_bytes fs)"
  have "nm_ready (output_new garbage)" using assms(1) by (simp add: nm_ready_def output_new_def)
  then obtain m where m: "add_message fs (output_new garbage) = Inr m" "appended ?bs (output_new garbage) m"
    using add_message_exact [of "output_new garbage" fs] assms(2-4) by (auto simp: output_new_def)
  have pos: "m_ReadPos m = int (8 + length ?bs)" "length (m_MsgBuf m) = 15360"
      "m_MsgSize m = int (length ?bs)" "network_message.more m = \<lparr>m_outputBufferStart = 8\<rparr>"
    using m(2) by (simp_all add: appended_def nm_ready_def output_new_def)
  then have n: "nat (m_ReadPos m) = 8 + length ?bs" by (simp del: of_nat_add)
  have "take (8 + length ?bs) (m_MsgBuf m) = take 8 garbage @ ?bs"
    using m(2) n by (simp add: appended_def nm_front_def output_new_def)
  then have "m_MsgBuf m = take 8 garbage @ ?bs @ drop (8 + length ?bs) (m_MsgBuf m)"
    by (metis append_assoc append_take_drop_id)
  moreover have "m_outputBufferStart m = 8" using pos(4) by (cases m) simp
  moreover have "length (take 8 garbage) = 8" using assms(1) by simp
  ultimately show ?thesis using m(1) pos(1-3) by blast
qed

lemma decodeHeader_encoded:
  assumes "m_MsgBuf m = le_encode 2 n @ rest" "n < 65536"
  shows "decodeHeader m = Inr (int n, m\<lparr>m_MsgSize := int n\<rparr>)"
proof -
  let ?a = "word_of_nat n :: u8" and ?b = "word_of_nat (n div 256) :: u8"
  have e: "m_MsgBuf m = ?a # ?b # rest" using assms(1) by (simp add: numeral_2_eq_2)
  have a: "uint ?a = int (n mod 256)" and b: "uint ?b = int (n div 256)"
    using assms(2) by (simp_all add: unat_byte_of_nat uint_nat)
  have "uint ?a OR push_bit 8 (uint ?b) = uint ?a + push_bit 8 (uint ?b)"
  proof (rule disjunctive_add [symmetric])
    fix i
    show "\<not> bit (uint ?a) i \<or> \<not> bit (push_bit 8 (uint ?b)) i"
      by (cases "i < 8") (auto simp: bit_push_bit_iff bit_uint_iff)
  qed
  also have "\<dots> = int n"
    unfolding a b push_bit_eq_mult by (simp add: zmod_int zdiv_int)
  finally show ?thesis by (simp add: decodeHeader_def e Let_def)
qed

lemma parseHeader_listening:
  assumes "listening c" "0 < n" "n < 15344"
  shows "\<exists>c1. parseHeader Success (received 0 (le_encode 2 n) c) = Inr (c1, [Cancel_read_timer, Arm_read_timer, Read_body n])
    \<and> listening c1 \<and> m_MsgBuf (c_msg c1) = le_encode 2 n @ drop 2 (m_MsgBuf (c_msg c))
    \<and> m_MsgSize (c_msg c1) = int n + 2 \<and> m_ReadPos (c_msg c1) = 2"
proof -
  let ?c = "received 0 (le_encode 2 n) c"
  have "decodeHeader (c_msg ?c) = Inr (int n, (c_msg ?c)\<lparr>m_MsgSize := int n\<rparr>)"
    using assms(3) by (intro decodeHeader_encoded [of _ _ "drop 2 (m_MsgBuf (c_msg c))"])
      (simp_all add: received_def put_at_def numeral_2_eq_2)
  then show ?thesis
    using assms by (simp add: parseHeader_def NETWORKMESSAGE_MAXSIZE_def op_then_def emit_def skip_def change_def
        refused_def getHandle_def listening_def received_def put_at_def numeral_2_eq_2)
qed

lemma checksum_of_packet:
  assumes "m_MsgBuf m = le_encode 2 n @ le_encode 4 (unat (adlerChecksum c)) @ c @ rest"
    and "m_ReadPos m = 2" "m_MsgSize m = int (length c + 6)" "length c < 15344" "c \<noteq> []"
  shows "PeekU32 m = Inr (adlerChecksum c) \<and> checksum_of m = Inr (adlerChecksum c)"
proof -
  have "word_of_int (m_MsgSize m - m_ReadPos m - 4) = (word_of_nat (length c) :: u32)"
    using assms(2,3) by simp
  moreover have "unat (word_of_nat (length c) :: u32) = length c" using assms(4) by (simp add: unat_of_nat)
  moreover have "(word_of_nat (length c) :: u32) \<noteq> 0" using calculation(2) assms(5) by (metis length_0_conv unsigned_0)
  ultimately have "checksum_of m = Inr (adlerChecksum c)"
    using assms(1,2,4) by (simp add: checksum_of_def Let_def NETWORKMESSAGE_MAXSIZE_def)
  then show ?thesis using assms(1,2) by (simp add: PeekU32_def peek_bytes_def)
qed

lemma parsePacket_listening:
  assumes "listening c" "m_MsgBuf (c_msg c) = le_encode 2 n @ le_encode 4 (unat (adlerChecksum p)) @ p @ rest"
    and "m_ReadPos (c_msg c) = 2" "m_MsgSize (c_msg c) = int (length p + 6)" "length p < 15344" "p \<noteq> []"
  shows "\<exists>c2. parsePacket services leave Success c
    = Inr (c2, [Cancel_read_timer, Recv (SkipBytes 4 (c_msg c)), Arm_read_timer, Read_header])"
  using assms checksum_of_packet [OF assms(2-6)]
  by (simp add: parsePacket_def op_then_def emit_def skip_def change_def refused_def listening_def
      deliver_def await_header_def getHandle_def Let_def)

lemma onRecvMessage_sealed:
  assumes "p_encryptionEnabled q" "m_MsgBuf m = pre @ sealed (p_key q) body @ rest" "length pre = 6"
    and "length (m_MsgBuf m) = 15360"
    and "m_ReadPos m = 6" "m_MsgSize m = int (length (sealed (p_key q) body) + 6)" "length body < 15335"
  shows "\<exists>m2. onRecvMessage m q = Inr m2 \<and> nm_wf m2 \<and> m_MsgSize m2 = int (length body)
    \<and> (\<exists>more. nm_view m2 = body @ more)"
proof -
  let ?b = "le_encode 2 (length body) @ body @ replicate (padding (2 + length body)) 0x33"
  let ?m2 = "m\<lparr>m_MsgBuf := pre @ ?b @ rest, m_ReadPos := 8, m_MsgSize := int (length body)\<rparr>"
  have "onRecvMessage m q = Inr ?m2"
    using XTEA_decrypt_ok [OF assms(2,3,5,6)] assms(1,7) by (simp add: onRecvMessage_def)
  moreover have "length ?b = length (sealed (p_key q) body)" by (simp add: length_sealed add.commute)
  then have "length (pre @ ?b @ rest) = 15360" using assms(2,4) by simp
  then have "nm_wf ?m2" by (simp add: nm_wf_def)
  moreover have "nm_view ?m2 = body @ take (15351 - length body) (replicate (padding (2 + length body)) 0x33 @ rest)"
    using assms(3,7) by (simp add: nm_view_def)
  ultimately show ?thesis by (intro exI [of _ ?m2]) auto
qed

text \<open>
  C22: a message survives the way from one end to the other. What a handler writes, for all fields
  that fit a message, goes out as one packet: its length, its checksum and its encrypted body. The
  read loop of an open connection that has its protocol takes the two bytes of the length, asks for
  exactly the rest of the packet, accepts its checksum and hands it to the protocol, which with the
  same key finds the message's length and reads the same fields back.
\<close>

theorem messages_survive_the_wire:
  assumes "length garbage = 15360" "list_all no_assertion fs"
    and "list_all (\<lambda>f. case f of MString v \<Rightarrow> length (c_bytes v) \<le> 8192 | _ \<Rightarrow> True) fs"
    and "length (concat (map message_bytes fs)) < 15335"
    and "\<not> p_rawMessages p" "p_encryptionEnabled p" "p_checksumEnabled p"
    and "p_encryptionEnabled q" "p_key q = p_key p" "listening c"
  shows "\<exists>m m' p' c1 c2 rm m2 rest.
      add_message fs (output_new garbage) = Inr m \<and> onSendMessage i m p = Inr (m', p')
    \<and> parseHeader Success (received 0 (take 2 (wire m')) c)
        = Inr (c1, [Cancel_read_timer, Arm_read_timer, Read_body (length (wire m') - 2)])
    \<and> parsePacket services leave Success (received 2 (drop 2 (wire m')) c1)
        = Inr (c2, [Cancel_read_timer, Recv rm, Arm_read_timer, Read_header])
    \<and> onRecvMessage rm q = Inr m2 \<and> m_MsgSize m2 = int (length (concat (map message_bytes fs)))
    \<and> get_message fs m2 = Inr (map sent_field fs, rest)"
proof -
  let ?body = "concat (map message_bytes fs)"
  let ?s = "sealed (p_key p) ?body"
  let ?n = "length ?s + 4"
  obtain m h r0 where m: "add_message fs (output_new garbage) = Inr m" "length h = 8"
      "m_MsgBuf m = h @ ?body @ r0" "length (m_MsgBuf m) = 15360" "m_outputBufferStart m = 8"
      "m_ReadPos m = int (8 + length ?body)" "m_MsgSize m = int (length ?body)"
    using written_message [OF assms(1-4)] by blast
  obtain m' p' where m': "onSendMessage i m p = Inr (m', p')" "wire m' = packet (p_key p) ?body"
    using onSendMessage_packet [OF m(3,2,4) assms(4) m(5-7) assms(5-7), of i] unfolding wire_def by blast
  have len: "length ?s \<le> 15337" using padding_fits [OF assms(4)] by (simp add: length_sealed add.commute)
  have w: "take 2 (wire m') = le_encode 2 ?n"
      "drop 2 (wire m') = le_encode 4 (unat (adlerChecksum ?s)) @ ?s" "length (wire m') - 2 = ?n"
    by (simp_all add: m'(2) packet_def Let_def)
  obtain c1 where c1: "parseHeader Success (received 0 (take 2 (wire m')) c)
        = Inr (c1, [Cancel_read_timer, Arm_read_timer, Read_body (length (wire m') - 2)])"
      "listening c1" "m_MsgBuf (c_msg c1) = le_encode 2 ?n @ drop 2 (m_MsgBuf (c_msg c))"
      "m_MsgSize (c_msg c1) = int ?n + 2" "m_ReadPos (c_msg c1) = 2"
    using parseHeader_listening [OF assms(10), of ?n] len unfolding w by auto
  let ?c = "received 2 (drop 2 (wire m')) c1"
  define r1 where "r1 = drop (?n + 2) (m_MsgBuf (c_msg c))"
  have buf: "m_MsgBuf (c_msg ?c) = le_encode 2 ?n @ le_encode 4 (unat (adlerChecksum ?s)) @ ?s @ r1"
    unfolding w received_def put_at_def by (simp add: c1(3) r1_def add.commute)
  have "length (m_MsgBuf (c_msg c)) = 15360" using assms(10) by (simp add: listening_def)
  then have total: "length (m_MsgBuf (c_msg ?c)) = 15360" unfolding buf using len by (simp add: r1_def)
  then have "listening ?c" using c1(2) by (simp add: listening_def received_def)
  moreover have ne: "?s \<noteq> []" using length_sealed [of "p_key p" ?body] by (metis add_is_0 list.size(3) zero_neq_numeral)
  moreover have pos: "m_ReadPos (c_msg ?c) = 2" "m_MsgSize (c_msg ?c) = int (length ?s + 6)"
    using c1(4,5) by (simp_all add: received_def)
  ultimately obtain c2 where c2: "parsePacket services leave Success ?c
      = Inr (c2, [Cancel_read_timer, Recv (SkipBytes 4 (c_msg ?c)), Arm_read_timer, Read_header])"
    using parsePacket_listening [OF _ buf] len by fastforce
  obtain m2 more where m2: "onRecvMessage (SkipBytes 4 (c_msg ?c)) q = Inr m2" "nm_wf m2"
      "m_MsgSize m2 = int (length ?body)" "nm_view m2 = ?body @ more"
    using onRecvMessage_sealed [of q "SkipBytes 4 (c_msg ?c)"
        "le_encode 2 ?n @ le_encode 4 (unat (adlerChecksum ?s))" ?body r1] assms(4,8,9) buf total pos
    by (auto simp: SkipBytes_def)
  obtain m3 where "get_message fs m2 = Inr (map sent_field fs, m3)"
    using get_message_ok [OF m2(2) assms(2,3) m2(4)] by blast
  then show ?thesis using m(1) m'(1) c1(1) c2 m2(1,3) by blast
qed

lemma messages_survive_the_wire_witness:
  "\<exists>m m' p' c1 c2 rm m2 rest.
      add_message [MU16 7, MString [72, 105]] (output_new (replicate 15360 0)) = Inr m
    \<and> onSendMessage 0 m (enableChecksum (enableXTEAEncryption (protocol_new None))) = Inr (m', p')
    \<and> parseHeader Success (received 0 (take 2 (wire m')) ((connection_new (replicate 15360 0))\<lparr>c_receivedFirst := True, c_protocol := True\<rparr>))
        = Inr (c1, [Cancel_read_timer, Arm_read_timer, Read_body (length (wire m') - 2)])
    \<and> parsePacket [] id Success (received 2 (drop 2 (wire m')) c1)
        = Inr (c2, [Cancel_read_timer, Recv rm, Arm_read_timer, Read_header])
    \<and> onRecvMessage rm (enableXTEAEncryption (protocol_new None)) = Inr m2
    \<and> get_message [MU16 7, MString [72, 105]] m2 = Inr ([MU16 7, MString [72, 105]], rest)"
  using messages_survive_the_wire [of "replicate 15360 0" "[MU16 7, MString [72, 105]]"
      "enableChecksum (enableXTEAEncryption (protocol_new None))" "enableXTEAEncryption (protocol_new None)"
      "(connection_new (replicate 15360 0))\<lparr>c_receivedFirst := True, c_protocol := True\<rparr>" 0 "[]" id]
  by (force simp: c_bytes_def enableChecksum_def enableXTEAEncryption_def protocol_new_def listening_def
      connection_new_def message_new_def)

end
