(* ===== verification/Tasks.thy ===== *)
theory Tasks
  imports Prelude
begin

text \<open>
  \<^verbatim>\<open>Task\<close> and \<^verbatim>\<open>SchedulerTask\<close> (\<^verbatim>\<open>src/sources/task.h\<close>, \<^verbatim>\<open>task.cpp\<close>, \<^verbatim>\<open>schedulertask.h\<close>,
  \<^verbatim>\<open>schedulertask.cpp\<close>), and what \<^verbatim>\<open>Dispatcher\<close> and \<^verbatim>\<open>Scheduler\<close> have in common: the states of a
  worker that can be stopped, and the race between stopping it and its going to sleep.  A task's
  function is its number; times are the ticks of the clock.
\<close>

type_synonym time = int

definition TIME_MAX :: time where
  "TIME_MAX = 2 ^ 63 - 1"

record task =
  t_expiration :: time
  t_function :: nat

definition task_create :: "nat \<Rightarrow> task" where
  "task_create f = \<lparr>t_expiration = TIME_MAX, t_function = f\<rparr>"

definition task_create_for :: "time \<Rightarrow> time \<Rightarrow> nat \<Rightarrow> task" where
  "task_create_for now duration f = \<lparr>t_expiration = now + duration, t_function = f\<rparr>"

definition setExpiration :: "time \<Rightarrow> 'a task_scheme \<Rightarrow> 'a task_scheme" where
  "setExpiration e t = t\<lparr>t_expiration := e\<rparr>"

record scheduler_task = task +
  st_id :: u32
  st_time :: time

definition scheduler_task_at :: "time \<Rightarrow> nat \<Rightarrow> scheduler_task" where
  "scheduler_task_at when f = \<lparr>t_expiration = TIME_MAX, t_function = f, st_id = 0, st_time = when\<rparr>"

definition scheduler_task_after :: "time \<Rightarrow> time \<Rightarrow> nat \<Rightarrow> scheduler_task run" where
  "scheduler_task_after now delay f =
     (if delay \<le> 0 then require (delay > 0) (Inr (scheduler_task_at now f))
      else Inr (scheduler_task_at (now + delay) f))"

definition setId :: "u32 \<Rightarrow> scheduler_task \<Rightarrow> scheduler_task" where
  "setId ident t = t\<lparr>st_id := ident\<rparr>"

datatype worker_state = STOPPED | STARTED | STOPPING

text \<open>
  A worker thread tests its state without the lock, takes the lock and may then go to sleep.
  \<open>step\<close> is everything that can happen except a spurious wake-up, \<open>about_to_sleep\<close> the point
  between the test and the lock with nothing to do, \<open>asleep\<close> the sleep of a worker that is
  to stop.
\<close>

locale stoppable_worker =
  fixes step :: "'s \<Rightarrow> 's \<Rightarrow> bool"
    and about_to_sleep :: "'s \<Rightarrow> bool"
    and asleep :: "'s \<Rightarrow> bool"
  assumes race: "about_to_sleep s \<Longrightarrow> \<exists>s1 s2. step s s1 \<and> step s1 s2 \<and> asleep s2"
    and asleep_stays: "asleep s \<Longrightarrow> step s s' \<Longrightarrow> asleep s'"
begin

lemma asleep_forever: "step\<^sup>*\<^sup>* s s' \<Longrightarrow> asleep s \<Longrightarrow> asleep s'"
  by (induction rule: rtranclp_induct) (auto intro: asleep_stays)

lemma stop_can_hang:
  assumes "step\<^sup>*\<^sup>* s0 s" "about_to_sleep s"
  shows "\<exists>s'. step\<^sup>*\<^sup>* s0 s' \<and> asleep s' \<and> (\<forall>s''. step\<^sup>*\<^sup>* s' s'' \<longrightarrow> asleep s'')"
proof -
  obtain s1 s2 where "step s s1" "step s1 s2" "asleep s2" using race [OF assms(2)] by blast
  then have "step\<^sup>*\<^sup>* s0 s2" using assms(1) by (meson rtranclp.rtrancl_into_rtrancl)
  then show ?thesis using \<open>asleep s2\<close> asleep_forever by blast
qed

end

end
