(* ===== verification/Dispatcher.thy ===== *)
theory Dispatcher
  imports Tasks "HOL-Library.Multiset"
begin

text \<open>
  \<^verbatim>\<open>Dispatcher\<close> (\<^verbatim>\<open>src/sources/dispatcher.h\<close>, \<^verbatim>\<open>dispatcher.cpp\<close>): the thread that runs the game's
  tasks one after the other.  A critical section of \<^verbatim>\<open>_mutex\<close> is one step; the thread's position
  between them is \<open>d_thread\<close>, \<^verbatim>\<open>notify_one\<close> moves it out of its sleep.
\<close>

section \<open>State and operations\<close>

datatype dispatcher_thread =
    D_none | D_check | D_lock | D_waiting | D_woken | D_running | D_leave | D_draining "task list"
  | D_finish | D_done

record dispatcher =
  d_state :: worker_state
  d_tasks :: "task list"
  d_thread :: dispatcher_thread

definition dispatcher_new :: dispatcher where
  "dispatcher_new = \<lparr>d_state = STOPPED, d_tasks = [], d_thread = D_none\<rparr>"

definition d_notify :: "'a dispatcher_scheme \<Rightarrow> 'a dispatcher_scheme" where
  "d_notify d = (if d_thread d = D_waiting then d\<lparr>d_thread := D_woken\<rparr> else d)"

definition dispatcher_addTask :: "task option \<Rightarrow> bool \<Rightarrow> 'a dispatcher_scheme \<Rightarrow> 'a dispatcher_scheme run" where
  "dispatcher_addTask task urgent d =
     (case task of None \<Rightarrow> Inl Assertion_failed
      | Some t \<Rightarrow>
          if d_state d = STOPPING then Inr d
          else
            let d = d\<lparr>d_tasks := (if urgent then t # d_tasks d else d_tasks d @ [t])\<rparr>
            in Inr (if length (d_tasks d) = 1 then d_notify d else d))"

text \<open>Starting a thread over one that was not joined terminates the program.\<close>

definition dispatcher_start :: "'a dispatcher_scheme \<Rightarrow> 'a dispatcher_scheme run" where
  "dispatcher_start d =
     (if d_state d = STOPPED then
        if d_thread d = D_none then Inr (d\<lparr>d_state := STARTED, d_thread := D_check\<rparr>)
        else Inl Undefined_behaviour
      else Inl Assertion_failed)"

definition dispatcher_stop :: "'a dispatcher_scheme \<Rightarrow> 'a dispatcher_scheme run" where
  "dispatcher_stop d =
     (if d_state d = STARTED then
        let d = d\<lparr>d_state := STOPPING\<rparr> in Inr (if d_tasks d = [] then d_notify d else d)
      else Inl Assertion_failed)"

datatype dispatcher_event = Start_execution_frame | Run nat | Send_all | Clear_spectator_cache

definition runTask :: "time \<Rightarrow> bool \<Rightarrow> task \<Rightarrow> dispatcher_event list" where
  "runTask now messagePool t =
     (if t_expiration t < now then []
      else (if messagePool then [Start_execution_frame] else []) @ [Run (t_function t)]
        @ (if messagePool then [Send_all] else []) @ [Clear_spectator_cache])"

definition runTasks :: "time \<Rightarrow> bool \<Rightarrow> task list \<Rightarrow> dispatcher_event list" where
  "runTasks now messagePool ts = concat (map (runTask now messagePool) ts)"

section \<open>The thread\<close>

text \<open>
  The history of a run: the tasks that were accepted, in the order of the calls, the tasks that
  were taken up, each with the time of the clock then, and what was done for them.
\<close>

record dispatcher_run = dispatcher +
  h_accepted :: "task list"
  h_handled :: "(time \<times> task) list"
  h_events :: "dispatcher_event list"

definition handle_task :: "time \<Rightarrow> task \<Rightarrow> dispatcher_run \<Rightarrow> dispatcher_run" where
  "handle_task now t d = d\<lparr>h_handled := h_handled d @ [(now, t)], h_events := h_events d @ runTask now True t\<rparr>"

text \<open>The functions that were called, in order.\<close>

primrec executed :: "dispatcher_event list \<Rightarrow> nat list" where
  "executed [] = []"
| "executed (e # es) = (case e of Run f \<Rightarrow> f # executed es | _ \<Rightarrow> executed es)"

text \<open>What the thread does once it has the lock and is awake.\<close>

definition take_task :: "time \<Rightarrow> dispatcher_run \<Rightarrow> dispatcher_run" where
  "take_task now d =
     (if d_state d \<noteq> STARTED \<or> d_tasks d = [] then d\<lparr>d_thread := D_check\<rparr>
      else handle_task now (hd (d_tasks d)) (d\<lparr>d_tasks := tl (d_tasks d), d_thread := D_running\<rparr>))"

inductive thread_step :: "dispatcher_run \<Rightarrow> dispatcher_run \<Rightarrow> bool" where
  loop: "d_thread d = D_check \<Longrightarrow> d_state d = STARTED \<Longrightarrow> thread_step d (d\<lparr>d_thread := D_lock\<rparr>)"
| leave: "d_thread d = D_check \<Longrightarrow> d_state d \<noteq> STARTED \<Longrightarrow> thread_step d (d\<lparr>d_thread := D_leave\<rparr>)"
| sleep: "d_thread d = D_lock \<Longrightarrow> d_tasks d = [] \<Longrightarrow> thread_step d (d\<lparr>d_thread := D_waiting\<rparr>)"
| locked: "d_thread d = D_lock \<Longrightarrow> d_tasks d \<noteq> [] \<Longrightarrow> now \<le> TIME_MAX \<Longrightarrow> thread_step d (take_task now d)"
| woken: "d_thread d = D_woken \<Longrightarrow> now \<le> TIME_MAX \<Longrightarrow> thread_step d (take_task now d)"
| ran: "d_thread d = D_running \<Longrightarrow> thread_step d (d\<lparr>d_thread := D_check\<rparr>)"
| collect: "d_thread d = D_leave \<Longrightarrow>
    thread_step d (d\<lparr>d_thread := D_draining (d_tasks d), d_tasks := []\<rparr>)"
| drain: "d_thread d = D_draining (t # ts) \<Longrightarrow> now \<le> TIME_MAX \<Longrightarrow>
    thread_step d (handle_task now t (d\<lparr>d_thread := D_draining ts\<rparr>))"
| drained: "d_thread d = D_draining [] \<Longrightarrow> thread_step d (d\<lparr>d_thread := D_finish\<rparr>)"
| finish: "d_thread d = D_finish \<Longrightarrow> thread_step d (d\<lparr>d_thread := D_done, d_state := STOPPED\<rparr>)"

text \<open>
  The other threads, and the tasks themselves, add tasks, start, stop and wait.
  \<^verbatim>\<open>waitUntilStopped\<close> joins a finished thread; called from a task it runs what is queued.
  \<open>urgent\<close> says whether urgent tasks are added.
\<close>

definition waitUntilStopped :: "'a dispatcher_scheme \<Rightarrow> 'a dispatcher_scheme run" where
  "waitUntilStopped d =
     (if d_state d = STARTED then Inl Assertion_failed
      else if d_thread d = D_done then Inr (d\<lparr>d_thread := D_none\<rparr>) else Inr d)"

definition waitUntilStopped_in_task :: "time \<Rightarrow> dispatcher_run \<Rightarrow> dispatcher_run run" where
  "waitUntilStopped_in_task now d =
     (if d_state d = STARTED then Inl Assertion_failed
      else Inr (fold (handle_task now) (d_tasks d) (d\<lparr>d_tasks := []\<rparr>)))"

inductive dispatcher_step :: "bool \<Rightarrow> dispatcher_run \<Rightarrow> dispatcher_run \<Rightarrow> bool" for urgent where
  thread: "thread_step d d' \<Longrightarrow> dispatcher_step urgent d d'"
| added: "dispatcher_addTask (Some t) (urgent \<and> front) d = Inr d' \<Longrightarrow>
    dispatcher_step urgent d
      (if d_state d = STOPPING then d' else d'\<lparr>h_accepted := h_accepted d @ [t]\<rparr>)"
| started: "dispatcher_start d = Inr d' \<Longrightarrow> dispatcher_step urgent d d'"
| stopped: "dispatcher_stop d = Inr d' \<Longrightarrow> dispatcher_step urgent d d'"
| waited: "waitUntilStopped d = Inr d' \<Longrightarrow> dispatcher_step urgent d d'"
| waited_in_task: "d_thread d = D_running \<or> (\<exists>ts. d_thread d = D_draining ts) \<Longrightarrow> now \<le> TIME_MAX \<Longrightarrow>
    waitUntilStopped_in_task now d = Inr d' \<Longrightarrow> dispatcher_step urgent d d'"

definition dispatcher_init :: dispatcher_run where
  "dispatcher_init = dispatcher.extend dispatcher_new \<lparr>h_accepted = [], h_handled = [], h_events = []\<rparr>"

text \<open>A spurious wake-up is allowed in the reachable states, too.\<close>

inductive dispatcher_reachable :: "bool \<Rightarrow> dispatcher_run \<Rightarrow> bool" for urgent where
  init: "dispatcher_reachable urgent dispatcher_init"
| step: "dispatcher_reachable urgent d \<Longrightarrow> dispatcher_step urgent d d' \<Longrightarrow> dispatcher_reachable urgent d'"
| spurious: "dispatcher_reachable urgent d \<Longrightarrow> d_thread d = D_waiting \<Longrightarrow>
    dispatcher_reachable urgent (d\<lparr>d_thread := D_woken\<rparr>)"

section \<open>Every task is run\<close>

fun draining :: "dispatcher_thread \<Rightarrow> task list" where
  "draining (D_draining ts) = ts"
| "draining _ = []"

text \<open>What should have been called: the tasks taken up that were not expired then.\<close>

definition not_expired :: "(time \<times> task) list \<Rightarrow> nat list" where
  "not_expired h = map (\<lambda>(now, t). t_function t) (filter (\<lambda>(now, t). now \<le> t_expiration t) h)"

definition dispatcher_inv :: "bool \<Rightarrow> dispatcher_run \<Rightarrow> bool" where
  "dispatcher_inv urgent d \<longleftrightarrow>
     mset (h_accepted d) = mset (map snd (h_handled d)) + mset (draining (d_thread d)) + mset (d_tasks d)
   \<and> (urgent \<or> h_accepted d = map snd (h_handled d) @ draining (d_thread d) @ d_tasks d)
   \<and> executed (h_events d) = not_expired (h_handled d) \<and> (\<forall>(now, t) \<in> set (h_handled d). now \<le> TIME_MAX)
   \<and> (case d_thread d of
        D_none \<Rightarrow> d_state d = STOPPED
      | D_done \<Rightarrow> d_state d = STOPPED
      | D_waiting \<Rightarrow> d_state d \<noteq> STOPPED \<and> d_tasks d = []
      | D_leave \<Rightarrow> d_state d = STOPPING
      | D_draining ts \<Rightarrow> d_state d = STOPPING \<and> d_tasks d = []
      | D_finish \<Rightarrow> d_state d = STOPPING \<and> d_tasks d = []
      | _ \<Rightarrow> d_state d \<noteq> STOPPED)"

lemma executed_append [simp]: "executed (es @ fs) = executed es @ executed fs"
  by (induction es) (simp_all split: dispatcher_event.split)

lemma executed_runTask: "executed (runTask now messagePool t) = not_expired [(now, t)]"
  by (simp add: runTask_def not_expired_def)

lemma not_expired_append: "not_expired (h @ h') = not_expired h @ not_expired h'"
  by (simp add: not_expired_def)

lemma handle_task_sel [simp]:
  "d_state (handle_task now t d) = d_state d" "d_tasks (handle_task now t d) = d_tasks d"
  "d_thread (handle_task now t d) = d_thread d" "h_accepted (handle_task now t d) = h_accepted d"
  "h_handled (handle_task now t d) = h_handled d @ [(now, t)]"
  "executed (h_events (handle_task now t d)) = executed (h_events d) @ not_expired [(now, t)]"
  by (simp_all add: handle_task_def executed_runTask)

lemma fold_handle_task:
  "d_state (fold (handle_task now) ts d) = d_state d \<and> d_tasks (fold (handle_task now) ts d) = d_tasks d
   \<and> d_thread (fold (handle_task now) ts d) = d_thread d \<and> h_accepted (fold (handle_task now) ts d) = h_accepted d
   \<and> h_handled (fold (handle_task now) ts d) = h_handled d @ map (Pair now) ts
   \<and> executed (h_events (fold (handle_task now) ts d)) = executed (h_events d) @ not_expired (map (Pair now) ts)"
  by (induction ts arbitrary: d) (simp_all add: not_expired_def)

lemma take_task_inv:
  assumes "dispatcher_inv urgent d" "d_thread d = D_lock \<or> d_thread d = D_woken" "now \<le> TIME_MAX"
  shows "dispatcher_inv urgent (take_task now d)"
  using assms by (cases "d_tasks d") (auto simp: dispatcher_inv_def take_task_def not_expired_append)

lemma thread_step_inv:
  assumes "thread_step d d'" "dispatcher_inv urgent d"
  shows "dispatcher_inv urgent d'"
  using assms
proof (cases rule: thread_step.cases)
  case (locked now)
  then show ?thesis using take_task_inv assms(2) by blast
next
  case (woken now)
  then show ?thesis using take_task_inv assms(2) by blast
next
  case leave
  then show ?thesis using assms(2) by (cases "d_state d") (auto simp: dispatcher_inv_def)
qed (use assms(2) in \<open>auto simp: dispatcher_inv_def not_expired_append\<close>)

lemma addTask_inv:
  assumes "dispatcher_addTask (Some t) (urgent \<and> front) d = Inr d'" "dispatcher_inv urgent d"
  shows "dispatcher_inv urgent (if d_state d = STOPPING then d' else d'\<lparr>h_accepted := h_accepted d @ [t]\<rparr>)"
  using assms
  by (cases "d_thread d"; cases "d_tasks d")
    (auto simp: dispatcher_addTask_def dispatcher_inv_def d_notify_def Let_def split: if_splits)

lemma dispatcher_step_inv:
  assumes "dispatcher_step urgent d d'" "dispatcher_inv urgent d"
  shows "dispatcher_inv urgent d'"
  using assms
proof (cases rule: dispatcher_step.cases)
  case thread
  then show ?thesis using thread_step_inv assms(2) by blast
next
  case (added t front d1)
  then show ?thesis using addTask_inv assms(2) by blast
next
  case started
  then show ?thesis using assms(2) by (auto simp: dispatcher_start_def dispatcher_inv_def split: if_splits)
next
  case stopped
  then show ?thesis using assms(2)
    by (cases "d_thread d") (auto simp: dispatcher_stop_def dispatcher_inv_def d_notify_def Let_def split: if_splits)
next
  case waited
  then show ?thesis using assms(2) by (auto simp: waitUntilStopped_def dispatcher_inv_def split: if_splits)
next
  case (waited_in_task now)
  then show ?thesis using assms(2) fold_handle_task [of now "d_tasks d" "d\<lparr>d_tasks := []\<rparr>"]
    by (auto simp: waitUntilStopped_in_task_def dispatcher_inv_def not_expired_append multiset.map_comp comp_def split: if_splits)
qed

lemma dispatcher_reachable_inv: "dispatcher_reachable urgent d \<Longrightarrow> dispatcher_inv urgent d"
proof (induction rule: dispatcher_reachable.induct)
  case init
  then show ?case
    by (simp add: dispatcher_inv_def dispatcher_init_def dispatcher_new_def dispatcher.defs not_expired_def)
next
  case (step d d')
  then show ?case using dispatcher_step_inv by blast
qed (auto simp: dispatcher_inv_def)

lemma dispatcher_steps_reachable:
  "(dispatcher_step urgent)\<^sup>*\<^sup>* d d' \<Longrightarrow> dispatcher_reachable urgent d \<Longrightarrow> dispatcher_reachable urgent d'"
  by (induction rule: rtranclp_induct) (auto intro: dispatcher_reachable.step)

text \<open>
  C28: the dispatcher loses no task and runs none twice. In every reachable state the tasks that were
  accepted are those that were taken up and those still waiting, in the order they came unless
  urgent ones were added; a sleeping dispatcher has none waiting, and when the thread ends all
  accepted tasks were taken up. The functions called so far are exactly those of the tasks taken
  up, once each and in that order, save the tasks that were taken up after their expiration (as
  those with \<^verbatim>\<open>DISPATCHER_TASK_EXPIRATION\<close> can be), which are dropped; tasks created without a
  duration never expire, so when all are of this kind every task taken up was run.
\<close>

theorem dispatcher_runs_every_task:
  assumes "dispatcher_reachable urgent d"
  shows "mset (h_accepted d) = mset (map snd (h_handled d)) + mset (draining (d_thread d)) + mset (d_tasks d)
    \<and> (\<not> urgent \<longrightarrow> h_accepted d = map snd (h_handled d) @ draining (d_thread d) @ d_tasks d)
    \<and> (d_thread d = D_waiting \<longrightarrow> d_tasks d = [])
    \<and> (d_thread d = D_finish \<longrightarrow> mset (h_accepted d) = mset (map snd (h_handled d)))
    \<and> executed (h_events d) = map (\<lambda>(now, t). t_function t) (filter (\<lambda>(now, t). now \<le> t_expiration t) (h_handled d))
    \<and> ((\<forall>t \<in> set (h_accepted d). t_expiration t = TIME_MAX)
        \<longrightarrow> executed (h_events d) = map (\<lambda>(now, t). t_function t) (h_handled d))"
proof -
  have inv: "dispatcher_inv urgent d" by (rule dispatcher_reachable_inv [OF assms])
  then have sum: "mset (h_accepted d) = mset (map snd (h_handled d)) + mset (draining (d_thread d)) + mset (d_tasks d)"
    by (simp add: dispatcher_inv_def)
  have all: "filter (\<lambda>(now, t). now \<le> t_expiration t) (h_handled d) = h_handled d"
    if timeless: "\<forall>t \<in> set (h_accepted d). t_expiration t = TIME_MAX"
  proof (rule filter_True, rule ballI)
    fix e assume e: "e \<in> set (h_handled d)"
    obtain now t where nt: "e = (now, t)" by force
    have "t \<in># mset (h_accepted d)" using e nt unfolding sum by force
    then show "case e of (now, t) \<Rightarrow> now \<le> t_expiration t"
      using inv e nt timeless by (auto simp: dispatcher_inv_def)
  qed
  have ran: "executed (h_events d) = map (\<lambda>(now, t). t_function t) (filter (\<lambda>(now, t). now \<le> t_expiration t) (h_handled d))"
    using inv by (simp add: dispatcher_inv_def not_expired_def)
  moreover have "\<not> urgent \<longrightarrow> h_accepted d = map snd (h_handled d) @ draining (d_thread d) @ d_tasks d"
    "d_thread d = D_waiting \<longrightarrow> d_tasks d = []"
    "d_thread d = D_finish \<longrightarrow> mset (h_accepted d) = mset (map snd (h_handled d))"
    using inv by (auto simp: dispatcher_inv_def)
  moreover have "(\<forall>t \<in> set (h_accepted d). t_expiration t = TIME_MAX)
      \<longrightarrow> executed (h_events d) = map (\<lambda>(now, t). t_function t) (h_handled d)"
    unfolding ran by (intro impI) (simp only: all)
  ultimately show ?thesis using sum by blast
qed

definition ran_one :: dispatcher_run where
  "ran_one = \<lparr>d_state = STARTED, d_tasks = [], d_thread = D_running, h_accepted = [task_create 7],
     h_handled = [(0, task_create 7)], h_events = [Start_execution_frame, Run 7, Send_all, Clear_spectator_cache]\<rparr>"

lemma ran_one_reachable: "dispatcher_reachable False ran_one"
proof -
  let ?d0 = "dispatcher_init\<lparr>d_tasks := [task_create 7], h_accepted := [task_create 7]\<rparr>"
  let ?d1 = "?d0\<lparr>d_state := STARTED, d_thread := D_check\<rparr>"
  let ?d2 = "?d1\<lparr>d_thread := D_lock\<rparr>"
  have "dispatcher_step False dispatcher_init ?d0"
    using dispatcher_step.added [of "task_create 7" False False dispatcher_init "dispatcher_init\<lparr>d_tasks := [task_create 7]\<rparr>"]
    by (simp add: dispatcher_addTask_def dispatcher_init_def dispatcher_new_def dispatcher.defs d_notify_def Let_def)
  moreover have "dispatcher_step False ?d0 ?d1"
    by (rule dispatcher_step.started)
      (simp add: dispatcher_start_def dispatcher_init_def dispatcher_new_def dispatcher.defs)
  moreover have "dispatcher_step False ?d1 ?d2"
    by (rule dispatcher_step.thread, rule thread_step.loop) simp_all
  moreover have "dispatcher_step False ?d2 (take_task 0 ?d2)"
    by (rule dispatcher_step.thread, rule thread_step.locked) (simp_all add: TIME_MAX_def)
  moreover have "take_task 0 ?d2 = ran_one"
    by (simp add: take_task_def handle_task_def runTask_def task_create_def TIME_MAX_def ran_one_def
        dispatcher_init_def dispatcher_new_def dispatcher.defs)
  ultimately show ?thesis
    using dispatcher_reachable.intros(1) by (metis (no_types) dispatcher_reachable.step)
qed

lemma dispatcher_runs_every_task_witness:
  "h_accepted ran_one = map snd (h_handled ran_one) @ draining (d_thread ran_one) @ d_tasks ran_one
    \<and> executed (h_events ran_one) = [7]"
  using dispatcher_runs_every_task [OF ran_one_reachable]
  by (simp add: ran_one_def task_create_def)

section \<open>Stopping can hang\<close>

definition dispatcher_about_to_sleep :: "dispatcher_run \<Rightarrow> bool" where
  "dispatcher_about_to_sleep d \<longleftrightarrow> d_thread d = D_lock \<and> d_state d = STARTED \<and> d_tasks d = []"

definition dispatcher_asleep :: "dispatcher_run \<Rightarrow> bool" where
  "dispatcher_asleep d \<longleftrightarrow> d_thread d = D_waiting \<and> d_state d = STOPPING \<and> d_tasks d = []"

interpretation dispatcher_worker:
  stoppable_worker "dispatcher_step urgent" dispatcher_about_to_sleep dispatcher_asleep
proof (unfold_locales, goal_cases)
  case (1 s)
  let ?s1 = "s\<lparr>d_state := STOPPING\<rparr>"
  have "dispatcher_step urgent s ?s1"
    by (rule dispatcher_step.stopped)
      (use 1 in \<open>simp add: dispatcher_stop_def dispatcher_about_to_sleep_def d_notify_def Let_def\<close>)
  moreover have "dispatcher_step urgent ?s1 (?s1\<lparr>d_thread := D_waiting\<rparr>)"
    by (rule dispatcher_step.thread, rule thread_step.sleep)
      (use 1 in \<open>simp_all add: dispatcher_about_to_sleep_def\<close>)
  ultimately show ?case
    using 1 by (intro exI [of _ ?s1] exI [of _ "?s1\<lparr>d_thread := D_waiting\<rparr>"])
      (simp add: dispatcher_about_to_sleep_def dispatcher_asleep_def)
next
  case (2 s s')
  from 2(2) show ?case
    by (cases rule: dispatcher_step.cases)
      (use 2(1) in \<open>auto simp: dispatcher_asleep_def dispatcher_addTask_def dispatcher_start_def
        dispatcher_stop_def waitUntilStopped_def elim: thread_step.cases split: if_splits\<close>)
qed

text \<open>
  C30: stopping the dispatcher can hang. The thread tests its state before it takes the lock: a stop
  that comes between the two notifies nobody, and the thread goes to sleep on an empty queue that
  refuses every further task. No call and no thread wakes it any more; \<^verbatim>\<open>waitUntilStopped\<close> then
  joins it forever.
\<close>

theorem dispatcher_stop_can_hang:
  "\<exists>d. dispatcher_reachable False d \<and> d_state d = STOPPING \<and> d_thread d = D_waiting
     \<and> {d'. (dispatcher_step False)\<^sup>*\<^sup>* d d'} \<subseteq> {d'. d_state d' = STOPPING \<and> d_thread d' = D_waiting}"
proof -
  let ?d1 = "dispatcher_init\<lparr>d_state := STARTED, d_thread := D_check\<rparr>"
  let ?d2 = "?d1\<lparr>d_thread := D_lock\<rparr>"
  have "dispatcher_step False dispatcher_init ?d1"
    by (rule dispatcher_step.started)
      (simp add: dispatcher_start_def dispatcher_init_def dispatcher_new_def dispatcher.defs)
  moreover have "dispatcher_step False ?d1 ?d2"
    by (rule dispatcher_step.thread, rule thread_step.loop) simp_all
  ultimately have "(dispatcher_step False)\<^sup>*\<^sup>* dispatcher_init ?d2" by simp
  moreover have "dispatcher_about_to_sleep ?d2"
    by (simp add: dispatcher_about_to_sleep_def dispatcher_init_def dispatcher_new_def dispatcher.defs)
  ultimately obtain d where "(dispatcher_step False)\<^sup>*\<^sup>* dispatcher_init d" "dispatcher_asleep d"
      "\<And>d'. (dispatcher_step False)\<^sup>*\<^sup>* d d' \<Longrightarrow> dispatcher_asleep d'"
    using dispatcher_worker.stop_can_hang by blast
  then show ?thesis
    using dispatcher_steps_reachable [OF _ dispatcher_reachable.init] by (auto simp: dispatcher_asleep_def)
qed

end
