(* ===== verification/Scheduler.thy ===== *)
theory Scheduler
  imports Tasks
begin

text \<open>
  \<^verbatim>\<open>Scheduler\<close> (\<^verbatim>\<open>src/sources/scheduler.h\<close>, \<^verbatim>\<open>scheduler.cpp\<close>): the thread that hands tasks to the
  dispatcher when their time has come, unless they were cancelled.  Which of several earliest
  tasks a priority queue has on top is not specified; it is the parameter \<open>front\<close>, of which
  \<open>is_top\<close> says what the queue's documentation promises.
\<close>

section \<open>State and operations\<close>

datatype scheduler_thread =
    S_none | S_check | S_lock | S_waiting "time option" | S_woken | S_handing scheduler_task | S_leave | S_done

record scheduler =
  s_state :: worker_state
  s_tasks :: "scheduler_task list"
  s_pendingTaskIds :: "u32 set"
  s_lastUsedTaskId :: u32
  s_thread :: scheduler_thread

definition scheduler_new :: scheduler where
  "scheduler_new = \<lparr>s_state = STOPPED, s_tasks = [], s_pendingTaskIds = {}, s_lastUsedTaskId = 0, s_thread = S_none\<rparr>"

type_synonym top_of = "scheduler_task list \<Rightarrow> scheduler_task"

definition is_top :: "top_of \<Rightarrow> bool" where
  "is_top front \<longleftrightarrow> (\<forall>ts. ts \<noteq> [] \<longrightarrow> front ts \<in> set ts \<and> (\<forall>t \<in> set ts. st_time (front ts) \<le> st_time t))"

fun earliest :: "scheduler_task list \<Rightarrow> scheduler_task" where
  "earliest [] = scheduler_task_at 0 0"
| "earliest [t] = t"
| "earliest (t # ts) = (let u = earliest ts in if st_time t \<le> st_time u then t else u)"

lemma earliest_is_top: "is_top earliest"
proof -
  have "ts \<noteq> [] \<Longrightarrow> earliest ts \<in> set ts \<and> (\<forall>t \<in> set ts. st_time (earliest ts) \<le> st_time t)" for ts
    by (induction ts rule: earliest.induct) (auto simp: Let_def)
  then show ?thesis by (simp add: is_top_def)
qed

definition s_notify :: "'a scheduler_scheme \<Rightarrow> 'a scheduler_scheme" where
  "s_notify s = (case s_thread s of S_waiting _ \<Rightarrow> s\<lparr>s_thread := S_woken\<rparr> | _ \<Rightarrow> s)"

definition scheduler_addTask :: "top_of \<Rightarrow> scheduler_task option \<Rightarrow> 'a scheduler_scheme
    \<Rightarrow> (u32 \<times> 'a scheduler_scheme) run" where
  "scheduler_addTask front task s =
     (case task of None \<Rightarrow> Inl Assertion_failed
      | Some t \<Rightarrow>
          if s_state s = STOPPING then Inr (0, s)
          else
            let (taskId, last) =
                  (if st_id t = 0 then
                     if s_lastUsedTaskId s = - 1 then (1, 1)
                     else (s_lastUsedTaskId s + 1, s_lastUsedTaskId s + 1)
                   else (st_id t, s_lastUsedTaskId s));
                tasks = s_tasks s @ [setId taskId t];
                s = s\<lparr>s_lastUsedTaskId := last, s_pendingTaskIds := insert taskId (s_pendingTaskIds s), s_tasks := tasks\<rparr>
            in Inr (taskId, if st_id (front tasks) = taskId then s_notify s else s))"

definition cancelTask :: "u32 \<Rightarrow> 'a scheduler_scheme \<Rightarrow> bool \<times> 'a scheduler_scheme" where
  "cancelTask taskId s =
     (if s_state s \<noteq> STARTED then (False, s)
      else if taskId = 0 then (False, s)
      else if taskId \<notin> s_pendingTaskIds s then (False, s)
      else (True, s\<lparr>s_pendingTaskIds := s_pendingTaskIds s - {taskId}\<rparr>))"

definition scheduler_start :: "'a scheduler_scheme \<Rightarrow> 'a scheduler_scheme run" where
  "scheduler_start s =
     (if s_state s = STOPPED then
        if s_thread s = S_none then Inr (s\<lparr>s_state := STARTED, s_thread := S_check\<rparr>)
        else Inl Undefined_behaviour
      else Inl Assertion_failed)"

definition scheduler_stop :: "'a scheduler_scheme \<Rightarrow> 'a scheduler_scheme run" where
  "scheduler_stop s =
     (if s_state s = STARTED then Inr (s_notify (s\<lparr>s_state := STOPPING\<rparr>)) else Inl Assertion_failed)"

definition scheduler_waitUntilStopped :: "'a scheduler_scheme \<Rightarrow> 'a scheduler_scheme run" where
  "scheduler_waitUntilStopped s =
     (if s_state s = STARTED then Inl Assertion_failed
      else if s_thread s = S_done then Inr (s\<lparr>s_thread := S_none\<rparr>) else Inr s)"

section \<open>The thread\<close>

text \<open>
  The history of a run of the thread, on the clock \<open>h_now\<close>: what was added, what was cancelled
  and what was handed to the dispatcher, with the time.
\<close>

record scheduler_run = scheduler +
  h_now :: time
  h_added :: "u32 set"
  h_cancelled :: "u32 set"
  h_dispatched :: "(time \<times> scheduler_task) list"

definition remove_task :: "scheduler_task \<Rightarrow> scheduler_task list \<Rightarrow> scheduler_task list" where
  "remove_task = remove1"

text \<open>What the thread does after \<^verbatim>\<open>wait\<close> or \<^verbatim>\<open>wait_until\<close> has returned with the lock.\<close>

definition take_due :: "top_of \<Rightarrow> scheduler_run \<Rightarrow> scheduler_run" where
  "take_due front s =
     (if s_state s \<noteq> STARTED \<or> s_tasks s = [] \<or> st_time (front (s_tasks s)) > h_now s
      then s\<lparr>s_thread := S_check\<rparr>
      else
        let t = front (s_tasks s); s = s\<lparr>s_tasks := remove_task t (s_tasks s)\<rparr> in
        if st_id t \<notin> s_pendingTaskIds s then s\<lparr>s_thread := S_check\<rparr>
        else s\<lparr>s_pendingTaskIds := s_pendingTaskIds s - {st_id t}, s_thread := S_handing t\<rparr>)"

inductive scheduler_thread_step :: "top_of \<Rightarrow> scheduler_run \<Rightarrow> scheduler_run \<Rightarrow> bool" for front where
  loop: "s_thread s = S_check \<Longrightarrow> s_state s = STARTED \<Longrightarrow>
    scheduler_thread_step front s (s\<lparr>s_thread := S_lock\<rparr>)"
| leave: "s_thread s = S_check \<Longrightarrow> s_state s \<noteq> STARTED \<Longrightarrow>
    scheduler_thread_step front s (s\<lparr>s_thread := S_leave\<rparr>)"
| sleep: "s_thread s = S_lock \<Longrightarrow>
    scheduler_thread_step front s
      (s\<lparr>s_thread := S_waiting (if s_tasks s = [] then None else Some (st_time (front (s_tasks s))))\<rparr>)"
| timeout: "s_thread s = S_waiting (Some e) \<Longrightarrow> e \<le> h_now s \<Longrightarrow>
    scheduler_thread_step front s (s\<lparr>s_thread := S_woken\<rparr>)"
| woken: "s_thread s = S_woken \<Longrightarrow> scheduler_thread_step front s (take_due front s)"
| hand: "s_thread s = S_handing t \<Longrightarrow>
    scheduler_thread_step front s
      (s\<lparr>s_thread := S_check, h_dispatched := h_dispatched s @ [(h_now s, setExpiration TIME_MAX t)]\<rparr>)"
| finish: "s_thread s = S_leave \<Longrightarrow>
    scheduler_thread_step front s
      (s\<lparr>s_lastUsedTaskId := 0, s_pendingTaskIds := {}, s_tasks := [], s_state := STOPPED, s_thread := S_done,
         h_added := {}, h_cancelled := {}, h_dispatched := []\<rparr>)"

text \<open>
  The other threads add new tasks (until the numbers run out), cancel, start, stop and wait, and
  time passes.
\<close>

inductive scheduler_step :: "top_of \<Rightarrow> scheduler_run \<Rightarrow> scheduler_run \<Rightarrow> bool" for front where
  thread: "scheduler_thread_step front s s' \<Longrightarrow> scheduler_step front s s'"
| added: "st_id t = 0 \<Longrightarrow> s_lastUsedTaskId s \<noteq> - 1 \<Longrightarrow> scheduler_addTask front (Some t) s = Inr (i, s') \<Longrightarrow>
    scheduler_step front s (if i = 0 then s' else s'\<lparr>h_added := insert i (h_added s)\<rparr>)"
| cancelled: "cancelTask i s = (b, s') \<Longrightarrow>
    scheduler_step front s (if b then s'\<lparr>h_cancelled := insert i (h_cancelled s)\<rparr> else s')"
| started: "scheduler_start s = Inr s' \<Longrightarrow> scheduler_step front s s'"
| stopped: "scheduler_stop s = Inr s' \<Longrightarrow> scheduler_step front s s'"
| waited: "scheduler_waitUntilStopped s = Inr s' \<Longrightarrow> scheduler_step front s s'"
| tick: "h_now s \<le> now \<Longrightarrow> scheduler_step front s (s\<lparr>h_now := now\<rparr>)"

definition scheduler_init :: scheduler_run where
  "scheduler_init = scheduler.extend scheduler_new \<lparr>h_now = 0, h_added = {}, h_cancelled = {}, h_dispatched = []\<rparr>"

inductive scheduler_reachable :: "top_of \<Rightarrow> scheduler_run \<Rightarrow> bool" for front where
  init: "scheduler_reachable front scheduler_init"
| step: "scheduler_reachable front s \<Longrightarrow> scheduler_step front s s' \<Longrightarrow> scheduler_reachable front s'"
| spurious: "scheduler_reachable front s \<Longrightarrow> s_thread s = S_waiting e \<Longrightarrow>
    scheduler_reachable front (s\<lparr>s_thread := S_woken\<rparr>)"

section \<open>What the scheduler promises\<close>

fun handing :: "scheduler_thread \<Rightarrow> scheduler_task list" where
  "handing (S_handing t) = [t]"
| "handing _ = []"

definition queued_ids :: "scheduler_run \<Rightarrow> u32 set" where
  "queued_ids s = st_id ` set (s_tasks s)"

definition dispatched_ids :: "scheduler_run \<Rightarrow> u32 list" where
  "dispatched_ids s = map (st_id \<circ> snd) (h_dispatched s)"

definition handing_ids :: "scheduler_run \<Rightarrow> u32 list" where
  "handing_ids s = map st_id (handing (s_thread s))"

definition ids_inv :: "scheduler_run \<Rightarrow> bool" where
  "ids_inv s \<longleftrightarrow>
     distinct (dispatched_ids s @ handing_ids s @ map st_id (s_tasks s))
   \<and> (\<forall>i \<in> h_added s. 0 < i \<and> i \<le> s_lastUsedTaskId s)
   \<and> s_pendingTaskIds s \<subseteq> queued_ids s
   \<and> h_added s = s_pendingTaskIds s \<union> h_cancelled s \<union> set (dispatched_ids s @ handing_ids s)
   \<and> queued_ids s \<subseteq> h_added s
   \<and> h_cancelled s \<inter> (s_pendingTaskIds s \<union> set (dispatched_ids s @ handing_ids s)) = {}"

fun thread_ok :: "scheduler_thread \<Rightarrow> worker_state \<Rightarrow> scheduler_task list \<Rightarrow> bool" where
  "thread_ok S_none st ts \<longleftrightarrow> st = STOPPED"
| "thread_ok S_done st ts \<longleftrightarrow> st = STOPPED"
| "thread_ok S_leave st ts \<longleftrightarrow> st = STOPPING"
| "thread_ok (S_waiting None) st ts \<longleftrightarrow> st \<noteq> STOPPED \<and> ts = []"
| "thread_ok (S_waiting (Some e)) st ts \<longleftrightarrow> st \<noteq> STOPPED \<and> ts \<noteq> [] \<and> (\<forall>t \<in> set ts. e \<le> st_time t)"
| "thread_ok _ st ts \<longleftrightarrow> st \<noteq> STOPPED"

definition time_inv :: "scheduler_run \<Rightarrow> bool" where
  "time_inv s \<longleftrightarrow>
     (\<forall>(now, t) \<in> set (h_dispatched s). st_time t \<le> now \<and> now \<le> h_now s \<and> t_expiration t = TIME_MAX)
   \<and> (\<forall>t \<in> set (handing (s_thread s)). st_time t \<le> h_now s)
   \<and> thread_ok (s_thread s) (s_state s) (s_tasks s)"

lemmas ids_defs = ids_inv_def queued_ids_def dispatched_ids_def handing_ids_def

lemma ids_invD:
  assumes "ids_inv s"
  shows "distinct (dispatched_ids s @ handing_ids s @ map st_id (s_tasks s))"
    "\<forall>i \<in> h_added s. 0 < i \<and> i \<le> s_lastUsedTaskId s"
    "s_pendingTaskIds s \<subseteq> queued_ids s" "queued_ids s \<subseteq> h_added s"
    "h_added s = s_pendingTaskIds s \<union> h_cancelled s \<union> set (dispatched_ids s @ handing_ids s)"
    "h_cancelled s \<inter> (s_pendingTaskIds s \<union> set (dispatched_ids s @ handing_ids s)) = {}"
  using assms unfolding ids_inv_def by - (elim conjE, assumption)+

lemma ids_inv_updates [simp]:
  "ids_inv (s\<lparr>s_state := st\<rparr>) = ids_inv s" "ids_inv (s\<lparr>h_now := now\<rparr>) = ids_inv s"
  "handing th = handing (s_thread s) \<Longrightarrow> ids_inv (s\<lparr>s_thread := th\<rparr>) = ids_inv s"
  "handing th = handing (s_thread s) \<Longrightarrow> ids_inv (s\<lparr>s_state := st, s_thread := th\<rparr>) = ids_inv s"
  by (simp_all add: ids_defs)

lemma waiting_not_stopped: "thread_ok (S_waiting e) st ts \<Longrightarrow> st \<noteq> STOPPED"
  by (cases e) simp_all

lemma remove1_ids:
  assumes "distinct (map f xs)" "x \<in> set xs"
  shows "f ` set (remove1 x xs) = f ` set xs - {f x}" "distinct (map f (remove1 x xs))"
proof -
  have "distinct xs" "inj_on f (set xs)" using assms(1) by (simp_all add: distinct_map)
  then show "f ` set (remove1 x xs) = f ` set xs - {f x}" "distinct (map f (remove1 x xs))"
    using assms(2) by (auto simp: distinct_map inj_on_def)
qed

lemma front_in: "is_top front \<Longrightarrow> ts \<noteq> [] \<Longrightarrow> front ts \<in> set ts"
  by (simp add: is_top_def)

lemma front_least: "is_top front \<Longrightarrow> t \<in> set ts \<Longrightarrow> st_time (front ts) \<le> st_time t"
  unfolding is_top_def by (metis empty_iff list.set(1))

lemma take_due_ids:
  assumes "is_top front" "ids_inv s" "s_thread s = S_woken"
  shows "ids_inv (take_due front s)"
proof (cases "s_state s \<noteq> STARTED \<or> s_tasks s = [] \<or> st_time (front (s_tasks s)) > h_now s")
  case True
  then show ?thesis using assms(2,3) by (auto simp: take_due_def ids_defs)
next
  case False
  let ?t = "front (s_tasks s)"
  have d: "distinct (map st_id (s_tasks s))" "?t \<in> set (s_tasks s)"
    using assms(2) False front_in [OF assms(1)] by (simp_all add: ids_inv_def)
  note r = remove1_ids [OF d]
  let ?q = "s_tasks s" and ?i = "st_id (front (s_tasks s))"
  have none: "handing_ids s = []" using assms(3) by (simp add: handing_ids_def)
  have inv: "distinct (dispatched_ids s @ map st_id ?q)" "\<forall>i \<in> h_added s. 0 < i \<and> i \<le> s_lastUsedTaskId s"
      "s_pendingTaskIds s \<subseteq> st_id ` set ?q" "st_id ` set ?q \<subseteq> h_added s"
      "h_added s = s_pendingTaskIds s \<union> h_cancelled s \<union> set (dispatched_ids s)"
      "h_cancelled s \<inter> (s_pendingTaskIds s \<union> set (dispatched_ids s)) = {}"
    using assms(2) none unfolding ids_inv_def queued_ids_def by (simp, simp, simp, blast, simp, simp)
  have i: "?i \<in> st_id ` set ?q" using d(2) by simp
  have n: "?i \<notin> set (dispatched_ids s)" using inv(1) i by auto
  have dis: "set (dispatched_ids s) \<inter> st_id ` set ?q = {}" "distinct (dispatched_ids s)" using inv(1) by auto
  show ?thesis
  proof (cases "?i \<in> s_pendingTaskIds s")
    case True
    let ?s = "s\<lparr>s_tasks := remove1 ?t ?q, s_pendingTaskIds := s_pendingTaskIds s - {?i}, s_thread := S_handing ?t\<rparr>"
    have e: "take_due front s = ?s" using False True by (simp add: take_due_def remove_task_def Let_def)
    have f: "dispatched_ids ?s = dispatched_ids s" "handing_ids ?s = [?i]" "queued_ids ?s = st_id ` set ?q - {?i}"
      by (simp_all add: dispatched_ids_def handing_ids_def queued_ids_def r)
    show ?thesis unfolding e ids_inv_def f using inv dis n True r by auto
  next
    case np: False
    let ?s = "s\<lparr>s_tasks := remove1 ?t ?q, s_thread := S_check\<rparr>"
    have e: "take_due front s = ?s" using False np by (simp add: take_due_def remove_task_def Let_def)
    have f: "dispatched_ids ?s = dispatched_ids s" "handing_ids ?s = []" "queued_ids ?s = st_id ` set ?q - {?i}"
      by (simp_all add: dispatched_ids_def handing_ids_def queued_ids_def r)
    show ?thesis unfolding e ids_inv_def f using inv dis n np r by auto
  qed
qed

lemma take_due_time:
  assumes "is_top front" "time_inv s" "s_thread s = S_woken"
  shows "time_inv (take_due front s)"
  using assms by (auto simp: take_due_def time_inv_def Let_def)

lemma thread_step_ids:
  assumes "is_top front" "scheduler_thread_step front s s'" "ids_inv s"
  shows "ids_inv s'"
  using assms(2)
proof (cases rule: scheduler_thread_step.cases)
  case woken
  then show ?thesis using take_due_ids assms(1,3) by blast
next
  case (hand t)
  let ?s = "s\<lparr>s_thread := S_check, h_dispatched := h_dispatched s @ [(h_now s, setExpiration TIME_MAX t)]\<rparr>"
  have e: "dispatched_ids ?s @ handing_ids ?s = dispatched_ids s @ handing_ids s" "queued_ids ?s = queued_ids s"
    using hand(2) by (simp_all add: dispatched_ids_def handing_ids_def queued_ids_def setExpiration_def)
  have "ids_inv ?s = ids_inv s" unfolding ids_inv_def append_assoc [symmetric] e by simp
  then show ?thesis using assms(3) hand(1) by simp
next
  case finish
  then show ?thesis by (simp add: ids_defs)
qed (use assms(3) in simp_all)

lemma thread_step_time:
  assumes "is_top front" "scheduler_thread_step front s s'" "time_inv s"
  shows "time_inv s'"
  using assms(2)
proof (cases rule: scheduler_thread_step.cases)
  case woken
  then show ?thesis using take_due_time assms(1,3) by blast
next
  case leave
  then show ?thesis using assms(3) by (cases "s_state s") (auto simp: time_inv_def)
qed (use assms(3) front_least [OF assms(1)] in \<open>auto simp: time_inv_def setExpiration_def\<close>)

lemma fresh_id:
  fixes l :: u32
  assumes "l \<noteq> - 1"
  shows "l + 1 \<noteq> 0" "i \<le> l \<Longrightarrow> i \<le> l + 1" "i \<le> l \<Longrightarrow> i \<noteq> l + 1"
proof -
  have "unat l \<noteq> unat (- 1 :: u32)" using assms by (simp only: word_unat_eq_iff [symmetric]) simp
  moreover have "unat l < 2 ^ 32" using unsigned_less [of l] by simp
  ultimately have u: "unat (l + 1) = unat l + 1"
    by (simp add: unat_word_ariths unsigned_minus_1_eq_mask mask_eq_exp_minus_1)
  show "l + 1 \<noteq> 0" using u by (metis add_is_0 unsigned_0 zero_neq_one)
  show "i \<le> l \<Longrightarrow> i \<le> l + 1" "i \<le> l \<Longrightarrow> i \<noteq> l + 1"
    using u by (auto simp: word_le_nat_alt)
qed

lemma s_notify_ids [simp]:
  "ids_inv (s_notify s) = ids_inv s"
  by (auto simp: s_notify_def ids_defs split: scheduler_thread.splits)

lemma added_ids:
  assumes "ids_inv s" "st_id t = 0" "s_lastUsedTaskId s \<noteq> - 1" "scheduler_addTask front (Some t) s = Inr (i, s')"
  shows "ids_inv (if i = 0 then s' else s'\<lparr>h_added := insert i (h_added s)\<rparr>)"
proof (cases "s_state s = STOPPING")
  case True
  then show ?thesis using assms(1,4) by (auto simp: scheduler_addTask_def)
next
  case False
  let ?i = "s_lastUsedTaskId s + 1"
  let ?s = "s\<lparr>s_lastUsedTaskId := ?i, s_pendingTaskIds := insert ?i (s_pendingTaskIds s),
    s_tasks := s_tasks s @ [setId ?i t]\<rparr>"
  let ?u = "?s\<lparr>h_added := insert ?i (h_added s)\<rparr>"
  have i: "i = ?i" "s' = ?s \<or> s' = s_notify ?s"
    using False assms(2-4) by (auto simp: scheduler_addTask_def Let_def split: if_splits)
  have n: "?i \<notin> h_added s"
  proof
    assume "?i \<in> h_added s"
    then have "?i \<le> s_lastUsedTaskId s" using assms(1) unfolding ids_inv_def by blast
    then show False using fresh_id(3) [OF assms(3)] by blast
  qed
  have "queued_ids s \<subseteq> h_added s" "set (dispatched_ids s) \<subseteq> h_added s" "set (handing_ids s) \<subseteq> h_added s"
      "h_cancelled s \<subseteq> h_added s" "s_pendingTaskIds s \<subseteq> h_added s"
    using assms(1) unfolding ids_inv_def set_append by (elim conjE, blast)+
  then have "?i \<notin> queued_ids s" "?i \<notin> set (dispatched_ids s)" "?i \<notin> set (handing_ids s)" "?i \<notin> h_cancelled s"
      "?i \<notin> s_pendingTaskIds s"
    using n by blast+
  note new = this
  note old = ids_invD [OF assms(1)]
  have bound: "\<forall>j \<in> insert ?i (h_added s). 0 < j \<and> j \<le> ?i"
    using old(2) fresh_id(1,2) [OF assms(3)] by (auto simp: word_gt_0)
  have u: "dispatched_ids ?u = dispatched_ids s" "handing_ids ?u = handing_ids s"
      "queued_ids ?u = insert ?i (queued_ids s)" "map st_id (s_tasks ?u) = map st_id (s_tasks s) @ [?i]"
    by (simp_all add: dispatched_ids_def handing_ids_def queued_ids_def setId_def)
  have "distinct (dispatched_ids s @ handing_ids s @ map st_id (s_tasks s) @ [?i])"
    using old(1) new(1-3) by (simp add: queued_ids_def)
  moreover have "insert ?i (s_pendingTaskIds s) \<subseteq> insert ?i (queued_ids s)" "insert ?i (queued_ids s) \<subseteq> insert ?i (h_added s)"
    using old(3,4) by blast+
  moreover have "insert ?i (h_added s) = insert ?i (s_pendingTaskIds s) \<union> h_cancelled s \<union> set (dispatched_ids s @ handing_ids s)"
    using old(5) by blast
  moreover have "h_cancelled s \<inter> (insert ?i (s_pendingTaskIds s) \<union> set (dispatched_ids s @ handing_ids s)) = {}"
    using old(6) new(4) by blast
  ultimately have inv: "ids_inv ?u" unfolding ids_inv_def u using bound by simp
  have "s_notify ?s\<lparr>h_added := insert ?i (h_added s)\<rparr> = s_notify (?s\<lparr>h_added := insert ?i (h_added s)\<rparr>)"
    by (auto simp: s_notify_def split: scheduler_thread.splits)
  then show ?thesis using i inv fresh_id(1) [OF assms(3)] by auto
qed

lemma thread_ok_later:
  "thread_ok th st ts \<Longrightarrow> u \<in> set ts \<Longrightarrow> st_time u \<le> st_time t \<Longrightarrow> thread_ok th st (ts @ [t])"
  by (cases "(th, st, ts)" rule: thread_ok.cases) auto

lemma notify_time:
  assumes "\<forall>(now, t) \<in> set (h_dispatched s). st_time t \<le> now \<and> now \<le> h_now s \<and> t_expiration t = TIME_MAX"
    and "\<forall>t \<in> set (handing (s_thread s)). st_time t \<le> h_now s" "thread_ok (s_thread s) (s_state s) ts"
  shows "time_inv (s_notify s)"
  using assms by (cases "s_thread s") (simp_all add: s_notify_def time_inv_def waiting_not_stopped)

lemma added_time:
  assumes "is_top front" "time_inv s" "scheduler_addTask front (Some t) s = Inr (i, s')"
    "st_id t = 0" "s_lastUsedTaskId s \<noteq> - 1" "ids_inv s"
  shows "time_inv s'"
proof (cases "s_state s = STOPPING")
  case True
  then show ?thesis using assms(2,3) by (auto simp: scheduler_addTask_def)
next
  case False
  let ?i = "s_lastUsedTaskId s + 1"
  let ?ts = "s_tasks s @ [setId ?i t]"
  let ?s = "s\<lparr>s_lastUsedTaskId := ?i, s_pendingTaskIds := insert ?i (s_pendingTaskIds s), s_tasks := ?ts\<rparr>"
  have s': "s' = (if st_id (front ?ts) = ?i then s_notify ?s else ?s)"
    using False assms(3-5) by (auto simp: scheduler_addTask_def Let_def split: if_splits)
  have h: "h_dispatched ?s = h_dispatched s" "s_thread ?s = s_thread s" "h_now ?s = h_now s"
      "s_state ?s = s_state s" "s_tasks ?s = ?ts" by simp_all
  have inv: "\<forall>(now, t) \<in> set (h_dispatched s). st_time t \<le> now \<and> now \<le> h_now s \<and> t_expiration t = TIME_MAX"
      "\<forall>t \<in> set (handing (s_thread s)). st_time t \<le> h_now s" "thread_ok (s_thread s) (s_state s) (s_tasks s)"
    using assms(2) unfolding time_inv_def by - (elim conjE, assumption)+
  show ?thesis
  proof (cases "st_id (front ?ts) = ?i")
    case True
    then have "s' = s_notify ?s" using s' by simp
    then show ?thesis using notify_time [of ?s "s_tasks s"] inv unfolding h by simp
  next
    case nt: False
    then have "front ?ts \<noteq> setId ?i t" by (auto simp: setId_def)
    then have f: "front ?ts \<in> set (s_tasks s)" using front_in [OF assms(1), of ?ts] by auto
    have "st_time (front ?ts) \<le> st_time (setId ?i t)"
      using front_least [OF assms(1), of "setId ?i t" ?ts] by simp
    then have "thread_ok (s_thread s) (s_state s) ?ts" using thread_ok_later [OF inv(3)] f by blast
    then show ?thesis using s' nt inv unfolding time_inv_def by (simp only: h if_False)
  qed
qed

lemma cancel_ids:
  assumes "ids_inv s" "i \<in> s_pendingTaskIds s"
  shows "ids_inv (s\<lparr>s_pendingTaskIds := s_pendingTaskIds s - {i}, h_cancelled := insert i (h_cancelled s)\<rparr>)"
    (is "ids_inv ?u")
proof -
  note old = ids_invD [OF assms(1)]
  have "i \<in> set (map st_id (s_tasks s))" using old(3) assms(2) by (auto simp: queued_ids_def)
  then have "i \<notin> set (dispatched_ids s @ handing_ids s)" using old(1) by auto
  then have n: "h_cancelled s \<inter> (s_pendingTaskIds s - {i} \<union> set (dispatched_ids s @ handing_ids s)) = {}"
      "i \<notin> s_pendingTaskIds s - {i} \<union> set (dispatched_ids s @ handing_ids s)"
    using old(6) by blast+
  have u: "dispatched_ids ?u = dispatched_ids s" "handing_ids ?u = handing_ids s" "queued_ids ?u = queued_ids s"
    by (simp_all add: dispatched_ids_def handing_ids_def queued_ids_def)
  have "h_added s = (s_pendingTaskIds s - {i}) \<union> insert i (h_cancelled s) \<union> set (dispatched_ids s @ handing_ids s)"
    using old(5) assms(2) by blast
  moreover have "s_pendingTaskIds s - {i} \<subseteq> queued_ids s" using old(3) by blast
  moreover have "insert i (h_cancelled s) \<inter> (s_pendingTaskIds s - {i} \<union> set (dispatched_ids s @ handing_ids s)) = {}"
    using n by blast
  ultimately show ?thesis unfolding ids_inv_def u using old(1,2,4) by (intro conjI) simp_all
qed

lemma scheduler_step_inv:
  assumes "is_top front" "scheduler_step front s s'" "ids_inv s \<and> time_inv s"
  shows "ids_inv s' \<and> time_inv s'"
  using assms(2)
proof (cases rule: scheduler_step.cases)
  case thread
  then show ?thesis using thread_step_ids thread_step_time assms(1,3) by blast
next
  case (added t i s1)
  have "time_inv (s1\<lparr>h_added := insert i (h_added s)\<rparr>) = time_inv s1"
    by (simp add: time_inv_def)
  moreover have "time_inv s1" using added_time [OF assms(1) _ added(4,2,3)] assms(3) by blast
  moreover have "ids_inv s'" using added_ids [OF _ added(2-4)] assms(3) added(1) by blast
  ultimately show ?thesis using added(1) by simp
next
  case (cancelled i b s1)
  then show ?thesis using assms(3)
    by (auto simp: cancelTask_def cancel_ids time_inv_def split: if_splits)
next
  case started
  then show ?thesis using assms(3) by (auto simp: scheduler_start_def time_inv_def split: if_splits)
next
  case stopped
  have "s_state s = STARTED" using stopped by (auto simp: scheduler_stop_def split: if_splits)
  then show ?thesis using stopped assms(3)
    by (cases "s_thread s") (auto simp: scheduler_stop_def s_notify_def time_inv_def)
next
  case waited
  then show ?thesis using assms(3)
    by (auto simp: scheduler_waitUntilStopped_def time_inv_def split: if_splits)
next
  case (tick now)
  then show ?thesis using assms(3) by (fastforce simp: time_inv_def)
qed

lemma scheduler_reachable_inv:
  assumes "is_top front" "scheduler_reachable front s"
  shows "ids_inv s \<and> time_inv s"
  using assms(2)
proof (induction rule: scheduler_reachable.induct)
  case init
  then show ?case
    by (simp add: ids_defs time_inv_def scheduler_init_def scheduler_new_def scheduler.defs)
next
  case (step s s')
  then show ?case using scheduler_step_inv [OF assms(1)] by blast
next
  case (spurious s e)
  then show ?case by (cases e) (auto simp: ids_defs time_inv_def)
qed

text \<open>
  C29: the scheduler hands every task over at most once, never before its time and never after it was
  cancelled; a task that was added is pending, cancelled, on its way or handed over; and the
  thread never oversleeps: asleep without a limit it has no task, asleep until a time it has none
  that is due earlier. This holds for every order of the calls, whichever earliest task the
  priority queue puts on top, as long as the task numbers do not run out.
\<close>

theorem scheduler_hands_over_right:
  assumes "is_top front" "scheduler_reachable front s"
  shows "distinct (dispatched_ids s)
    \<and> (\<forall>(now, t) \<in> set (h_dispatched s). st_time t \<le> now \<and> st_id t \<notin> h_cancelled s \<and> t_expiration t = TIME_MAX)
    \<and> h_added s = s_pendingTaskIds s \<union> h_cancelled s \<union> set (dispatched_ids s @ handing_ids s)
    \<and> (\<forall>e. s_thread s = S_waiting e \<longrightarrow>
         (case e of None \<Rightarrow> s_tasks s = [] | Some e \<Rightarrow> \<forall>t \<in> set (s_tasks s). e \<le> st_time t))"
proof (intro conjI)
  have ids: "ids_inv s" and time: "time_inv s" using scheduler_reachable_inv [OF assms] by simp_all
  show "distinct (dispatched_ids s)"
    "h_added s = s_pendingTaskIds s \<union> h_cancelled s \<union> set (dispatched_ids s @ handing_ids s)"
    using ids unfolding ids_inv_def by auto
  have "set (dispatched_ids s) \<inter> h_cancelled s = {}" using ids unfolding ids_inv_def by auto
  then show "\<forall>(now, t) \<in> set (h_dispatched s). st_time t \<le> now \<and> st_id t \<notin> h_cancelled s \<and> t_expiration t = TIME_MAX"
    using time by (fastforce simp: time_inv_def dispatched_ids_def)
  show "\<forall>e. s_thread s = S_waiting e \<longrightarrow>
      (case e of None \<Rightarrow> s_tasks s = [] | Some e \<Rightarrow> \<forall>t \<in> set (s_tasks s). e \<le> st_time t)"
    using time by (auto simp: time_inv_def split: option.splits)
qed

definition handed_one :: scheduler_run where
  "handed_one = \<lparr>s_state = STARTED, s_tasks = [], s_pendingTaskIds = {}, s_lastUsedTaskId = 1, s_thread = S_check,
     h_now = 0, h_added = {1}, h_cancelled = {}, h_dispatched = [(0, setId 1 (scheduler_task_at 0 7))]\<rparr>"

lemma handed_one_reachable: "scheduler_reachable earliest handed_one"
proof -
  let ?t = "setId 1 (scheduler_task_at 0 7)"
  let ?s1 = "scheduler_init\<lparr>s_state := STARTED, s_thread := S_check\<rparr>"
  let ?s2 = "?s1\<lparr>s_thread := S_lock\<rparr>"
  let ?s3 = "?s2\<lparr>s_thread := S_waiting None\<rparr>"
  let ?s4 = "?s3\<lparr>s_lastUsedTaskId := 1, s_pendingTaskIds := {1}, s_tasks := [?t], s_thread := S_woken, h_added := {1}\<rparr>"
  let ?s5 = "?s4\<lparr>s_tasks := [], s_pendingTaskIds := {}, s_thread := S_handing ?t\<rparr>"
  note init = scheduler_init_def scheduler_new_def scheduler.defs
  have "scheduler_step earliest scheduler_init ?s1"
    by (rule scheduler_step.started) (simp add: scheduler_start_def init)
  moreover have "scheduler_step earliest ?s1 ?s2"
    by (rule scheduler_step.thread, rule scheduler_thread_step.loop) simp_all
  moreover have "scheduler_step earliest ?s2 ?s3"
    using scheduler_step.thread [OF scheduler_thread_step.sleep [of ?s2 earliest]] by (simp add: init)
  moreover have "scheduler_step earliest ?s3 ?s4"
    using scheduler_step.added [of "scheduler_task_at 0 7" ?s3 earliest 1 "?s4\<lparr>h_added := {}\<rparr>"]
    by (simp add: scheduler_addTask_def scheduler_task_at_def setId_def s_notify_def init)
  moreover have "take_due earliest ?s4 = ?s5"
    by (simp add: take_due_def remove_task_def scheduler_task_at_def setId_def init)
  then have "scheduler_step earliest ?s4 ?s5"
    using scheduler_step.thread [OF scheduler_thread_step.woken [of ?s4 earliest]] by simp
  moreover have "scheduler_step earliest ?s5 handed_one"
    using scheduler_step.thread [OF scheduler_thread_step.hand [of ?s5 ?t earliest]]
    by (simp add: handed_one_def setExpiration_def scheduler_task_at_def setId_def init)
  ultimately show ?thesis
    using scheduler_reachable.init by (metis (no_types) scheduler_reachable.step)
qed

lemma scheduler_hands_over_right_witness:
  "distinct (dispatched_ids handed_one)
    \<and> h_added handed_one = s_pendingTaskIds handed_one \<union> h_cancelled handed_one
        \<union> set (dispatched_ids handed_one @ handing_ids handed_one)"
  using scheduler_hands_over_right [OF earliest_is_top handed_one_reachable] by blast

section \<open>Stopping can hang\<close>

definition scheduler_about_to_sleep :: "scheduler_run \<Rightarrow> bool" where
  "scheduler_about_to_sleep s \<longleftrightarrow> s_thread s = S_lock \<and> s_state s = STARTED \<and> s_tasks s = []"

definition scheduler_asleep :: "scheduler_run \<Rightarrow> bool" where
  "scheduler_asleep s \<longleftrightarrow> s_thread s = S_waiting None \<and> s_state s = STOPPING \<and> s_tasks s = []"

interpretation scheduler_worker:
  stoppable_worker "scheduler_step front" scheduler_about_to_sleep scheduler_asleep
proof (unfold_locales, goal_cases)
  case (1 s)
  let ?s1 = "s\<lparr>s_state := STOPPING\<rparr>"
  have "scheduler_step front s ?s1"
    by (rule scheduler_step.stopped)
      (use 1 in \<open>simp add: scheduler_stop_def scheduler_about_to_sleep_def s_notify_def\<close>)
  moreover have "scheduler_step front ?s1 (?s1\<lparr>s_thread := S_waiting None\<rparr>)"
    using scheduler_step.thread [OF scheduler_thread_step.sleep [of ?s1 front]] 1
    by (simp add: scheduler_about_to_sleep_def)
  ultimately show ?case
    using 1 by (intro exI [of _ ?s1] exI [of _ "?s1\<lparr>s_thread := S_waiting None\<rparr>"])
      (simp add: scheduler_about_to_sleep_def scheduler_asleep_def)
next
  case (2 s s')
  from 2(2) show ?case
    by (cases rule: scheduler_step.cases)
      (use 2(1) in \<open>auto simp: scheduler_asleep_def scheduler_addTask_def cancelTask_def scheduler_start_def
        scheduler_stop_def scheduler_waitUntilStopped_def elim: scheduler_thread_step.cases split: if_splits\<close>)
qed

text \<open>
  C31: stopping the scheduler can hang in the same way: a stop between the thread's test of its state
  and its taking the lock is not seen, and without a task the thread sleeps without a limit while
  every further task is refused.
\<close>

theorem scheduler_stop_can_hang:
  "\<exists>s. scheduler_reachable front s \<and> s_state s = STOPPING \<and> s_thread s = S_waiting None
     \<and> {s'. (scheduler_step front)\<^sup>*\<^sup>* s s'} \<subseteq> {s'. s_state s' = STOPPING \<and> s_thread s' = S_waiting None}"
proof -
  let ?s1 = "scheduler_init\<lparr>s_state := STARTED, s_thread := S_check\<rparr>"
  let ?s2 = "?s1\<lparr>s_thread := S_lock\<rparr>"
  have reach: "(scheduler_step front)\<^sup>*\<^sup>* scheduler_init s \<Longrightarrow> scheduler_reachable front s" for s
    by (induction rule: rtranclp_induct) (auto intro: scheduler_reachable.intros)
  have "scheduler_step front scheduler_init ?s1"
    by (rule scheduler_step.started)
      (simp add: scheduler_start_def scheduler_init_def scheduler_new_def scheduler.defs)
  moreover have "scheduler_step front ?s1 ?s2"
    by (rule scheduler_step.thread, rule scheduler_thread_step.loop) simp_all
  ultimately have "(scheduler_step front)\<^sup>*\<^sup>* scheduler_init ?s2" by simp
  moreover have "scheduler_about_to_sleep ?s2"
    by (simp add: scheduler_about_to_sleep_def scheduler_init_def scheduler_new_def scheduler.defs)
  ultimately obtain s where "(scheduler_step front)\<^sup>*\<^sup>* scheduler_init s" "scheduler_asleep s"
      "\<And>s'. (scheduler_step front)\<^sup>*\<^sup>* s s' \<Longrightarrow> scheduler_asleep s'"
    using scheduler_worker.stop_can_hang by blast
  then show ?thesis using reach by (auto simp: scheduler_asleep_def)
qed

end
