(* ===== verification/Wait_List.thy ===== *)
theory Wait_List
  imports Text_Tools
begin

text \<open>
  \<^verbatim>\<open>WaitingList\<close> (\<^verbatim>\<open>src/sources/waitlist.h\<close>, \<^verbatim>\<open>waitlist.cpp\<close>): the queue of players who want to
  log in to a full server.  A player who was refused asks again after a time that depends on his
  place; whoever does not come back in time loses it.  Premium players queue before the others.
  The clock is in milliseconds.
\<close>

section \<open>The list\<close>

record wait =
  w_ip :: u32
  w_name :: string
  w_premium :: bool
  w_timeout :: int

text \<open>What is read of a player.\<close>

record login_player =
  lp_ip :: u32
  lp_name :: string
  lp_canAlwaysLogin :: bool
  lp_accountManager :: bool
  lp_premium :: bool

definition waits_for :: "login_player \<Rightarrow> wait \<Rightarrow> bool" where
  "waits_for player w \<longleftrightarrow> w_ip w = lp_ip player
     \<and> asLowerCaseString (w_name w) = asLowerCaseString (lp_name player)"

text \<open>The iterator, as the index if it is not the end, and the slot that is counted along.\<close>

fun find_from :: "login_player \<Rightarrow> wait list \<Rightarrow> nat \<Rightarrow> nat option \<times> nat" where
  "find_from player [] slot = (None, slot)"
| "find_from player (w # ws) slot = (if waits_for player w then (Some (slot - 1), slot) else find_from player ws (slot + 1))"

definition waitlist_find :: "login_player \<Rightarrow> wait list \<Rightarrow> nat option \<times> nat" where
  "waitlist_find player ws = find_from player ws 1"

definition getTime :: "int \<Rightarrow> int" where
  "getTime slot = (if slot < 5 then 5 else if slot < 10 then 10 else if slot < 20 then 20
     else if slot < 50 then 60 else 120)"

definition getTimeout :: "int \<Rightarrow> int" where
  "getTimeout slot = getTime slot + 15"

fun cleanup :: "int \<Rightarrow> wait list \<Rightarrow> wait list" where
  "cleanup now [] = []"
| "cleanup now (w # ws) = (if w_timeout w - now \<le> 0 then cleanup now ws else w # cleanup now ws)"

text \<open>The loop that looks for the first player without premium: his index and the slot.\<close>

fun first_ordinary :: "wait list \<Rightarrow> nat \<Rightarrow> nat \<Rightarrow> nat \<times> nat" where
  "first_ordinary [] i slot = (i, slot)"
| "first_ordinary (w # ws) i slot = (if \<not> w_premium w then (i, slot) else first_ordinary ws (i + 1) (slot + 1))"

definition insert_at :: "nat \<Rightarrow> wait \<Rightarrow> wait list \<Rightarrow> wait list" where
  "insert_at i w ws = take i ws @ [w] @ drop i ws"

definition new_wait :: "login_player \<Rightarrow> nat \<Rightarrow> int \<Rightarrow> wait" where
  "new_wait player slot now = \<lparr>w_ip = lp_ip player, w_name = lp_name player, w_premium = lp_premium player,
     w_timeout = now + getTimeout (int slot) * 1000\<rparr>"

definition login :: "nat \<Rightarrow> nat \<Rightarrow> int \<Rightarrow> login_player \<Rightarrow> wait list \<Rightarrow> bool \<times> wait list" where
  "login online maximum now player ws =
     (if lp_canAlwaysLogin player \<or> lp_accountManager player \<or> (ws = [] \<and> online < maximum) then (True, ws)
      else
        let ws = cleanup now ws in
        case waitlist_find player ws of
          (Some i, slot) \<Rightarrow>
            if online + slot > maximum
            then (False, ws[i := (ws ! i)\<lparr>w_timeout := now + getTimeout (int slot) * 1000\<rparr>])
            else (True, take i ws @ drop (i + 1) ws)
        | (None, _) \<Rightarrow>
            if lp_premium player then
              let (i, slot) = first_ordinary ws 0 1 in (False, insert_at i (new_wait player slot now) ws)
            else
              let slot = length ws + 1 in (False, ws @ [new_wait player slot now]))"

definition waitlist_getSlot :: "login_player \<Rightarrow> wait list \<Rightarrow> int" where
  "waitlist_getSlot player ws = (case waitlist_find player ws of (Some _, slot) \<Rightarrow> int slot | (None, _) \<Rightarrow> - 1)"

section \<open>Finding and inserting\<close>

lemma find_from_None: "fst (find_from player ws slot) = None \<longleftrightarrow> (\<forall>w \<in> set ws. \<not> waits_for player w)"
  by (induction ws arbitrary: slot) auto

lemma find_from_Some:
  "find_from player ws (Suc k) = (Some i, slot) \<Longrightarrow>
     k \<le> i \<and> slot = Suc i \<and> i - k < length ws \<and> waits_for player (ws ! (i - k)) \<and> (\<forall>j < i - k. \<not> waits_for player (ws ! j))"
proof (induction ws arbitrary: k)
  case (Cons w ws)
  show ?case
  proof (cases "waits_for player w")
    case False
    then have "find_from player ws (Suc (Suc k)) = (Some i, slot)" using Cons.prems by simp
    then have IH: "Suc k \<le> i \<and> slot = Suc i \<and> i - Suc k < length ws \<and> waits_for player (ws ! (i - Suc k))
        \<and> (\<forall>j < i - Suc k. \<not> waits_for player (ws ! j))" using Cons.IH by blast
    then have "i - k = Suc (i - Suc k)" by (simp add: Suc_diff_Suc)
    then show ?thesis using IH False by (auto simp: less_Suc_eq_0_disj)
  qed (use Cons.prems in auto)
qed simp

lemma waitlist_find_Some:
  "waitlist_find player ws = (Some i, slot) \<Longrightarrow>
     slot = Suc i \<and> i < length ws \<and> waits_for player (ws ! i) \<and> (\<forall>j < i. \<not> waits_for player (ws ! j))"
  using find_from_Some [of player ws 0 i slot] by (simp add: waitlist_find_def)

lemma waitlist_find_None: "fst (waitlist_find player ws) = None \<longleftrightarrow> (\<forall>w \<in> set ws. \<not> waits_for player w)"
  by (simp add: waitlist_find_def find_from_None)

lemma cleanup_filter: "cleanup now ws = filter (\<lambda>w. now < w_timeout w) ws"
  by (induction ws) auto

lemma first_ordinary_takeWhile:
  "first_ordinary ws i slot = (i + length (takeWhile w_premium ws), slot + length (takeWhile w_premium ws))"
  by (induction ws arbitrary: i slot) auto

lemma insert_at_premium:
  "insert_at (length (takeWhile w_premium ws)) w ws = takeWhile w_premium ws @ w # dropWhile w_premium ws"
  by (simp add: insert_at_def dropWhile_eq_drop) (metis takeWhile_eq_take)

section \<open>The invariant of the queue\<close>

text \<open>Premium players first, and nobody twice.\<close>

definition premium_first :: "wait list \<Rightarrow> bool" where
  "premium_first ws \<longleftrightarrow> sorted_wrt (\<lambda>a b. w_premium b \<longrightarrow> w_premium a) ws"

definition who :: "wait \<Rightarrow> u32 \<times> string" where
  "who w = (w_ip w, asLowerCaseString (w_name w))"

definition queue_inv :: "wait list \<Rightarrow> bool" where
  "queue_inv ws \<longleftrightarrow> premium_first ws \<and> distinct (map who ws)"

lemma waits_for_who: "waits_for player w \<longleftrightarrow> who w = (lp_ip player, asLowerCaseString (lp_name player))"
  by (auto simp: waits_for_def who_def)

lemma who_new_wait [simp]: "who (new_wait player slot now) = (lp_ip player, asLowerCaseString (lp_name player))"
  by (simp add: who_def new_wait_def)

lemma premium_new_wait [simp]: "w_premium (new_wait player slot now) = lp_premium player"
  by (simp add: new_wait_def)

lemma queue_inv_filter: "queue_inv ws \<Longrightarrow> queue_inv (filter P ws)"
  by (simp add: queue_inv_def premium_first_def sorted_wrt_filter distinct_map_filter)

lemma premium_first_split:
  "premium_first ws \<Longrightarrow> \<forall>w \<in> set (dropWhile w_premium ws). \<not> w_premium w"
proof (induction ws)
  case (Cons w ws)
  have tail: "premium_first ws" "\<forall>b \<in> set ws. w_premium b \<longrightarrow> w_premium w"
    using Cons.prems unfolding premium_first_def sorted_wrt.simps by blast+
  show ?case
  proof (cases "w_premium w")
    case True
    then show ?thesis using Cons.IH [OF tail(1)] by (simp only: dropWhile.simps if_True)
  next
    case False
    then show ?thesis using tail(2) by (auto simp only: dropWhile.simps if_False list.set)
  qed
qed simp

lemma premium_first_map: "premium_first ws = sorted_wrt (\<lambda>a b. b \<longrightarrow> a) (map w_premium ws)"
  by (simp add: premium_first_def sorted_wrt_map)

lemma queue_inv_Cons_remove: "queue_inv (xs @ x # ys) \<Longrightarrow> queue_inv (xs @ ys)"
  by (simp add: queue_inv_def premium_first_def sorted_wrt_append)

lemma queue_inv_update:
  assumes "queue_inv ws" "i < length ws"
  shows "queue_inv (ws[i := (ws ! i)\<lparr>w_timeout := e\<rparr>])"
proof -
  have "map who (ws[i := (ws ! i)\<lparr>w_timeout := e\<rparr>]) = map who ws"
    using assms(2) by (simp add: map_update who_def list_update_same_conv)
  moreover have "map w_premium (ws[i := (ws ! i)\<lparr>w_timeout := e\<rparr>]) = map w_premium ws"
    using assms(2) by (simp add: map_update list_update_same_conv)
  then have "premium_first (ws[i := (ws ! i)\<lparr>w_timeout := e\<rparr>]) = premium_first ws"
    by (simp only: premium_first_map)
  ultimately show ?thesis using assms(1) by (simp add: queue_inv_def)
qed

lemma queue_inv_remove:
  assumes "queue_inv ws" "i < length ws"
  shows "queue_inv (take i ws @ drop (i + 1) ws)"
  using queue_inv_Cons_remove [of "take i ws" "ws ! i" "drop (Suc i) ws"] assms
  by (simp flip: id_take_nth_drop)

lemma queue_inv_append:
  assumes "queue_inv ws" "\<not> lp_premium player" "\<forall>w \<in> set ws. \<not> waits_for player w"
  shows "queue_inv (ws @ [new_wait player slot now])"
proof -
  have "who (new_wait player slot now) \<notin> who ` set ws" using assms(3) by (auto simp: waits_for_who)
  then show ?thesis using assms(1,2) by (simp add: queue_inv_def premium_first_def sorted_wrt_append)
qed

lemma queue_inv_insert:
  assumes "queue_inv ws" "lp_premium player" "\<forall>w \<in> set ws. \<not> waits_for player w"
  shows "queue_inv (takeWhile w_premium ws @ new_wait player slot now # dropWhile w_premium ws)"
proof -
  let ?w = "new_wait player slot now"
  let ?P = "\<lambda>a b. w_premium b \<longrightarrow> w_premium a"
  have "sorted_wrt ?P (takeWhile w_premium ws @ dropWhile w_premium ws)"
    using assms(1) by (simp add: queue_inv_def premium_first_def)
  then have "sorted_wrt ?P (takeWhile w_premium ws)" "sorted_wrt ?P (dropWhile w_premium ws)"
    unfolding sorted_wrt_append by blast+
  moreover have "\<forall>a \<in> set (takeWhile w_premium ws). w_premium a" by (auto dest: set_takeWhileD)
  ultimately have "premium_first (takeWhile w_premium ws @ ?w # dropWhile w_premium ws)"
    unfolding premium_first_def sorted_wrt_append using assms(2) by simp
  moreover have d: "distinct (map who (takeWhile w_premium ws) @ map who (dropWhile w_premium ws))"
    using assms(1) by (simp only: queue_inv_def takeWhile_dropWhile_id flip: map_append)
  have "who ?w \<notin> who ` set ws" using assms(3) by (auto simp: waits_for_who)
  then have "who ?w \<notin> who ` set (takeWhile w_premium ws)" "who ?w \<notin> who ` set (dropWhile w_premium ws)"
    by (auto dest: set_takeWhileD set_dropWhileD)
  then have "distinct (map who (takeWhile w_premium ws @ ?w # dropWhile w_premium ws))" using d by simp
  ultimately show ?thesis by (simp add: queue_inv_def)
qed

lemma login_inv:
  assumes "queue_inv ws"
  shows "queue_inv (snd (login online maximum now player ws))"
proof -
  let ?c = "cleanup now ws"
  have c: "queue_inv ?c" using assms by (simp add: cleanup_filter queue_inv_filter)
  show ?thesis
  proof (cases "waitlist_find player ?c")
    case (Pair r slot)
    show ?thesis
    proof (cases r)
      case None
      then have "\<forall>w \<in> set ?c. \<not> waits_for player w" using Pair waitlist_find_None [of player ?c] by simp
      then show ?thesis
        using assms c Pair None queue_inv_append [of ?c player] queue_inv_insert [of ?c player]
        by (simp add: login_def Let_def first_ordinary_takeWhile insert_at_premium)
    next
      case (Some i)
      then have "i < length ?c" using Pair waitlist_find_Some [of player ?c i slot] by simp
      then show ?thesis
        using assms c Pair Some queue_inv_update [of ?c i] queue_inv_remove [of ?c i]
        by (simp add: login_def Let_def)
    qed
  qed
qed

text \<open>The queue over time: log-in attempts of any players, with any number of players online.\<close>

inductive queue_reachable :: "int \<Rightarrow> wait list \<Rightarrow> bool" where
  empty: "queue_reachable now []"
| attempt: "queue_reachable now ws \<Longrightarrow> now \<le> now' \<Longrightarrow>
    queue_reachable now' (snd (login online maximum now' player ws))"

lemma queue_reachable_inv: "queue_reachable now ws \<Longrightarrow> queue_inv ws"
  by (induction rule: queue_reachable.induct)
    (simp_all add: login_inv, simp add: queue_inv_def premium_first_def)

text \<open>
  C34: the queue keeps its order. Whatever players try to log in and whenever, the premium players
  stand before the others and nobody stands in it twice, names compared without case and together
  with the address; and the slot a waiting player is told is his place from 1.
\<close>

theorem waiting_list_order:
  assumes "queue_reachable now ws"
  shows "(\<exists>k. list_all w_premium (take k ws) \<and> list_all (\<lambda>w. \<not> w_premium w) (drop k ws)) \<and> distinct (map who ws)
    \<and> (waitlist_getSlot player ws = - 1 \<and> list_all (\<lambda>w. \<not> waits_for player w) ws
       \<or> (\<exists>i. i < length ws \<and> waitlist_getSlot player ws = int i + 1 \<and> waits_for player (ws ! i)))"
proof (intro conjI)
  have inv: "queue_inv ws" using queue_reachable_inv [OF assms] .
  then show "distinct (map who ws)" by (simp add: queue_inv_def)
  have "takeWhile w_premium ws = take (length (takeWhile w_premium ws)) ws"
      "dropWhile w_premium ws = drop (length (takeWhile w_premium ws)) ws"
    by (rule takeWhile_eq_take, rule dropWhile_eq_drop)
  moreover have "list_all (\<lambda>w. \<not> w_premium w) (dropWhile w_premium ws)"
    using inv premium_first_split unfolding queue_inv_def list_all_iff by blast
  moreover have "list_all w_premium (takeWhile w_premium ws)" by (auto simp: list_all_iff dest: set_takeWhileD)
  ultimately show "\<exists>k. list_all w_premium (take k ws) \<and> list_all (\<lambda>w. \<not> w_premium w) (drop k ws)"
    by metis
  obtain r slot where f: "waitlist_find player ws = (r, slot)" by fastforce
  then show "waitlist_getSlot player ws = - 1 \<and> list_all (\<lambda>w. \<not> waits_for player w) ws
      \<or> (\<exists>i. i < length ws \<and> waitlist_getSlot player ws = int i + 1 \<and> waits_for player (ws ! i))"
    using waitlist_find_None [of player ws] waitlist_find_Some [of player ws _ slot]
    by (cases r) (auto simp: waitlist_getSlot_def list_all_iff)
qed

definition tester :: "bool \<Rightarrow> string \<Rightarrow> login_player" where
  "tester premium name = \<lparr>lp_ip = 1, lp_name = name, lp_canAlwaysLogin = False, lp_accountManager = False, lp_premium = premium\<rparr>"

lemma waiting_list_order_witness:
  "distinct (map who (snd (login 5 5 0 (tester True ''b'') (snd (login 5 5 0 (tester False ''a'') [])))))"
proof -
  have "queue_reachable 0 (snd (login 5 5 0 (tester True ''b'') (snd (login 5 5 0 (tester False ''a'') []))))"
    by (rule queue_reachable.attempt [OF queue_reachable.attempt [OF queue_reachable.empty [of 0]]]) simp_all
  then show ?thesis using waiting_list_order by blast
qed

text \<open>
  C35: who gets in. A player without privileges is let in only while there is room. Waiting, he is let
  in exactly when the free places reach his slot, counted after those who came too late were
  dropped; if refused he keeps his place, with a new deadline that leaves him 15 seconds more than
  the time he is told to wait; a newcomer is refused whenever anybody was waiting, even if all of
  them came too late and there is room.
\<close>

theorem waiting_list_admission:
  assumes "\<not> lp_canAlwaysLogin player" "\<not> lp_accountManager player" "ws \<noteq> []"
  shows "case waitlist_find player (cleanup now ws) of
      (Some i, slot) \<Rightarrow> slot = i + 1 \<and>
        (if online + slot \<le> maximum
         then login online maximum now player ws
           = (True, take i (cleanup now ws) @ drop (i + 1) (cleanup now ws)) \<and> online < maximum
         else \<exists>ws'. login online maximum now player ws = (False, ws') \<and> map who ws' = map who (cleanup now ws)
           \<and> w_timeout (ws' ! i) = now + (getTime (int slot) + 15) * 1000)
    | (None, _) \<Rightarrow> \<not> fst (login online maximum now player ws)"
proof -
  obtain r slot where f: "waitlist_find player (cleanup now ws) = (r, slot)" by fastforce
  show ?thesis
  proof (cases r)
    case None
    then show ?thesis using f assms by (auto simp: login_def Let_def split: prod.splits)
  next
    case (Some i)
    then have i: "slot = Suc i" "i < length (cleanup now ws)"
      using f waitlist_find_Some [of player "cleanup now ws" i slot] by simp_all
    then have "map who ((cleanup now ws)[i := (cleanup now ws ! i)\<lparr>w_timeout := e\<rparr>]) = map who (cleanup now ws)" for e
      by (simp add: map_update who_def list_update_same_conv)
    then show ?thesis using f Some i assms
      by (simp add: login_def Let_def getTimeout_def)
  qed
qed

lemma waiting_list_admission_witness:
  "\<not> fst (login 0 5 99 (tester False ''a'')
      [\<lparr>w_ip = 2, w_name = ''z'', w_premium = False, w_timeout = 0\<rparr>])"
  using waiting_list_admission [where player = "tester False ''a''" and now = 99 and online = 0 and maximum = 5
      and ws = "[\<lparr>w_ip = 2, w_name = ''z'', w_premium = False, w_timeout = 0\<rparr>]"]
  by (simp add: waitlist_find_def) (simp add: tester_def)

end
