(* ===== verification/Rsa.thy ===== *)
theory Rsa
  imports Prelude
begin

text \<open>
  \<^verbatim>\<open>RSA\<close> (\<^verbatim>\<open>src/sources/rsa.h\<close>, \<^verbatim>\<open>rsa.cpp\<close>): the decryption of a client's first packet with the
  Chinese remainder theorem.  The integers of GMP are \<^typ>\<open>int\<close>, their arithmetic is exact; the
  modular inverse that \<^verbatim>\<open>mpz_invert\<close> computes is the parameter \<open>invert\<close>.
\<close>

section \<open>The key\<close>

record rsa_key =
  r_p :: int
  r_q :: int
  r_d :: int
  r_u :: int
  r_dp :: int
  r_dq :: int
  r_mod :: int

definition rsa_setKey :: "(int \<Rightarrow> int \<Rightarrow> int) \<Rightarrow> int \<Rightarrow> int \<Rightarrow> int \<Rightarrow> rsa_key" where
  "rsa_setKey invert p q d = \<lparr>r_p = p, r_q = q, r_d = d, r_u = invert p q, r_dp = d mod (p - 1),
     r_dq = d mod (q - 1), r_mod = p * q\<rparr>"

text \<open>
  The key file: three lines are read into arrays on the stack, and each array is deleted, which is
  undefined; a line that is not there gives a null pointer, whose deletion does nothing.
\<close>

definition rsa_setKey_file :: "(int \<Rightarrow> int \<Rightarrow> int) \<Rightarrow> (string \<Rightarrow> int) \<Rightarrow> string list option \<Rightarrow> (rsa_key option \<times> bool) run" where
  "rsa_setKey_file invert number file =
     (case file of None \<Rightarrow> Inr (None, False)
      | Some [] \<Rightarrow> Inr (Some (rsa_setKey invert 0 0 0), True)
      | Some (_ # _) \<Rightarrow> Inl Undefined_behaviour)"

section \<open>Decryption\<close>

definition powm :: "int \<Rightarrow> int \<Rightarrow> int \<Rightarrow> int" where
  "powm b e m = b ^ nat e mod m"

text \<open>\<^verbatim>\<open>mpz_sizeinbase(c, 2)\<close>: the number of bits, and 1 for zero.\<close>

fun bit_count :: "nat \<Rightarrow> nat" where
  "bit_count n = (if n < 2 then 1 else 1 + bit_count (n div 2))"

declare bit_count.simps [simp del]

definition byte_count :: "nat \<Rightarrow> nat" where
  "byte_count n = (bit_count n + 7) div 8"

text \<open>\<^verbatim>\<open>mpz_import\<close> and \<^verbatim>\<open>mpz_export\<close> with the most significant byte first; zero has no bytes.\<close>

definition be_import :: "bytes \<Rightarrow> nat" where
  "be_import bs = le_decode (rev bs)"

definition be_export :: "nat \<Rightarrow> bytes" where
  "be_export n = (if n = 0 then [] else rev (le_encode (byte_count n) n))"

definition crt :: "rsa_key \<Rightarrow> int \<Rightarrow> int" where
  "crt k c =
     (let v1 = powm (c mod r_p k) (r_dp k) (r_p k);
          v2 = powm (c mod r_q k) (r_dq k) (r_q k);
          u2 = ((v2 - v1) * r_u k) mod r_q k;
          u2 = (if u2 < 0 then u2 + r_q k else u2)
      in v1 + u2 * r_p k)"

definition place :: "nat \<Rightarrow> bytes \<Rightarrow> bytes run" where
  "place n buffer =
     (let count = byte_count n in
      if count > 128 \<or> length buffer < 128 then Inl Undefined_behaviour
      else Inr (replicate (128 - count) 0 @ be_export n @ drop (128 - count + length (be_export n)) buffer))"

definition rsa_decrypt :: "rsa_key \<Rightarrow> bytes \<Rightarrow> bytes run" where
  "rsa_decrypt k msg =
     (if length msg < 128 then Inl Undefined_behaviour
      else place (nat (crt k (int (be_import (take 128 msg))))) msg)"

definition getKeySize :: "rsa_key \<Rightarrow> int" where
  "getKeySize k = int (byte_count (nat (r_mod k)))"

definition getPublicKey :: "rsa_key \<Rightarrow> bytes \<Rightarrow> bytes run" where
  "getPublicKey k buffer = place (nat (r_mod k)) buffer"

section \<open>Fermat's little theorem\<close>

definition is_prime :: "nat \<Rightarrow> bool" where
  "is_prime p \<longleftrightarrow> 1 < p \<and> (\<forall>d. d dvd p \<longrightarrow> d = 1 \<or> d = p)"

lemma prime_coprime: "is_prime p \<Longrightarrow> \<not> p dvd a \<Longrightarrow> coprime a p"
  unfolding is_prime_def by (metis coprime_iff_gcd_eq_1 gcd_dvd1 gcd_dvd2)

lemma times_mod_inj:
  fixes p :: nat
  assumes "coprime a p" "x < p" "y < p" "a * x mod p = a * y mod p"
  shows "x = y"
  using assms
proof (induction x y rule: linorder_wlog)
  case (le x y)
  then have "p dvd a * y - a * x" using mod_eq_dvd_iff_nat [of "a * x" "a * y" p] by simp
  then have "p dvd a * (y - x)" by (simp add: diff_mult_distrib2)
  then have "p dvd y - x" using le(2) by (simp add: coprime_commute coprime_dvd_mult_right_iff)
  moreover have "y - x < p" using le(4) by linarith
  ultimately have "y - x = 0" using nat_dvd_not_less by blast
  then show ?case using le(1) by linarith
next
  case (sym a b)
  then show ?case by metis
qed

theorem fermat:
  assumes "is_prime p" "\<not> p dvd a"
  shows "a ^ (p - 1) mod p = 1"
proof -
  let ?S = "{1..<p}" and ?f = "\<lambda>x. a * x mod p"
  have p: "1 < p" using assms(1) by (simp add: is_prime_def)
  have c: "coprime a p" using prime_coprime [OF assms] .
  have inj: "inj_on ?f ?S"
  proof (rule inj_onI)
    fix x y assume "x \<in> ?S" "y \<in> ?S" "a * x mod p = a * y mod p"
    then show "x = y" using times_mod_inj [OF c, of x y] by (simp only: atLeastLessThan_iff)
  qed
  have "?f ` ?S \<subseteq> ?S"
  proof
    fix y assume "y \<in> ?f ` ?S"
    then obtain x where x: "x \<in> ?S" "y = a * x mod p" by blast
    have "\<not> p dvd a * x" using x(1) c by (auto simp: coprime_commute coprime_dvd_mult_right_iff dest: dvd_imp_le)
    then have "a * x mod p \<noteq> 0" by (simp add: mod_eq_0_iff_dvd)
    moreover have "a * x mod p < p" using p by simp
    ultimately show "y \<in> ?S" by (simp add: x(2) Suc_le_eq)
  qed
  then have img: "?f ` ?S = ?S" using inj by (simp add: endo_inj_surj)
  have "prod (\<lambda>x. x) ?S = prod ?f ?S" using prod.reindex [OF inj, of "\<lambda>x. x"] img by simp
  also have "\<dots> mod p = (\<Prod>x \<in> ?S. a * x) mod p" by (rule mod_prod_eq)
  also have "(\<Prod>x \<in> ?S. a * x) = a ^ (p - 1) * prod (\<lambda>x. x) ?S" by (simp add: prod.distrib)
  finally have e: "prod (\<lambda>x. x) ?S mod p = a ^ (p - 1) * prod (\<lambda>x. x) ?S mod p" by simp
  have "coprime (prod (\<lambda>x. x) ?S) p"
  proof (rule prod_coprime_left)
    fix x assume "x \<in> ?S"
    then have "\<not> p dvd x" by (auto dest: dvd_imp_le)
    then show "coprime x p" by (rule prime_coprime [OF assms(1)])
  qed
  moreover have "prod (\<lambda>x. x) ?S * 1 mod p = prod (\<lambda>x. x) ?S * (a ^ (p - 1) mod p) mod p"
    using e by (simp add: mult.commute mod_mult_right_eq)
  moreover have "a ^ (p - 1) mod p < p" using p by simp
  ultimately show ?thesis using times_mod_inj [OF _ p, of "prod (\<lambda>x. x) ?S" "a ^ (p - 1) mod p"] by metis
qed

lemma power_reduced:
  assumes "is_prime p" "0 < d" "0 < d mod (p - 1)"
  shows "(c mod p) ^ (d mod (p - 1)) mod p = c ^ d mod p"
proof (cases "p dvd c")
  case True
  then have "c mod p = 0" "p dvd c ^ d" using assms(2) by (simp_all add: dvd_power_le dvd_trans [OF _ dvd_power])
  then show ?thesis using assms(3) by (simp add: power_0_left)
next
  case False
  let ?k = "d div (p - 1)" and ?r = "d mod (p - 1)"
  have "c ^ d = (c ^ (p - 1)) ^ ?k * c ^ ?r"
    by (metis mult_div_mod_eq power_add power_mult)
  then have "c ^ d mod p = ((c ^ (p - 1)) ^ ?k mod p) * (c ^ ?r mod p) mod p"
    by (simp only: mod_mult_eq)
  also have "(c ^ (p - 1)) ^ ?k mod p = (c ^ (p - 1) mod p) ^ ?k mod p" by (simp only: power_mod)
  also have "\<dots> = 1" using fermat [OF assms(1) False] assms(1) by (simp only: power_one is_prime_def mod_less)
  finally show ?thesis by (simp only: power_mod mult_1 mod_mod_trivial)
qed

section \<open>Decryption is a power\<close>

text \<open>Garner's combination of two residues.\<close>

lemma garner:
  fixes p q u a b :: int
  assumes "0 < p" "0 < q" "(p * u) mod q = 1 mod q" "0 \<le> a" "a < p"
  shows "0 \<le> a + (b - a) * u mod q * p" "a + (b - a) * u mod q * p < p * q"
    "(a + (b - a) * u mod q * p) mod p = a" "(a + (b - a) * u mod q * p) mod q = b mod q"
proof -
  let ?h = "(b - a) * u mod q"
  have h: "0 \<le> ?h" "?h < q" using assms(2) by simp_all
  then show "0 \<le> a + ?h * p" using assms(1,4) by simp
  have "?h * p \<le> (q - 1) * p" using h(2) assms(1) by (intro mult_right_mono) simp_all
  then show "a + ?h * p < p * q" using assms(5) by (simp add: algebra_simps)
  show "(a + ?h * p) mod p = a" using assms(4,5) by simp
  have "(a + ?h * p) mod q = (a + ?h * p mod q) mod q" by (simp only: mod_add_right_eq)
  also have "?h * p mod q = (b - a) * u * p mod q" by (simp only: mod_mult_left_eq)
  also have "(b - a) * u * p = (b - a) * (p * u)" by (simp only: ac_simps)
  also have "(b - a) * (p * u) mod q = (b - a) * (p * u mod q) mod q" by (simp only: mod_mult_right_eq)
  also have "\<dots> = (b - a) mod q" unfolding assms(3) by (simp only: mod_mult_right_eq mult_1_right)
  also have "(a + (b - a) mod q) mod q = (a + (b - a)) mod q" by (simp only: mod_add_right_eq)
  finally show "(a + ?h * p) mod q = b mod q" by simp
qed

lemma crt_unique:
  fixes p q x y :: int
  assumes "coprime p q" "0 \<le> x" "x < p * q" "0 \<le> y" "y < p * q" "x mod p = y mod p" "x mod q = y mod q"
  shows "x = y"
proof -
  have "p dvd x - y" "q dvd x - y" using assms(6,7) by (simp_all add: mod_eq_dvd_iff)
  then have "p * q dvd x - y" using assms(1) by (simp add: divides_mult)
  then have "x mod (p * q) = y mod (p * q)" by (simp add: mod_eq_dvd_iff)
  then show ?thesis using assms(2-5) by simp
qed

lemma crt_is_power:
  assumes p: "is_prime p" and q: "is_prime q" and "p \<noteq> q"
    and "0 < d mod (p - 1)" "0 < d mod (q - 1)" "(int p * u) mod int q = 1"
  shows "crt \<lparr>r_p = int p, r_q = int q, r_d = int d, r_u = u, r_dp = int d mod (int p - 1),
      r_dq = int d mod (int q - 1), r_mod = int p * int q\<rparr> (int c) = int (c ^ d mod (p * q))" (is "crt ?k _ = _")
proof -
  have p1: "1 < p" and q1: "1 < q" using p q by (simp_all add: is_prime_def)
  have d: "0 < d" using assms(4) by (cases d) simp_all
  have e: "int d mod (int p - 1) = int (d mod (p - 1))" "int d mod (int q - 1) = int (d mod (q - 1))"
    using p1 q1 by (simp_all add: zmod_int of_nat_diff)
  let ?a = "int (c ^ d mod p)" and ?b = "int (c ^ d mod q)"
  have a: "powm (int c mod int p) (r_dp ?k) (int p) = ?a"
    using power_reduced [OF p d assms(4), of c] unfolding powm_def
    by (simp add: e flip: zmod_int of_nat_power)
  have b: "powm (int c mod int q) (r_dq ?k) (int q) = ?b"
    using power_reduced [OF q d assms(5), of c] unfolding powm_def
    by (simp add: e flip: zmod_int of_nat_power)
  have "\<not> (?b - ?a) * u mod int q < 0" using q1 by (simp add: not_less)
  then have r: "crt ?k (int c) = ?a + (?b - ?a) * u mod int q * int p"
    unfolding crt_def using a b by (simp add: Let_def)
  have ap: "0 \<le> ?a" "?a < int p" using p1 by simp_all
  have u: "(int p * u) mod int q = 1 mod int q" using assms(6) q1 by simp
  note g = garner [of "int p" "int q" u ?a ?b, OF _ _ u ap]
  have cop: "coprime (int p) (int q)"
  proof -
    have "\<not> q dvd p" using p q assms(3) by (auto simp: is_prime_def)
    then show ?thesis using prime_coprime [OF q] by (simp add: coprime_int_iff)
  qed
  have "?a + (?b - ?a) * u mod int q * int p = int (c ^ d mod (p * q))"
  proof (rule crt_unique [OF cop])
    show "0 \<le> ?a + (?b - ?a) * u mod int q * int p" "?a + (?b - ?a) * u mod int q * int p < int p * int q"
      using g(1,2) p1 q1 by simp_all
    show "0 \<le> int (c ^ d mod (p * q))" by simp
    show "int (c ^ d mod (p * q)) < int p * int q" using p1 q1 by (simp flip: of_nat_mult)
    have "(?a + (?b - ?a) * u mod int q * int p) mod int p = int (c ^ d mod p)" using g(3) p1 q1 by simp
    also have "\<dots> = int (c ^ d mod (p * q)) mod int p"
      by (simp add: mod_mod_cancel flip: zmod_int)
    finally show "(?a + (?b - ?a) * u mod int q * int p) mod int p = int (c ^ d mod (p * q)) mod int p" .
    have "(?a + (?b - ?a) * u mod int q * int p) mod int q = int (c ^ d mod q) mod int q" using g(4) p1 q1 by simp
    also have "\<dots> = int (c ^ d mod (p * q)) mod int q"
      by (simp add: mod_mod_cancel flip: zmod_int)
    finally show "(?a + (?b - ?a) * u mod int q * int p) mod int q = int (c ^ d mod (p * q)) mod int q" .
  qed
  then show ?thesis using r by simp
qed

section \<open>The bytes of the result\<close>

lemma le_decode_append: "le_decode (xs @ ys) = le_decode xs + 256 ^ length xs * le_decode ys"
  by (induction xs) (simp_all add: algebra_simps)

lemma le_decode_zeros [simp]: "le_decode (replicate k 0) = 0"
  by (induction k) simp_all

lemma bit_count_bounds: "0 < bit_count n \<and> n < 2 ^ bit_count n \<and> (0 < n \<longrightarrow> 2 ^ (bit_count n - 1) \<le> n)"
proof (induction n rule: bit_count.induct)
  case (1 n)
  show ?case
  proof (cases "n < 2")
    case True
    then show ?thesis by (subst (1 2 3) bit_count.simps) auto
  next
    case False
    let ?b = "bit_count (n div 2)"
    have IH: "0 < ?b" "n div 2 < 2 ^ ?b" "2 ^ (?b - 1) \<le> n div 2" using 1 False by auto
    have "n < 2 * 2 ^ ?b" using IH(2) by linarith
    moreover have "2 * 2 ^ (?b - 1) \<le> n" using IH(3) by linarith
    moreover have "2 * 2 ^ (?b - 1) = (2 :: nat) ^ ?b" using IH(1) by (cases ?b) simp_all
    ultimately show ?thesis using False by (subst (1 2 3) bit_count.simps) simp
  qed
qed

lemma byte_count_enough: "n < 256 ^ byte_count n"
proof -
  have "bit_count n \<le> 8 * byte_count n" unfolding byte_count_def by linarith
  then have "(2 :: nat) ^ bit_count n \<le> 2 ^ (8 * byte_count n)" by (rule power_increasing) simp
  also have "\<dots> = 256 ^ byte_count n" by (simp add: power_mult)
  finally show ?thesis using bit_count_bounds [of n] by linarith
qed

lemma byte_count_128:
  assumes "n < 2 ^ 1024"
  shows "byte_count n \<le> 128"
proof (cases "n = 0")
  case True
  then show ?thesis by (simp add: byte_count_def bit_count.simps)
next
  case False
  then have "(2 :: nat) ^ (bit_count n - 1) < 2 ^ 1024" using bit_count_bounds [of n] assms by linarith
  then have "bit_count n - 1 < 1024" by (simp only: power_strict_increasing_iff one_less_numeral_iff semiring_norm)
  then show ?thesis unfolding byte_count_def by linarith
qed

lemma place_result:
  assumes "n < 2 ^ 1024" "length msg = 128"
  shows "\<exists>out. place n msg = Inr out \<and> length out = 128 \<and>
    (if n = 0 then out = replicate 127 0 @ [last msg] else be_import out = n)"
proof (cases "n = 0")
  case True
  have "byte_count 0 = 1" by (simp add: byte_count_def bit_count.simps)
  moreover have "drop 127 msg = [last msg]"
    using assms(2) by (simp add: last_drop [symmetric, of 127] list_eq_iff_nth_eq last_conv_nth)
  ultimately show ?thesis using True assms(2) by (simp add: place_def Let_def be_export_def)
next
  case False
  let ?c = "byte_count n" and ?e = "rev (le_encode (byte_count n) n)"
  have c: "?c \<le> 128" using byte_count_128 [OF assms(1)] .
  have "place n msg = Inr (replicate (128 - ?c) 0 @ ?e)"
    using False c assms(2) by (simp add: place_def Let_def be_export_def)
  moreover have "be_import (replicate (128 - ?c) 0 @ ?e) = n"
    using byte_count_enough [of n] by (simp add: be_import_def le_decode_append)
  ultimately show ?thesis using False c by simp
qed

text \<open>
  C32: the decryption with the Chinese remainder theorem is the power it stands for: for any two
  different primes, any private exponent that is not a multiple of either order and any packet,
  the number in the 128 bytes becomes its power modulo the product, most significant byte first,
  padded with zeros. The one exception is the result zero, which GMP exports as no bytes at all:
  the last byte of the packet is then left as the client sent it.
\<close>

theorem rsa_decrypt_is_power:
  assumes "is_prime p" "is_prime q" "p \<noteq> q" "p * q < 2 ^ 1024"
    and "0 < d mod (p - 1)" "0 < d mod (q - 1)" "(int p * invert (int p) (int q)) mod int q = 1"
    and "length msg = 128"
  shows "\<exists>out. rsa_decrypt (rsa_setKey invert (int p) (int q) (int d)) msg = Inr out \<and> length out = 128 \<and>
    (let n = be_import msg ^ d mod (p * q)
     in if n = 0 then out = replicate 127 0 @ [last msg] else be_import out = n)"
proof -
  let ?n = "be_import msg ^ d mod (p * q)"
  have "crt (rsa_setKey invert (int p) (int q) (int d)) (int (be_import msg)) = int ?n"
    using crt_is_power [OF assms(1-3,5-7), of "be_import msg"] by (simp add: rsa_setKey_def)
  then have "rsa_decrypt (rsa_setKey invert (int p) (int q) (int d)) msg = place ?n msg"
    using assms(8) by (simp add: rsa_decrypt_def)
  moreover have "0 < p * q" using assms(1,2) by (simp add: is_prime_def)
  then have "?n < 2 ^ 1024" using assms(4) by (meson mod_less_divisor less_trans)
  ultimately show ?thesis using place_result [OF _ assms(8), of ?n] by (simp add: Let_def)
qed

lemma small_primes: "is_prime 5" "is_prime 7"
proof -
  have "d = 1 \<or> d = 5" if "d dvd 5" for d :: nat
  proof -
    have "d \<le> 5" using that by (rule dvd_imp_le) simp
    then consider "d = 0" | "d = 1" | "d = 2" | "d = 3" | "d = 4" | "d = 5" by linarith
    then show ?thesis using that by cases simp_all
  qed
  then show "is_prime 5" by (simp add: is_prime_def)
  have "d = 1 \<or> d = 7" if "d dvd 7" for d :: nat
  proof -
    have "d \<le> 7" using that by (rule dvd_imp_le) simp
    then consider "d = 0" | "d = 1" | "d = 2" | "d = 3" | "d = 4" | "d = 5" | "d = 6" | "d = 7" by linarith
    then show ?thesis using that by cases simp_all
  qed
  then show "is_prime 7" by (simp add: is_prime_def)
qed

lemma import_one_byte: "be_import (replicate 127 0 @ [b]) = unat b"
  by (simp add: be_import_def)

lemma rsa_decrypt_is_power_witness:
  "\<exists>out. rsa_decrypt (rsa_setKey (\<lambda>_ _. 3) 5 7 5) (replicate 127 0 @ [32]) = Inr out \<and> be_import out = 2"
  using rsa_decrypt_is_power [where p = 5 and q = 7 and d = 5 and invert = "\<lambda>_ _. 3"
      and msg = "replicate 127 0 @ [32]"] small_primes
  by (auto simp: import_one_byte Let_def)

lemma power_returns:
  assumes "is_prime p" "e * d mod (p - 1) = 1"
  shows "(m ^ e) ^ d mod p = m mod p"
proof -
  have "0 < e * d" using assms(2) by (cases "e * d") simp_all
  then have "(m mod p) ^ (e * d mod (p - 1)) mod p = m ^ (e * d) mod p"
    using power_reduced [OF assms(1), of "e * d" m] assms(2) by simp
  then show ?thesis using assms(2) by (simp add: power_mult)
qed

text \<open>
  C33: what a client encrypts with the public exponent of the key, the server decrypts: for exponents
  that are inverse to each other modulo both orders, every nonzero number below the modulus comes
  back.
\<close>

theorem rsa_inverts_public_key:
  assumes "is_prime p" "is_prime q" "p \<noteq> q" "p * q < 2 ^ 1024"
    and "e * d mod (p - 1) = 1" "e * d mod (q - 1) = 1" "(int p * invert (int p) (int q)) mod int q = 1"
    and "length msg = 128" "be_import msg = m ^ e mod (p * q)" "0 < m" "m < p * q"
  shows "\<exists>out. rsa_decrypt (rsa_setKey invert (int p) (int q) (int d)) msg = Inr out \<and> be_import out = m"
proof -
  have d: "0 < d mod (p - 1)" "0 < d mod (q - 1)"
    using assms(5,6) by (metis mod_mult_right_eq mult_0_right mod_0 gr0I zero_neq_one)+
  have pq: "0 < p * q" "1 < p" "1 < q" using assms(1,2) by (simp_all add: is_prime_def)
  let ?x = "(m ^ e) ^ d mod (p * q)"
  have cop: "coprime (int p) (int q)"
  proof -
    have "\<not> q dvd p" using assms(1-3) by (auto simp: is_prime_def)
    then show ?thesis using prime_coprime [OF assms(2)] by (simp add: coprime_int_iff)
  qed
  have "?x mod p = m mod p" "?x mod q = m mod q"
    using power_returns [OF assms(1,5), of m] power_returns [OF assms(2,6), of m] by (simp_all only: mod_mod_cancel dvd_triv_left dvd_triv_right)
  then have r: "int ?x mod int p = int m mod int p" "int ?x mod int q = int m mod int q"
    by (simp_all only: flip: zmod_int)
  have "int ?x < int p * int q" "int m < int p * int q"
    using pq(1) assms(11) by (simp_all only: mod_less_divisor of_nat_less_iff flip: of_nat_mult)
  then have "int ?x = int m" using crt_unique [OF cop of_nat_0_le_iff _ of_nat_0_le_iff _ r] by blast
  then have "be_import msg ^ d mod (p * q) = m" unfolding assms(9) by (simp only: power_mod of_nat_eq_iff)
  moreover have "\<exists>out. rsa_decrypt (rsa_setKey invert (int p) (int q) (int d)) msg = Inr out \<and> length out = 128 \<and>
    (let n = be_import msg ^ d mod (p * q) in if n = 0 then out = replicate 127 0 @ [last msg] else be_import out = n)"
  proof -
    obtain n where n: "place (be_import msg ^ d mod (p * q)) msg = Inr n" "length n = 128"
        "if be_import msg ^ d mod (p * q) = 0 then n = replicate 127 0 @ [last msg]
         else be_import n = be_import msg ^ d mod (p * q)"
      using place_result [OF _ assms(8), of m] assms(4,11) calculation by auto
    have "crt (rsa_setKey invert (int p) (int q) (int d)) (int (be_import msg)) = int (be_import msg ^ d mod (p * q))"
      using crt_is_power [OF assms(1-3) d assms(7), of "be_import msg"] by (simp add: rsa_setKey_def)
    then show ?thesis using n assms(8) by (simp add: rsa_decrypt_def Let_def)
  qed
  ultimately show ?thesis using assms(10) by (auto simp: Let_def)
qed

lemma rsa_inverts_public_key_witness:
  "\<exists>out. rsa_decrypt (rsa_setKey (\<lambda>_ _. 3) 5 7 5) (replicate 127 0 @ [32]) = Inr out \<and> be_import out = 2"
  using rsa_inverts_public_key [where p = 5 and q = 7 and d = 5 and e = 5 and invert = "\<lambda>_ _. 3"
      and msg = "replicate 127 0 @ [32]" and m = 2] small_primes
  by (simp add: import_one_byte)

end
