(* ===== verification/Map_Layers.thy ===== *)
theory Map_Layers
  imports Positions
begin

text \<open>
  \<^verbatim>\<open>MapLayer\<close> (\<^verbatim>\<open>src/sources/map.h\<close>, \<^verbatim>\<open>map.cpp\<close>): one floor of the map, an array of tile pointers that
  covers the whole floor while the map is loaded and is cut down to the loaded rectangle by
  \<^verbatim>\<open>complete\<close>.  A tile pointer is an option; the array pointer is \<open>None\<close> while it is null.  The
  lemmas show that a layer is a partial map from coordinates to tiles that \<^verbatim>\<open>complete\<close> does not
  change, and that no access leaves the array.
\<close>

record 'tile map_layer =
  l_completed :: bool
  l_endX :: u32
  l_endY :: u32
  l_maxLoadedX :: u32
  l_maxLoadedY :: u32
  l_minLoadedX :: u32
  l_minLoadedY :: u32
  l_startX :: u32
  l_startY :: u32
  l_z :: u32
  l_tiles :: "'tile option list option"

section \<open>Operations\<close>

definition layer_new :: "u8 \<Rightarrow> 'tile map_layer" where
  "layer_new z = \<lparr>l_completed = False, l_endX = 0, l_endY = 0, l_maxLoadedX = 0, l_maxLoadedY = 0,
     l_minLoadedX = 65535, l_minLoadedY = 65535, l_startX = 0, l_startY = 0, l_z = ucast z,
     l_tiles = None\<rparr>"

text \<open>Clearing deletes the tiles, whose memory is not modelled.\<close>

definition layer_clear :: "'tile map_layer \<Rightarrow> 'tile map_layer" where
  "layer_clear l = l\<lparr>l_tiles := None, l_startX := 0, l_endX := 0, l_startY := 0, l_endY := 0,
     l_maxLoadedX := 0, l_maxLoadedY := 0, l_minLoadedX := 65535, l_minLoadedY := 65535,
     l_completed := False\<rparr>"

definition indexForPosition :: "'tile map_layer \<Rightarrow> u16 \<Rightarrow> u16 \<Rightarrow> u32" where
  "indexForPosition l x y =
     (if ucast x < l_startX l \<or> ucast y < l_startY l \<or> ucast x \<ge> l_endX l \<or> ucast y \<ge> l_endY l
      then - 1
      else let indexX = ucast x - l_startX l;
               indexY = (l_endX l - l_startX l) * (ucast y - l_startY l)
        in indexX + indexY)"

definition layer_getTile :: "'tile map_layer \<Rightarrow> u16 \<Rightarrow> u16 \<Rightarrow> 'tile option run" where
  "layer_getTile l x y =
     (let index = indexForPosition l x y in
      if sint index < 0 then Inr None
      else case l_tiles l of
        None \<Rightarrow> Inl Undefined_behaviour
      | Some ts \<Rightarrow> if unat index < length ts then Inr (ts ! unat index) else Inl Undefined_behaviour)"

text \<open>The product of the sizes is taken as \<^verbatim>\<open>int\<close>, whose overflow is undefined.\<close>

definition prepareWithSize :: "'tile map_layer \<Rightarrow> u16 \<Rightarrow> u16 \<Rightarrow> 'tile map_layer run" where
  "prepareWithSize l width height =
     (if uint width * uint height \<ge> 2 ^ 31 then Inl Undefined_behaviour
      else Inr ((layer_clear l)\<lparr>l_endX := ucast width, l_endY := ucast height,
        l_tiles := Some (replicate (unat width * unat height) None)\<rparr>))"

definition layer_setTile :: "'tile map_layer \<Rightarrow> u16 \<Rightarrow> u16 \<Rightarrow> 'tile option \<Rightarrow> (bool \<times> 'tile map_layer) run" where
  "layer_setTile l x y tile =
     (let index = indexForPosition l x y in
      if sint index < 0 then Inr (False, l)
      else
        let l = (if l_completed l then l
          else let l = (if ucast x < l_minLoadedX l then l\<lparr>l_minLoadedX := ucast x\<rparr> else l);
                   l = (if ucast x > l_maxLoadedX l then l\<lparr>l_maxLoadedX := ucast x\<rparr> else l);
                   l = (if ucast y < l_minLoadedY l then l\<lparr>l_minLoadedY := ucast y\<rparr> else l)
            in (if ucast y > l_maxLoadedY l then l\<lparr>l_maxLoadedY := ucast y\<rparr> else l))
        in case l_tiles l of
          None \<Rightarrow> Inl Undefined_behaviour
        | Some ts \<Rightarrow>
            if unat index < length ts then Inr (True, l\<lparr>l_tiles := Some (ts[unat index := tile])\<rparr>)
            else Inl Undefined_behaviour)"

text \<open>
  One row of \<^verbatim>\<open>complete\<close>: the \<^verbatim>\<open>memcpy\<close> of \<open>optimizedWidth\<close> pointers, undefined when it reads past
  the array.  The rows follow each other in the new array without a gap.
\<close>

definition copy_row :: "'tile map_layer \<Rightarrow> 'tile option list \<Rightarrow> u32 \<Rightarrow> u32 \<Rightarrow> u32 \<Rightarrow> 'tile option list run" where
  "copy_row l ts width optimizedWidth y =
     (let startIndex = width * (y - l_startY l) + l_minLoadedX l in
      if unat startIndex + unat optimizedWidth \<le> length ts
      then Inr (take (unat optimizedWidth) (drop (unat startIndex) ts))
      else Inl Undefined_behaviour)"

fun copy_rows :: "'tile map_layer \<Rightarrow> 'tile option list \<Rightarrow> u32 \<Rightarrow> u32 \<Rightarrow> nat list \<Rightarrow> 'tile option list run" where
  "copy_rows l ts width optimizedWidth [] = Inr []"
| "copy_rows l ts width optimizedWidth (y # ys) =
     bind_run (copy_row l ts width optimizedWidth (word_of_nat y)) (\<lambda>row.
       bind_run (copy_rows l ts width optimizedWidth ys) (\<lambda>rows. Inr (row @ rows)))"

definition layer_complete :: "'tile map_layer \<Rightarrow> 'tile map_layer run" where
  "layer_complete l =
     require (\<not> l_completed l)
       (case l_tiles l of
          None \<Rightarrow> Inr ((layer_clear l)\<lparr>l_completed := True\<rparr>)
        | Some ts \<Rightarrow>
            if l_minLoadedX l > l_maxLoadedX l \<or> l_minLoadedY l > l_maxLoadedY l
            then Inr ((layer_clear l)\<lparr>l_completed := True\<rparr>)
            else
              let l = l\<lparr>l_completed := True\<rparr>; width = l_endX l - l_startX l in
              if l_minLoadedX l = l_startX l \<and> l_minLoadedY l = l_startY l
                 \<and> l_maxLoadedX l = l_endX l - 1 \<and> l_maxLoadedY l = l_endY l - 1
              then Inr l
              else
                let optimizedWidth = l_maxLoadedX l - l_minLoadedX l + 1 in
                bind_run (copy_rows l ts width optimizedWidth
                    [unat (l_minLoadedY l)..<Suc (unat (l_maxLoadedY l))])
                  (\<lambda>rows. Inr (l\<lparr>l_startX := l_minLoadedX l, l_startY := l_minLoadedY l,
                     l_endX := l_maxLoadedX l + 1, l_endY := l_maxLoadedY l + 1,
                     l_tiles := Some rows\<rparr>)))"

section \<open>The array behind a layer\<close>

text \<open>
  The rectangle a layer covers, in natural numbers, and the index of a coordinate in it.
\<close>

definition covers :: "'tile map_layer \<Rightarrow> u16 \<Rightarrow> u16 \<Rightarrow> bool" where
  "covers l x y \<longleftrightarrow> unat (l_startX l) \<le> unat x \<and> unat x < unat (l_endX l)
     \<and> unat (l_startY l) \<le> unat y \<and> unat y < unat (l_endY l)"

definition layer_width :: "'tile map_layer \<Rightarrow> nat" where
  "layer_width l = unat (l_endX l) - unat (l_startX l)"

definition layer_height :: "'tile map_layer \<Rightarrow> nat" where
  "layer_height l = unat (l_endY l) - unat (l_startY l)"

definition layer_index :: "'tile map_layer \<Rightarrow> u16 \<Rightarrow> u16 \<Rightarrow> nat" where
  "layer_index l x y = unat x - unat (l_startX l) + layer_width l * (unat y - unat (l_startY l))"

text \<open>What a layer stores: the abstraction function.\<close>

definition tile_map :: "'tile map_layer \<Rightarrow> u16 \<times> u16 \<Rightarrow> 'tile option" where
  "tile_map l = (\<lambda>(x, y). if covers l x y then the (l_tiles l) ! layer_index l x y else None)"

definition layer_ok :: "'tile map_layer \<Rightarrow> bool" where
  "layer_ok l \<longleftrightarrow>
     l_startX l \<le> l_endX l \<and> l_startY l \<le> l_endY l \<and> unat (l_endX l) \<le> 65536 \<and> unat (l_endY l) \<le> 65536
     \<and> layer_width l * layer_height l < 2 ^ 31
     \<and> (case l_tiles l of
          None \<Rightarrow> layer_width l = 0
        | Some ts \<Rightarrow> length ts = layer_width l * layer_height l)
     \<and> (\<not> l_completed l \<longrightarrow> l_startX l = 0 \<and> l_startY l = 0
          \<and> l_maxLoadedX l \<le> 65535 \<and> l_maxLoadedY l \<le> 65535
          \<and> (l_maxLoadedX l = 0 \<or> l_maxLoadedX l < l_endX l)
          \<and> (l_maxLoadedY l = 0 \<or> l_maxLoadedY l < l_endY l)
          \<and> (l_minLoadedX l \<le> l_maxLoadedX l \<longrightarrow> l_maxLoadedX l < l_endX l)
          \<and> (l_minLoadedY l \<le> l_maxLoadedY l \<longrightarrow> l_maxLoadedY l < l_endY l)
          \<and> (\<forall>x y. tile_map l (x, y) \<noteq> None \<longrightarrow>
               l_minLoadedX l \<le> ucast x \<and> ucast x \<le> l_maxLoadedX l
               \<and> l_minLoadedY l \<le> ucast y \<and> ucast y \<le> l_maxLoadedY l))"

lemma uint_less_if_unat: "unat w < k \<Longrightarrow> uint w < int k"
  by (metis of_nat_less_iff of_nat_unat)

lemma index_lt:
  assumes "a < (w :: nat)" "b < h"
  shows "a + w * b < w * h"
proof -
  have "a + w * b < w * Suc b" using assms by simp
  also have "\<dots> \<le> w * h" using assms by (intro mult_le_mono2) simp
  finally show ?thesis .
qed

lemma layer_index_lt: "covers l x y \<Longrightarrow> layer_index l x y < layer_width l * layer_height l"
  unfolding layer_index_def by (rule index_lt) (auto simp: covers_def layer_width_def layer_height_def)

lemma sint_nonneg_32:
  assumes "unat (w :: u32) < 2 ^ 31"
  shows "sint w = int (unat w)"
proof -
  have "uint w < 2 ^ 31" using uint_less_if_unat [OF assms] by simp
  moreover have "- (2 ^ 31) \<le> uint w" by (rule order_trans [OF _ unsigned_greater_eq]) simp
  ultimately have "sint w = uint w" unfolding sint_uint by (intro signed_take_bit_int_eq_self) simp_all
  then show ?thesis by simp
qed

lemma indexForPosition_out: "\<not> covers l x y \<Longrightarrow> indexForPosition l x y = - 1"
  by (auto simp: indexForPosition_def covers_def word_less_nat_alt word_le_nat_alt not_le not_less)

lemma indexForPosition_in:
  assumes ok: "layer_ok l" and cov: "covers l x y"
  shows "unat (indexForPosition l x y) = layer_index l x y" "0 \<le> sint (indexForPosition l x y)"
proof -
  let ?ix = "ucast x - l_startX l" and ?w = "l_endX l - l_startX l" and ?iy = "ucast y - l_startY l"
  have le: "l_startX l \<le> ucast x" "l_startY l \<le> ucast y" "l_startX l \<le> l_endX l"
    using cov ok by (auto simp: covers_def word_le_nat_alt layer_ok_def)
  have u: "unat ?ix = unat x - unat (l_startX l)" "unat ?w = layer_width l"
    "unat ?iy = unat y - unat (l_startY l)"
    using le by (simp_all add: unat_sub layer_width_def)
  have lt: "layer_index l x y < 2 ^ 31" using layer_index_lt [OF cov] ok by (simp add: layer_ok_def)
  have eq: "indexForPosition l x y = ?ix + ?w * ?iy"
    using cov by (auto simp: indexForPosition_def covers_def word_less_nat_alt word_le_nat_alt Let_def)
  have "unat (?w * ?iy) = unat ?w * unat ?iy"
    by (subst unat_mult_lem [symmetric]) (use lt u in \<open>simp add: layer_index_def\<close>)
  then have "unat (?ix + ?w * ?iy) = unat ?ix + unat ?w * unat ?iy"
    by (subst unat_plus_if') (use lt u in \<open>simp add: layer_index_def\<close>)
  then show 1: "unat (indexForPosition l x y) = layer_index l x y"
    by (simp add: eq u layer_index_def)
  show "0 \<le> sint (indexForPosition l x y)"
    using lt by (simp add: sint_nonneg_32 1)
qed

lemma covers_tiles:
  assumes ok: "layer_ok l" and cov: "covers l x y"
  obtains ts where "l_tiles l = Some ts" "length ts = layer_width l * layer_height l"
proof -
  have "layer_width l \<noteq> 0" using cov by (auto simp: covers_def layer_width_def)
  moreover have "case l_tiles l of None \<Rightarrow> layer_width l = 0
      | Some ts \<Rightarrow> length ts = layer_width l * layer_height l"
    using ok unfolding layer_ok_def by blast
  ultimately show thesis using that by (cases "l_tiles l") auto
qed

section \<open>A layer is a partial map\<close>

lemma layer_getTile_spec: "layer_ok l \<Longrightarrow> layer_getTile l x y = Inr (tile_map l (x, y))"
proof (cases "covers l x y")
  case True
  assume ok: "layer_ok l"
  obtain ts where ts: "l_tiles l = Some ts" "length ts = layer_width l * layer_height l"
    by (rule covers_tiles [OF ok True])
  show ?thesis
    using indexForPosition_in [OF ok True] layer_index_lt [OF True] ts True
    by (simp add: layer_getTile_def tile_map_def)
next
  case False
  then show ?thesis
    by (simp add: layer_getTile_def indexForPosition_out tile_map_def)
qed

lemma layer_index_inj:
  assumes "covers l x y" "covers l x' y'" "layer_index l x y = layer_index l x' y'"
  shows "x = x' \<and> y = y'"
proof -
  let ?w = "layer_width l" and ?sx = "unat (l_startX l)" and ?sy = "unat (l_startY l)"
  have w: "unat x - ?sx < ?w" "unat x' - ?sx < ?w"
    using assms by (auto simp: covers_def layer_width_def)
  have "unat x - ?sx = layer_index l x y mod ?w" "unat x' - ?sx = layer_index l x' y' mod ?w"
    "unat y - ?sy = layer_index l x y div ?w" "unat y' - ?sy = layer_index l x' y' div ?w"
    using w by (simp_all add: layer_index_def)
  then have "unat x - ?sx = unat x' - ?sx" "unat y - ?sy = unat y' - ?sy" using assms(3) by simp_all
  then have "unat x = unat x'" "unat y = unat y'" using assms(1,2) by (auto simp: covers_def)
  then show ?thesis by (simp add: word_unat_eq_iff)
qed

lemma prepareWithSize_spec:
  assumes "unat w * unat h < 2 ^ 31"
  obtains l' where "prepareWithSize l w h = Inr l'" "layer_ok l'" "tile_map l' = (\<lambda>_. None)"
    "\<not> l_completed l'" "covers l' = (\<lambda>x y. x < w \<and> y < h)"
proof -
  define l' where "l' = (layer_clear l)\<lparr>l_endX := ucast w, l_endY := ucast h,
        l_tiles := Some (replicate (unat w * unat h) None)\<rparr>"
  have wh: "layer_width l' = unat w" "layer_height l' = unat h"
    by (simp_all add: l'_def layer_clear_def layer_width_def layer_height_def)
  have map: "tile_map l' = (\<lambda>_. None)"
  proof -
    have "layer_index l' x y < unat w * unat h" if "covers l' x y" for x y
      using layer_index_lt [OF that] wh by simp
    then show ?thesis by (auto simp: tile_map_def fun_eq_iff l'_def)
  qed
  have sel: "l_startX l' = 0" "l_startY l' = 0" "l_endX l' = ucast w" "l_endY l' = ucast h"
    "l_tiles l' = Some (replicate (unat w * unat h) None)" "l_minLoadedX l' = 65535"
    "l_minLoadedY l' = 65535" "l_maxLoadedX l' = 0" "l_maxLoadedY l' = 0"
    by (simp_all add: l'_def layer_clear_def)
  have "layer_ok l'"
    unfolding layer_ok_def sel wh map
    using assms less_imp_le [OF unat_16_bound [of w]] less_imp_le [OF unat_16_bound [of h]]
    by (simp add: word_le_nat_alt)
  moreover have "uint w * uint h < 2 ^ 31"
  proof -
    have "int (unat w * unat h) < int (2 ^ 31)" using assms by (simp only: of_nat_less_iff)
    then show ?thesis unfolding of_nat_mult of_nat_unat of_nat_power of_nat_numeral .
  qed
  then have "prepareWithSize l w h = Inr l'"
    by (simp add: prepareWithSize_def l'_def)
  moreover have "\<not> l_completed l'" "covers l' = (\<lambda>x y. x < w \<and> y < h)"
    by (simp_all add: l'_def layer_clear_def covers_def word_less_nat_alt fun_eq_iff)
  ultimately show thesis using that map by blast
qed

lemma layer_setTile_out: "\<not> covers l x y \<Longrightarrow> layer_setTile l x y t = Inr (False, l)"
  by (simp add: layer_setTile_def indexForPosition_out)

text \<open>The loaded rectangle grows to hold the new tile.\<close>

definition grow_loaded :: "u16 \<Rightarrow> u16 \<Rightarrow> 'tile map_layer \<Rightarrow> 'tile map_layer" where
  "grow_loaded x y l = (if l_completed l then l else
     l\<lparr>l_minLoadedX := min (ucast x) (l_minLoadedX l), l_maxLoadedX := max (ucast x) (l_maxLoadedX l),
       l_minLoadedY := min (ucast y) (l_minLoadedY l), l_maxLoadedY := max (ucast y) (l_maxLoadedY l)\<rparr>)"

lemma layer_setTile_in:
  assumes ok: "layer_ok l" and cov: "covers l x y"
  obtains ts where "l_tiles l = Some ts" "layer_index l x y < length ts"
    "layer_setTile l x y t = Inr (True, (grow_loaded x y l)\<lparr>l_tiles := Some (ts[layer_index l x y := t])\<rparr>)"
proof -
  obtain ts where ts: "l_tiles l = Some ts" "length ts = layer_width l * layer_height l"
    by (rule covers_tiles [OF ok cov])
  moreover have lt: "layer_index l x y < length ts" using layer_index_lt [OF cov] ts by simp
  moreover have "layer_setTile l x y t
      = Inr (True, (grow_loaded x y l)\<lparr>l_tiles := Some (ts[layer_index l x y := t])\<rparr>)"
    using indexForPosition_in [OF ok cov] ts(1) lt
    by (simp add: layer_setTile_def grow_loaded_def Let_def min_def max_def not_le)
  ultimately show thesis using that by blast
qed

lemma grow_loaded_sel [simp]:
  "l_startX (grow_loaded x y l) = l_startX l" "l_startY (grow_loaded x y l) = l_startY l"
  "l_endX (grow_loaded x y l) = l_endX l" "l_endY (grow_loaded x y l) = l_endY l"
  "l_tiles (grow_loaded x y l) = l_tiles l" "l_completed (grow_loaded x y l) = l_completed l"
  by (simp_all add: grow_loaded_def)

lemma layer_setTile_spec:
  assumes ok: "layer_ok l" and cov: "covers l x y"
  obtains l' where "layer_setTile l x y t = Inr (True, l')" "layer_ok l'"
    "tile_map l' = (tile_map l)((x, y) := t)" "l_completed l' = l_completed l"
    "covers l' = covers l"
proof -
  obtain ts where ts: "l_tiles l = Some ts" "layer_index l x y < length ts"
    and run: "layer_setTile l x y t
      = Inr (True, (grow_loaded x y l)\<lparr>l_tiles := Some (ts[layer_index l x y := t])\<rparr>)"
    by (rule layer_setTile_in [OF ok cov])
  define l' where "l' = (grow_loaded x y l)\<lparr>l_tiles := Some (ts[layer_index l x y := t])\<rparr>"
  have cov': "covers l' = covers l" and idx: "layer_index l' x y = layer_index l x y" for x y
    by (simp_all add: l'_def covers_def layer_index_def layer_width_def fun_eq_iff)
  have map: "tile_map l' = (tile_map l)((x, y) := t)"
  proof (rule ext, clarify)
    fix u v
    show "tile_map l' (u, v) = ((tile_map l)((x, y) := t)) (u, v)"
      using layer_index_inj [of l u v x y] cov ts
      by (auto simp: tile_map_def cov' idx) (auto simp: l'_def nth_list_update)
  qed
  have "layer_ok l'"
  proof (cases "l_completed l")
    case True
    then show ?thesis
      using ok ts by (simp add: layer_ok_def layer_width_def layer_height_def l'_def grow_loaded_def)
  next
    case False
    have bounds: "ucast x \<le> (65535 :: u32)" "ucast y \<le> (65535 :: u32)"
      using unat_16_bound [of x] unat_16_bound [of y] by (simp_all add: word_le_nat_alt)
    have inside: "ucast x < l_endX l" "ucast y < l_endY l"
      using cov by (simp_all add: covers_def word_less_nat_alt)
    note okl = ok [unfolded layer_ok_def ts(1) option.case]
    have "\<forall>u v. tile_map l' (u, v) \<noteq> None \<longrightarrow>
        min (ucast x) (l_minLoadedX l) \<le> ucast u \<and> ucast u \<le> max (ucast x) (l_maxLoadedX l)
        \<and> min (ucast y) (l_minLoadedY l) \<le> ucast v \<and> ucast v \<le> max (ucast y) (l_maxLoadedY l)"
      using okl False unfolding map by (auto simp: min_le_iff_disj le_max_iff_disj split: if_splits)
    moreover have "max (ucast x) (l_maxLoadedX l) < l_endX l" "max (ucast y) (l_maxLoadedY l) < l_endY l"
      using inside okl False by (auto simp: max_def)
    moreover have "l_minLoadedX l' = min (ucast x) (l_minLoadedX l)"
      "l_minLoadedY l' = min (ucast y) (l_minLoadedY l)"
      "l_maxLoadedX l' = max (ucast x) (l_maxLoadedX l)" "l_maxLoadedY l' = max (ucast y) (l_maxLoadedY l)"
      using False by (simp_all add: l'_def grow_loaded_def)
    moreover have "l_startX l' = l_startX l" "l_startY l' = l_startY l" "l_endX l' = l_endX l"
      "l_endY l' = l_endY l" "l_tiles l' = Some (ts[layer_index l x y := t])" "l_completed l' = l_completed l"
      "layer_width l' = layer_width l" "layer_height l' = layer_height l"
      by (simp_all add: l'_def layer_width_def layer_height_def)
    ultimately show ?thesis
      unfolding layer_ok_def using okl bounds False by simp
  qed
  then show thesis using that run map cov' by (simp add: l'_def)
qed

subsection \<open>Completing a layer\<close>

lemma nth_concat_rows:
  assumes "\<forall>r \<in> set rows. length r = w" "i < w" "j < length rows"
  shows "concat rows ! (i + w * j) = rows ! j ! i"
  using assms
proof (induction rows arbitrary: j)
  case (Cons r rows)
  then show ?case by (cases j) (auto simp: nth_append algebra_simps)
qed simp

lemma length_take_drop: "k + n \<le> length xs \<Longrightarrow> length (take n (drop k xs)) = n"
  by simp

lemma length_concat_rows: "\<forall>r \<in> set rows. length r = w \<Longrightarrow> length (concat rows) = w * length rows"
  by (induction rows) auto

lemma copy_rows_spec:
  assumes "\<And>y. y \<in> set ys \<Longrightarrow> copy_row l ts w ow (word_of_nat y) = Inr (row y)"
  shows "copy_rows l ts w ow ys = Inr (concat (map row ys))"
  using assms by (induction ys) auto

lemma copy_row_spec:
  fixes w :: u32
  assumes "y < h" "unat w * h = length ts" "length ts < 2 ^ 31"
    and "unat (l_minLoadedX l) + unat ow \<le> unat w" "l_startY l = 0"
  shows "copy_row l ts w ow (word_of_nat y)
    = Inr (take (unat ow) (drop (unat w * y + unat (l_minLoadedX l)) ts))"
proof (cases "w = 0")
  case True
  then show ?thesis using assms by (simp add: copy_row_def Let_def unat_eq_zero)
next
  case False
  then have "0 < unat w" by (simp add: unat_gt_0)
  have le: "unat w * y + unat w \<le> length ts"
    using assms(1) unfolding assms(2) [symmetric] by (metis Suc_leI mult_Suc_right add.commute mult_le_mono2)
  have "y \<le> unat w * y" using \<open>0 < unat w\<close> by simp
  also have "\<dots> \<le> length ts" using le by (rule add_leD1)
  also note assms(3)
  finally have y: "unat (word_of_nat y :: u32) = y" by (simp add: unat_of_nat)
  have "unat (w * word_of_nat y) = unat w * y"
    using le assms(3) y by (subst unat_mult_lem [THEN iffD1]) simp_all
  then have "unat (w * word_of_nat y + l_minLoadedX l) = unat w * y + unat (l_minLoadedX l)"
    using le assms(3,4) by (subst unat_add_lem [THEN iffD1]) simp_all
  then show ?thesis using le assms(4,5) by (simp add: copy_row_def Let_def)
qed

lemma layer_complete_spec:
  assumes ok: "layer_ok l" and inc: "\<not> l_completed l"
  obtains l' where "layer_complete l = Inr l'" "layer_ok l'" "tile_map l' = tile_map l"
    "l_completed l'"
proof (cases "l_tiles l = None \<or> l_minLoadedX l > l_maxLoadedX l \<or> l_minLoadedY l > l_maxLoadedY l")
  case True
  let ?l' = "(layer_clear l)\<lparr>l_completed := True\<rparr>"
  have "tile_map l (x, y) = None" for x y
  proof (rule ccontr)
    assume tile: "tile_map l (x, y) \<noteq> None"
    then have "covers l x y" by (auto simp: tile_map_def split: if_splits)
    then have "l_tiles l \<noteq> None" using covers_tiles [OF ok] by fastforce
    moreover have "l_minLoadedX l \<le> l_maxLoadedX l" "l_minLoadedY l \<le> l_maxLoadedY l"
      using ok inc tile unfolding layer_ok_def by (meson order_trans)+
    ultimately show False using True by auto
  qed
  moreover have none: "\<not> covers ?l' x y" for x y by (simp add: covers_def layer_clear_def)
  ultimately have "tile_map ?l' = tile_map l" by (auto simp: tile_map_def [of ?l'] fun_eq_iff)
  moreover have "layer_ok ?l'" by (simp add: layer_ok_def layer_clear_def layer_width_def layer_height_def)
  moreover have "layer_complete l = Inr ?l'"
    using True inc by (auto simp: layer_complete_def split: option.splits)
  ultimately show thesis using that none by simp
next
  case False
  then obtain ts where ts: "l_tiles l = Some ts" and loaded: "l_minLoadedX l \<le> l_maxLoadedX l"
      "l_minLoadedY l \<le> l_maxLoadedY l"
    by (auto simp: not_less)
  note okl = ok [unfolded layer_ok_def ts option.case]
  have start: "l_startX l = 0" "l_startY l = 0"
    and max_lt: "l_maxLoadedX l < l_endX l" "l_maxLoadedY l < l_endY l"
    and inside: "tile_map l (x, y) \<noteq> None \<Longrightarrow> l_minLoadedX l \<le> ucast x \<and> ucast x \<le> l_maxLoadedX l
               \<and> l_minLoadedY l \<le> ucast y \<and> ucast y \<le> l_maxLoadedY l" for x y
    using okl inc loaded by auto
  let ?same = "l_minLoadedX l = l_startX l \<and> l_minLoadedY l = l_startY l
       \<and> l_maxLoadedX l = l_endX l - 1 \<and> l_maxLoadedY l = l_endY l - 1"
  show thesis
  proof (cases ?same)
    case True
    let ?l' = "l\<lparr>l_completed := True\<rparr>"
    have "layer_ok ?l'" using okl ts by (simp add: layer_ok_def layer_width_def layer_height_def)
    moreover have "tile_map ?l' = tile_map l"
      by (rule ext) (auto simp: tile_map_def covers_def layer_index_def layer_width_def)
    moreover have "layer_complete l = Inr ?l'"
      using True False inc ts by (simp add: layer_complete_def)
    ultimately show thesis using that by (simp add: covers_def)
  next
    case diff: False
    let ?minX = "unat (l_minLoadedX l)" and ?maxX = "unat (l_maxLoadedX l)"
    let ?minY = "unat (l_minLoadedY l)" and ?maxY = "unat (l_maxLoadedY l)"
    let ?W = "unat (l_endX l)" and ?H = "unat (l_endY l)" and ?ow = "l_maxLoadedX l - l_minLoadedX l + 1"
    have nat_le: "?minX \<le> ?maxX" "?minY \<le> ?maxY" "?maxX < ?W" "?maxY < ?H" "?W \<le> 65536" "?H \<le> 65536"
      using loaded max_lt okl by (simp_all add: word_le_nat_alt word_less_nat_alt)
    have W: "layer_width l = ?W" "layer_height l = ?H" by (simp_all add: layer_width_def layer_height_def start)
    have ow: "unat ?ow = ?maxX - ?minX + 1"
      using nat_le loaded by (subst unat_add_lem [THEN iffD1]) (simp_all add: unat_sub)
    have ends: "unat (l_maxLoadedX l + 1) = ?maxX + 1" "unat (l_maxLoadedY l + 1) = ?maxY + 1"
      using nat_le by (subst unat_add_lem [THEN iffD1], simp_all)+
    define row where "row y = take (unat ?ow) (drop (?W * y + ?minX) ts)" for y
    let ?rows = "map row [?minY..<Suc ?maxY]"
    let ?l' = "l\<lparr>l_completed := True, l_startX := l_minLoadedX l, l_startY := l_minLoadedY l,
      l_endX := l_maxLoadedX l + 1, l_endY := l_maxLoadedY l + 1, l_tiles := Some (concat ?rows)\<rparr>"
    have lt: "length ts = ?W * ?H" "?W * ?H < 2 ^ 31" using okl W by auto
    have fits: "?W * y + ?minX + unat ?ow \<le> ?W * ?H" if "y \<le> ?maxY" for y
    proof -
      have "?W * y + ?minX + unat ?ow \<le> ?W * Suc y" using nat_le ow by simp
      also have "\<dots> \<le> ?W * ?H" using that nat_le by (intro mult_le_mono2) simp
      finally show ?thesis .
    qed
    have "length (row y) = unat ?ow" if "y \<le> ?maxY" for y
      unfolding row_def using fits [OF that] lt(1) by (intro length_take_drop) simp
    then have len: "\<forall>r \<in> set ?rows. length r = unat ?ow" using nat_le by auto
    have copy: "copy_rows (l\<lparr>l_completed := True\<rparr>) ts (l_endX l - l_startX l) ?ow [?minY..<Suc ?maxY]
        = Inr (concat ?rows)"
    proof (rule copy_rows_spec)
      fix y assume "y \<in> set [?minY..<Suc ?maxY]"
      then show "copy_row (l\<lparr>l_completed := True\<rparr>) ts (l_endX l - l_startX l) ?ow (word_of_nat y) = Inr (row y)"
        using nat_le ow lt start unfolding row_def
        by (subst copy_row_spec [where h = ?H]) auto
    qed
    have run: "layer_complete l = Inr ?l'"
    proof -
      have "\<not> (l_minLoadedX l > l_maxLoadedX l \<or> l_minLoadedY l > l_maxLoadedY l)" using False by simp
      then show ?thesis
        using copy unfolding layer_complete_def Let_def ts option.case
        by (simp add: inc del: upt_Suc) (use diff in blast)
    qed
    define l' where "l' = ?l'"
    have sel: "l_startX l' = l_minLoadedX l" "l_startY l' = l_minLoadedY l" "l_endX l' = l_maxLoadedX l + 1"
      "l_endY l' = l_maxLoadedY l + 1" "l_tiles l' = Some (concat ?rows)" "l_completed l'"
      by (simp_all add: l'_def)
    note run = run [folded l'_def]
    have cov: "covers l' x y \<longleftrightarrow> ?minX \<le> unat x \<and> unat x \<le> ?maxX \<and> ?minY \<le> unat y \<and> unat y \<le> ?maxY" for x y
      by (auto simp: covers_def ends sel)
    have W': "layer_width l' = unat ?ow" "layer_height l' = ?maxY - ?minY + 1"
      using nat_le by (simp_all add: layer_width_def layer_height_def ends ow sel)
    have map: "tile_map l' (x, y) = tile_map l (x, y)" for x y
    proof (cases "covers l' x y")
      case True
      note inside_l' = True [unfolded cov]
      then have in_l: "covers l x y" using nat_le by (simp add: covers_def start)
      have ltw: "unat x - ?minX < unat ?ow" using inside_l' unfolding ow by linarith
      have "concat ?rows ! (unat x - ?minX + unat ?ow * (unat y - ?minY)) = row (unat y) ! (unat x - ?minX)"
        using inside_l' len ltw by (subst nth_concat_rows) (auto simp del: upt_Suc)
      also have "\<dots> = ts ! (?W * unat y + unat x)"
        using inside_l' fits [of "unat y"] lt unfolding row_def nth_take [OF ltw] by (subst nth_drop) auto
      finally show ?thesis
        using True in_l ts by (simp add: tile_map_def layer_index_def W W' sel start add.commute del: upt_Suc)
    next
      case False
      then have "tile_map l (x, y) = None"
        using inside [of x y] unfolding cov word_le_nat_alt unat_ucast_16_32 by blast
      then show ?thesis using False by (simp add: tile_map_def)
    qed
    have "layer_ok l'"
    proof -
      have "unat ?ow * (?maxY - ?minY + 1) \<le> ?W * ?H"
        using nat_le ow by (intro mult_le_mono) auto
      moreover have "length (concat ?rows) = unat ?ow * (?maxY - ?minY + 1)"
        unfolding length_concat_rows [OF len] using nat_le by simp
      ultimately show ?thesis
        using nat_le lt unfolding layer_ok_def W' sel option.case
        by (simp add: word_le_nat_alt ends sel del: upt_Suc mult_Suc_right)
    qed
    then show thesis using that [of l'] run map sel by (simp add: fun_eq_iff)
  qed
qed

section \<open>The interface of a tile store\<close>

text \<open>
  What the map relies on when it uses a layer, and what the game relies on when it uses the map:
  a lookup never fails and answers from the abstract map, an update either changes one place of
  it or, refused, nothing.
\<close>

locale tile_store =
  fixes ok :: "'s \<Rightarrow> bool"
    and content :: "'s \<Rightarrow> 'k \<Rightarrow> 'v option"
    and lookup :: "'s \<Rightarrow> 'k \<Rightarrow> 'v option run"
    and update :: "'k \<Rightarrow> 'v \<Rightarrow> 's \<Rightarrow> (bool \<times> 's) run"
  assumes lookup: "ok s \<Longrightarrow> lookup s k = Inr (content s k)"
    and update: "ok s \<Longrightarrow> \<exists>b s'. update k v s = Inr (b, s') \<and> ok s'
      \<and> content s' = (if b then (content s)(k \<mapsto> v) else content s)"
begin

fun updates :: "('k \<times> 'v) list \<Rightarrow> 's \<Rightarrow> (bool list \<times> 's) run" where
  "updates [] s = Inr ([], s)"
| "updates ((k, v) # kvs) s = bind_run (update k v s) (\<lambda>(b, s').
     bind_run (updates kvs s') (\<lambda>(bs, s''). Inr (b # bs, s'')))"

text \<open>The updates that were accepted, in order.\<close>

definition accepted :: "('k \<times> 'v) list \<Rightarrow> bool list \<Rightarrow> ('k \<times> 'v) list" where
  "accepted kvs bs = map fst (filter snd (zip kvs bs))"

lemma updates_run:
  "ok s \<Longrightarrow> \<exists>bs s'. updates kvs s = Inr (bs, s') \<and> length bs = length kvs \<and> ok s'
     \<and> content s' = content s ++ map_of (rev (accepted kvs bs))"
proof (induction kvs arbitrary: s)
  case Nil
  then show ?case by (simp add: accepted_def)
next
  case (Cons kv kvs)
  obtain k v where kv: "kv = (k, v)" by force
  from update [OF Cons.prems, of k v] obtain b s1 where s1: "update k v s = Inr (b, s1)" "ok s1"
    "content s1 = (if b then (content s)(k \<mapsto> v) else content s)" by blast
  from Cons.IH [OF s1(2)] obtain bs s2 where s2: "updates kvs s1 = Inr (bs, s2)"
    "length bs = length kvs" "ok s2"
    "content s2 = content s1 ++ map_of (rev (accepted kvs bs))" by blast
  have "content s2 = content s ++ map_of (rev (accepted (kv # kvs) (b # bs)))"
    using s2(4) by (simp add: s1(3) accepted_def kv)
  then show ?case using s1 s2 by (intro exI [of _ "b # bs"] exI [of _ s2]) (simp add: kv)
qed

theorem lookup_after_updates:
  assumes "ok s"
  obtains bs s' where "updates kvs s = Inr (bs, s')" "length bs = length kvs" "ok s'"
    "\<And>k. lookup s' k = Inr ((content s ++ map_of (rev (accepted kvs bs))) k)"
proof -
  obtain bs s' where run: "updates kvs s = Inr (bs, s')" "length bs = length kvs" "ok s'"
    "content s' = content s ++ map_of (rev (accepted kvs bs))"
    using updates_run [OF assms] by blast
  then show thesis using that lookup [OF run(3)] by simp
qed

end

text \<open>A store that refuses a place that is taken or out of its room: the first update wins.\<close>

locale write_once_store = tile_store ok content lookup update
  for ok :: "'s \<Rightarrow> bool" and content :: "'s \<Rightarrow> 'k \<Rightarrow> 'v option"
    and lookup :: "'s \<Rightarrow> 'k \<Rightarrow> 'v option run" and update :: "'k \<Rightarrow> 'v \<Rightarrow> 's \<Rightarrow> (bool \<times> 's) run" +
  fixes room :: "'s \<Rightarrow> 'k \<Rightarrow> bool"
  assumes accepts: "ok s \<Longrightarrow> update k v s = Inr (b, s') \<Longrightarrow> b \<longleftrightarrow> room s k \<and> content s k = None"
    and room: "ok s \<Longrightarrow> update k v s = Inr (b, s') \<Longrightarrow> room s' = room s"
begin

theorem first_update_wins:
  "ok s \<Longrightarrow> \<exists>bs s'. updates kvs s = Inr (bs, s') \<and> ok s' \<and> room s' = room s
     \<and> bs = map (\<lambda>i. room s (fst (kvs ! i)) \<and> content s (fst (kvs ! i)) = None
                   \<and> fst (kvs ! i) \<notin> fst ` set (take i kvs)) [0..<length kvs]
     \<and> (\<forall>k. content s' k = (if content s k = None \<and> room s k then map_of kvs k else content s k))"
proof (induction kvs arbitrary: s)
  case Nil
  then show ?case by simp
next
  case (Cons kv kvs)
  obtain k v where kv: "kv = (k, v)" by force
  from update [OF Cons.prems, of k v] obtain b s1 where s1: "update k v s = Inr (b, s1)" "ok s1"
    "content s1 = (if b then (content s)(k \<mapsto> v) else content s)" by blast
  note b = accepts [OF Cons.prems s1(1)] and room1 = room [OF Cons.prems s1(1)]
  from Cons.IH [OF s1(2)] obtain bs s2 where s2: "updates kvs s1 = Inr (bs, s2)" "ok s2" "room s2 = room s1"
    "bs = map (\<lambda>i. room s1 (fst (kvs ! i)) \<and> content s1 (fst (kvs ! i)) = None
                   \<and> fst (kvs ! i) \<notin> fst ` set (take i kvs)) [0..<length kvs]"
    "\<forall>k. content s2 k = (if content s1 k = None \<and> room s1 k then map_of kvs k else content s1 k)" by blast
  have "b # bs = map (\<lambda>i. room s (fst ((kv # kvs) ! i)) \<and> content s (fst ((kv # kvs) ! i)) = None
                   \<and> fst ((kv # kvs) ! i) \<notin> fst ` set (take i (kv # kvs))) [0..<length (kv # kvs)]"
    unfolding s2(4) length_Cons upt_conv_Cons [OF zero_less_Suc] map_Suc_upt [symmetric]
    using b by (auto simp: s1(3) room1 kv)
  moreover have "content s2 l = (if content s l = None \<and> room s l then map_of (kv # kvs) l else content s l)" for l
    using s2(5) [rule_format, of l] b by (auto simp: s1(3) room1 kv)
  ultimately show ?case using s1 s2(1-3) room1
    by (intro exI [of _ "b # bs"] exI [of _ s2]) (auto simp: kv)
qed

end

interpretation layer_store:
  tile_store layer_ok tile_map "\<lambda>l (x, y). layer_getTile l x y" "\<lambda>(x, y) t l. layer_setTile l x y (Some t)"
proof (unfold_locales, goal_cases)
  case (1 l k)
  then show ?case by (cases k) (simp add: layer_getTile_spec)
next
  case (2 l k t)
  obtain x y where k: "k = (x, y)" by force
  show ?case
  proof (cases "covers l x y")
    case True
    from layer_setTile_spec [OF 2 True, of "Some t"] show ?thesis by (auto simp: k)
  next
    case False
    then show ?thesis using 2 by (intro exI [of _ False] exI [of _ l]) (simp add: k layer_setTile_out)
  qed
qed

end
