(* ===== verification/Game_Map.thy ===== *)
theory Game_Map
  imports Map_Layers
begin

text \<open>
  The tiles of \<^verbatim>\<open>Map\<close> (\<^verbatim>\<open>src/sources/map.h\<close>, \<^verbatim>\<open>map.cpp\<close>): sixteen layers behind one coordinate, the
  checks of \<^verbatim>\<open>getTile\<close> and \<^verbatim>\<open>setTile\<close>, and the completion after loading.  A tile is read through a
  record of what the map asks it.  The theorem shows that the map is a partial map from positions
  to tiles in which a place once set stays as it is.
\<close>

section \<open>Tiles and the map\<close>

text \<open>
  What the map asks a tile: its address, whether it is to be refreshed (\<^verbatim>\<open>TILESTATE_REFRESH\<close>), its
  down items if it has an item list, whether it stops projectiles (\<^verbatim>\<open>BLOCKPROJECTILE\<close>), and for a
  creature, by its id, whether \<^verbatim>\<open>testAddCreature\<close> with the path-finding flags returns
  \<^verbatim>\<open>RET_NOERROR\<close>, whether the top creature visible to it exists and the combat type of a field.
\<close>

record tile =
  tile_id :: nat
  tile_refresh :: bool
  tile_downItems :: "nat list option"
  tile_blocksProjectile :: bool
  tile_canAdd :: "nat \<Rightarrow> bool"
  tile_topVisible :: "nat \<Rightarrow> bool"
  tile_field :: "combat_type option"

definition map_maxX :: u16 where "map_maxX = 60000"
definition map_maxY :: u16 where "map_maxY = 60000"
definition map_maxZ :: u16 where "map_maxZ = 15"
definition map_numZ :: u32 where "map_numZ = ucast map_maxZ + 1"
definition creaturesBlockSize :: u16 where "creaturesBlockSize = 100"

lemmas map_limits = map_maxX_def map_maxY_def map_maxZ_def

text \<open>
  The map.  \<open>m_creatures\<close> is the array of creature lists, \<open>None\<close> while the pointer is null; a
  creature is its address.  Of the cache \<^verbatim>\<open>_spectatorCache\<close> the entries are kept as a map.
\<close>

record game_map =
  m_creatureBlockCountX :: u16
  m_creatureBlockCountY :: u16
  m_creatureBlockCountZ :: u16
  m_height :: u16
  m_width :: u16
  m_creatures :: "nat list list option"
  m_layers :: "tile map_layer list"
  m_spectatorCache :: "position \<rightharpoonup> nat list"

definition map_new :: game_map where
  "map_new = \<lparr>m_creatureBlockCountX = 0, m_creatureBlockCountY = 0, m_creatureBlockCountZ = 0,
     m_height = 0, m_width = 0, m_creatures = None,
     m_layers = map (\<lambda>z. layer_new (word_of_nat z)) [0..<16], m_spectatorCache = Map.empty\<rparr>"

definition map_getHeight :: "game_map \<Rightarrow> u16" where "map_getHeight m = m_height m"
definition map_getWidth :: "game_map \<Rightarrow> u16" where "map_getWidth m = m_width m"

definition isUnderground :: "u32 \<Rightarrow> bool" where
  "isUnderground z \<longleftrightarrow> z \<ge> 8"

definition getTile_xyz :: "game_map \<Rightarrow> int \<Rightarrow> int \<Rightarrow> int \<Rightarrow> tile option run" where
  "getTile_xyz m x y z =
     (if x < 0 \<or> x > uint map_maxX \<or> y < 0 \<or> y > uint map_maxY \<or> z < 0 \<or> z > uint map_maxZ
      then Inr None
      else layer_getTile (m_layers m ! nat z) (word_of_int x) (word_of_int y))"

definition map_getTile :: "game_map \<Rightarrow> position \<Rightarrow> tile option run" where
  "map_getTile m p = getTile_xyz m (uint (pos_x p)) (uint (pos_y p)) (uint (pos_z p))"

text \<open>\<^verbatim>\<open>setSize\<close>; every layer is prepared in turn.  A map that has creatures trips the assertion.\<close>

fun prepare_layers :: "u16 \<Rightarrow> u16 \<Rightarrow> tile map_layer list \<Rightarrow> tile map_layer list run" where
  "prepare_layers w h [] = Inr []"
| "prepare_layers w h (l # ls) = bind_run (prepareWithSize l w h) (\<lambda>l'.
     bind_run (prepare_layers w h ls) (\<lambda>ls'. Inr (l' # ls')))"

definition setSize :: "game_map \<Rightarrow> u16 \<Rightarrow> u16 \<Rightarrow> game_map run" where
  "setSize m width height =
     require (m_creatures m = None)
       (bind_run (prepare_layers width height (m_layers m)) (\<lambda>ls.
          Inr (m\<lparr>m_height := height, m_width := width,
            m_creatureBlockCountX := ucast (ucast (width div creaturesBlockSize) + 1 :: u32),
            m_creatureBlockCountY := ucast (ucast (height div creaturesBlockSize) + 1 :: u32),
            m_creatureBlockCountZ := ucast map_numZ, m_layers := ls\<rparr>)))"

text \<open>
  \<^verbatim>\<open>setTile\<close>.  A tile that is refreshed is handed to the game with clones of its down items; the
  third part of the result is that call, if it is made.
\<close>

definition setTile_xyz ::
  "game_map \<Rightarrow> u16 \<Rightarrow> u16 \<Rightarrow> u16 \<Rightarrow> tile \<Rightarrow> (bool \<times> game_map \<times> (nat \<times> nat list) option) run" where
  "setTile_xyz m x y z tile =
     (if x \<ge> m_width m \<or> y \<ge> m_height m \<or> z > map_maxZ then Inr (False, m, None)
      else bind_run (layer_getTile (m_layers m ! unat z) x y) (\<lambda>old.
        if old \<noteq> None then Inr (False, m, None)
        else bind_run (layer_setTile (m_layers m ! unat z) x y (Some tile)) (\<lambda>(done, layer).
          let m = m\<lparr>m_layers := (m_layers m)[unat z := layer]\<rparr> in
          if \<not> done then Inr (False, m, None)
          else Inr (True, m, if tile_refresh tile
            then Some (tile_id tile, case tile_downItems tile of None \<Rightarrow> [] | Some is \<Rightarrow> is)
            else None))))"

definition map_setTile ::
  "game_map \<Rightarrow> position \<Rightarrow> tile \<Rightarrow> (bool \<times> game_map \<times> (nat \<times> nat list) option) run" where
  "map_setTile m p tile = setTile_xyz m (ucast (pos_x p)) (ucast (pos_y p)) (ucast (pos_z p)) tile"

text \<open>The completion of the layers in \<^verbatim>\<open>load\<close>, after the file was read.\<close>

fun complete_layers :: "tile map_layer list \<Rightarrow> tile map_layer list run" where
  "complete_layers [] = Inr []"
| "complete_layers (l # ls) = bind_run (layer_complete l) (\<lambda>l'.
     bind_run (complete_layers ls) (\<lambda>ls'. Inr (l' # ls')))"

definition load_complete :: "game_map \<Rightarrow> game_map run" where
  "load_complete m = bind_run (complete_layers (m_layers m)) (\<lambda>ls. Inr (m\<lparr>m_layers := ls\<rparr>))"

section \<open>The map as a partial map\<close>

definition map_ok :: "game_map \<Rightarrow> bool" where
  "map_ok m \<longleftrightarrow> length (m_layers m) = 16 \<and> list_all layer_ok (m_layers m)
     \<and> m_width m \<le> 60001 \<and> m_height m \<le> 60001"

definition map_content :: "game_map \<Rightarrow> position \<Rightarrow> tile option" where
  "map_content m p =
     (if position_isValid p then tile_map (m_layers m ! unat (pos_z p)) (pos_x p, pos_y p) else None)"

text \<open>The places that a new tile can take.\<close>

definition map_room :: "game_map \<Rightarrow> position \<Rightarrow> bool" where
  "map_room m p \<longleftrightarrow> pos_x p < m_width m \<and> pos_y p < m_height m \<and> pos_z p \<le> 15
     \<and> covers (m_layers m ! unat (pos_z p)) (pos_x p) (pos_y p)"

fun set_tiles :: "(position \<times> tile) list \<Rightarrow> game_map \<Rightarrow> (bool list \<times> game_map) run" where
  "set_tiles [] m = Inr ([], m)"
| "set_tiles ((p, t) # pts) m = bind_run (map_setTile m p t) (\<lambda>(b, m', _).
     bind_run (set_tiles pts m') (\<lambda>(bs, m''). Inr (b # bs, m'')))"

lemma position_isValid_iff:
  "position_isValid p \<longleftrightarrow> pos_x p \<le> 60000 \<and> pos_y p \<le> 60000 \<and> pos_z p \<le> 15"
  by (simp add: position_isValid_def coordinates_isValid_def limits word_le_def)

lemma getTile_xyz_spec:
  assumes "map_ok m" "z \<le> 15"
  shows "getTile_xyz m (uint x) (uint y) (uint (z :: u8))
    = Inr (map_content m \<lparr>pos_x = x, pos_y = y, pos_z = z\<rparr>)"
proof -
  have z: "unat z < 16" using assms(2) by (simp add: word_le_nat_alt)
  then have "layer_ok (m_layers m ! unat z)" using assms(1) by (simp add: map_ok_def list_all_length)
  then show ?thesis
    using assms(2)
    by (simp add: getTile_xyz_def map_limits layer_getTile_spec map_content_def position_isValid_iff
        word_le_def not_le)
qed

lemma map_getTile_spec: "map_ok m \<Longrightarrow> map_getTile m p = Inr (map_content m p)"
proof (cases "pos_z p \<le> 15")
  case True
  moreover assume "map_ok m"
  ultimately show ?thesis
    using getTile_xyz_spec [of m "pos_z p" "pos_x p" "pos_y p"] by (cases p) (simp add: map_getTile_def)
next
  case False
  then show ?thesis
    by (simp add: map_getTile_def getTile_xyz_def map_limits map_content_def position_isValid_iff word_le_def)
qed

lemma map_room_valid: "map_ok m \<Longrightarrow> map_room m p \<Longrightarrow> position_isValid p"
  by (auto simp: map_ok_def map_room_def position_isValid_iff word_le_nat_alt word_less_nat_alt)

lemma map_setTile_spec:
  assumes ok: "map_ok m"
  obtains m' where
    "map_setTile m p t = Inr (map_room m p \<and> map_content m p = None, m',
       if map_room m p \<and> map_content m p = None \<and> tile_refresh t
       then Some (tile_id t, case tile_downItems t of None \<Rightarrow> [] | Some is \<Rightarrow> is) else None)"
    "map_ok m'" "map_room m' = map_room m" "map l_completed (m_layers m') = map l_completed (m_layers m)"
    "map_content m' = (if map_room m p \<and> map_content m p = None then (map_content m)(p \<mapsto> t) else map_content m)"
proof (cases "pos_x p \<ge> m_width m \<or> pos_y p \<ge> m_height m \<or> \<not> pos_z p \<le> 15")
  case True
  then have "map_setTile m p t = Inr (False, m, None)"
    by (auto simp: map_setTile_def setTile_xyz_def map_limits word_less_nat_alt word_le_nat_alt)
  moreover have "\<not> map_room m p" using True by (auto simp: map_room_def)
  ultimately show thesis using that ok by simp
next
  case False
  let ?l = "m_layers m ! unat (pos_z p)"
  have z: "unat (pos_z p) < 16" using False by (simp add: word_le_nat_alt)
  have len: "length (m_layers m) = 16" and l: "layer_ok ?l"
    using ok z by (auto simp: map_ok_def list_all_length)
  have valid: "position_isValid p"
    using False ok by (auto simp: map_ok_def position_isValid_iff word_le_nat_alt word_less_nat_alt)
  have content: "map_content m p = tile_map ?l (pos_x p, pos_y p)" using valid by (simp add: map_content_def)
  have room: "map_room m p \<longleftrightarrow> covers ?l (pos_x p) (pos_y p)" using False by (auto simp: map_room_def)
  have inside: "\<not> (ucast (pos_x p) \<ge> m_width m \<or> ucast (pos_y p) \<ge> m_height m \<or> ucast (pos_z p) > map_maxZ)"
    using False by (auto simp: map_limits word_less_nat_alt word_le_nat_alt)
  show thesis
  proof (cases "map_room m p \<and> map_content m p = None")
    case True
    then have cov: "covers ?l (pos_x p) (pos_y p)" and free: "tile_map ?l (pos_x p, pos_y p) = None"
      by (simp_all add: room content)
    obtain l' where l': "layer_setTile ?l (pos_x p) (pos_y p) (Some t) = Inr (True, l')" "layer_ok l'"
        "tile_map l' = (tile_map ?l)((pos_x p, pos_y p) \<mapsto> t)" "l_completed l' = l_completed ?l"
        "covers l' = covers ?l"
      by (rule layer_setTile_spec [OF l cov, of "Some t"])
    define m' where "m' = m\<lparr>m_layers := (m_layers m)[unat (pos_z p) := l']\<rparr>"
    have layer: "m_layers m' ! unat z = (if z = pos_z p then l' else m_layers m ! unat z)" for z
      using z len by (simp add: m'_def nth_list_update word_unat_eq_iff)
    have "map_ok m'"
      using ok l'(2) z by (auto simp: map_ok_def m'_def list_all_length nth_list_update)
    moreover have "map_room m' = map_room m"
      by (rule ext) (simp add: map_room_def layer l'(5), simp add: m'_def)
    moreover have "map l_completed (m_layers m') = map l_completed (m_layers m)"
      using l'(4) len z by (simp add: m'_def map_update list_update_same_conv)
    moreover have "map_content m' = (map_content m)(p \<mapsto> t)"
    proof
      fix q
      show "map_content m' q = ((map_content m)(p \<mapsto> t)) q"
        using valid by (cases p; cases q) (auto simp: map_content_def layer l'(3))
    qed
    moreover have "map_setTile m p t = Inr (True, m', if tile_refresh t
        then Some (tile_id t, case tile_downItems t of None \<Rightarrow> [] | Some is \<Rightarrow> is) else None)"
      using inside l free l'(1) by (simp add: map_setTile_def setTile_xyz_def layer_getTile_spec m'_def)
    ultimately show thesis using that True by simp
  next
    case taken: False
    have "map_setTile m p t = Inr (False, m, None)"
      using taken inside l
      by (auto simp: map_setTile_def setTile_xyz_def layer_getTile_spec room content layer_setTile_out)
    then show thesis using that [of m] taken ok by auto
  qed
qed

abbreviation map_put :: "position \<Rightarrow> tile \<Rightarrow> game_map \<Rightarrow> (bool \<times> game_map) run" where
  "map_put p t m \<equiv> bind_run (map_setTile m p t) (\<lambda>(b, m', _). Inr (b, m'))"

interpretation map_store: write_once_store map_ok map_content map_getTile map_put map_room
proof (unfold_locales, goal_cases)
  case (1 m p)
  then show ?case by (rule map_getTile_spec)
next
  case (2 m p t)
  show ?case by (rule map_setTile_spec [OF 2, of p t]) simp
next
  case (3 m p t b m')
  from 3(2) show ?case by - (rule map_setTile_spec [OF 3(1), of p t], simp)
next
  case (4 m p t b m')
  from 4(2) show ?case by - (rule map_setTile_spec [OF 4(1), of p t], simp)
qed

lemma set_tiles_updates: "set_tiles pts m = map_store.updates pts m"
proof (induction pts arbitrary: m)
  case (Cons pt pts)
  obtain p t where pt: "pt = (p, t)" by force
  show ?case
  proof (cases "map_setTile m p t")
    case (Inr r)
    obtain b m' e where r: "r = (b, m', e)" by (cases r)
    then show ?thesis using Inr Cons [of m'] by (simp add: pt)
  qed (simp add: pt)
qed simp

section \<open>Sizing and loading\<close>

lemma map_new_ok: "map_ok map_new"
  by (simp add: map_ok_def map_new_def list_all_iff layer_ok_def layer_new_def layer_width_def
      layer_height_def tile_map_def covers_def)

lemma map_new_content: "map_content map_new p = None"
proof -
  have "tile_map (m_layers map_new ! unat (pos_z p)) q = None" if "unat (pos_z p) < 16" for q
    using that by (cases q) (simp add: map_new_def layer_new_def tile_map_def covers_def)
  then show ?thesis by (simp add: map_content_def position_isValid_iff word_le_nat_alt)
qed

lemma prepare_layers_spec:
  assumes "unat w * unat h < 2 ^ 31"
  shows "\<exists>ls'. prepare_layers w h ls = Inr ls' \<and> length ls' = length ls
    \<and> (\<forall>l \<in> set ls'. layer_ok l \<and> tile_map l = (\<lambda>_. None) \<and> \<not> l_completed l
          \<and> (\<forall>x y. covers l x y \<longleftrightarrow> x < w \<and> y < h))"
proof (induction ls)
  case (Cons l ls)
  obtain l' where "prepareWithSize l w h = Inr l'" "layer_ok l'" "tile_map l' = (\<lambda>_. None)"
    "\<not> l_completed l'" "covers l' = (\<lambda>x y. x < w \<and> y < h)"
    by (rule prepareWithSize_spec [OF assms, of l])
  then show ?case using Cons by auto
qed simp

lemma setSize_spec:
  assumes "w \<le> 60001" "h \<le> 60001" "unat w * unat h < 2 ^ 31"
    and "m_creatures m = None" "length (m_layers m) = 16"
  obtains m' where "setSize m w h = Inr m'" "map_ok m'" "map_content m' = (\<lambda>_. None)"
    "map_room m' = (\<lambda>p. pos_x p < w \<and> pos_y p < h \<and> pos_z p \<le> 15)"
    "\<forall>l \<in> set (m_layers m'). \<not> l_completed l"
proof -
  obtain ls where ls: "prepare_layers w h (m_layers m) = Inr ls" "length ls = 16"
    "\<forall>l \<in> set ls. layer_ok l \<and> tile_map l = (\<lambda>_. None) \<and> \<not> l_completed l
          \<and> (\<forall>x y. covers l x y \<longleftrightarrow> x < w \<and> y < h)"
    using prepare_layers_spec [OF assms(3)] assms(5) by metis
  obtain m' where m': "setSize m w h = Inr m'" "m_layers m' = ls" "m_width m' = w" "m_height m' = h"
    using assms(4) ls(1) by (simp add: setSize_def)
  have nth: "layer_ok (ls ! unat z) \<and> tile_map (ls ! unat z) = (\<lambda>_. None)
      \<and> (\<forall>x y. covers (ls ! unat z) x y \<longleftrightarrow> x < w \<and> y < h)" if "z \<le> 15" for z :: u8
    using that ls(2,3) by (simp add: word_le_nat_alt)
  have "map_ok m'" using assms(1,2) ls m' by (simp add: map_ok_def list_all_iff)
  moreover have "map_content m' = (\<lambda>_. None)"
    using nth by (auto simp: map_content_def m' position_isValid_iff)
  moreover have "map_room m' = (\<lambda>p. pos_x p < w \<and> pos_y p < h \<and> pos_z p \<le> 15)"
    using nth by (auto simp: map_room_def m')
  ultimately show thesis using that m'(1,2) ls(3) by simp
qed

lemma complete_layers_spec:
  "\<forall>l \<in> set ls. layer_ok l \<and> \<not> l_completed l \<Longrightarrow>
     \<exists>ls'. complete_layers ls = Inr ls' \<and> list_all2 (\<lambda>l l'. layer_ok l' \<and> tile_map l' = tile_map l) ls ls'"
proof (induction ls)
  case (Cons l ls)
  obtain l' where "layer_complete l = Inr l'" "layer_ok l'" "tile_map l' = tile_map l"
    using layer_complete_spec [of l] Cons.prems by (metis list.set_intros(1))
  then show ?case using Cons by auto
qed simp

lemma load_complete_spec:
  assumes "map_ok m" "\<forall>l \<in> set (m_layers m). \<not> l_completed l"
  obtains m' where "load_complete m = Inr m'" "map_ok m'" "map_content m' = map_content m"
proof -
  obtain ls where ls: "complete_layers (m_layers m) = Inr ls"
    "list_all2 (\<lambda>l l'. layer_ok l' \<and> tile_map l' = tile_map l) (m_layers m) ls"
    using complete_layers_spec [of "m_layers m"] assms by (auto simp: map_ok_def list_all_iff)
  define m' where "m' = m\<lparr>m_layers := ls\<rparr>"
  have len: "length (m_layers m) = 16" "length ls = 16"
    using ls(2) assms(1) by (auto simp: map_ok_def list_all2_lengthD)
  have "map_ok m'"
    using assms(1) ls(2) len by (auto simp: map_ok_def m'_def list_all_length list_all2_conv_all_nth)
  moreover have "tile_map (ls ! unat z) = tile_map (m_layers m ! unat z)" if "z \<le> 15" for z :: u8
    using that ls(2) len by (auto simp: list_all2_conv_all_nth word_le_nat_alt)
  then have "map_content m' = map_content m"
    by (auto simp: map_content_def m'_def position_isValid_iff)
  ultimately show thesis using that ls(1) by (simp add: load_complete_def m'_def)
qed

lemma set_tiles_keeps_completed:
  "map_ok m \<Longrightarrow> set_tiles pts m = Inr (bs, m') \<Longrightarrow> map l_completed (m_layers m') = map l_completed (m_layers m)"
proof (induction pts arbitrary: m bs)
  case (Cons pt pts)
  obtain p t where pt: "pt = (p, t)" by force
  from Cons.prems(2) show ?case
    by - (rule map_setTile_spec [OF Cons.prems(1), of p t], auto simp: pt run_simps dest: Cons.IH)
qed simp

definition on_map :: "u16 \<Rightarrow> u16 \<Rightarrow> position \<Rightarrow> bool" where
  "on_map w h p \<longleftrightarrow> pos_x p < w \<and> pos_y p < h \<and> pos_z p \<le> 15"

text \<open>
  C6: Loading a map.  After \<open>setSize\<close> any list of tiles is set, the layers are completed, and more
  tiles are set.  No step fails or leaves an array; a tile is accepted exactly when its place lies on the
  map and is free, so the first tile of a place stays; and completing the layers, which cuts their arrays
  down, changes no answer of \<open>getTile\<close>.  The sizes are those for which \<open>getTile\<close> accepts every
  coordinate and their product is an \<^verbatim>\<open>int\<close>.
\<close>

theorem map_holds_first_tiles:
  assumes "w \<le> 60001" "h \<le> 60001" "unat w * unat h < 2 ^ 31"
  shows "\<exists>m0 m1 m2. setSize map_new w h = Inr m0
    \<and> set_tiles pts m0 = Inr (map (\<lambda>i. on_map w h (fst (pts ! i)) \<and> fst (pts ! i) \<notin> fst ` set (take i pts))
                                [0..<length pts], m1)
    \<and> load_complete m1 = Inr m2
    \<and> (\<forall>p. map_getTile m1 p = Inr (if on_map w h p then map_of pts p else None))
    \<and> (\<forall>p. map_getTile m2 p = map_getTile m1 p)
    \<and> (\<exists>bs m3. set_tiles later m2 = Inr (bs, m3)
         \<and> (\<forall>p. map_getTile m1 p \<noteq> Inr None \<longrightarrow> map_getTile m3 p = map_getTile m1 p))"
proof -
  obtain m0 where m0: "setSize map_new w h = Inr m0" "map_ok m0" "map_content m0 = (\<lambda>_. None)"
    "map_room m0 = on_map w h" "\<forall>l \<in> set (m_layers m0). \<not> l_completed l"
    by (rule setSize_spec [OF assms(1-3), of map_new]) (simp_all add: map_new_def on_map_def fun_eq_iff)
  from map_store.first_update_wins [OF m0(2), of pts] obtain m1 where
    m1: "set_tiles pts m0 = Inr (map (\<lambda>i. on_map w h (fst (pts ! i)) \<and> fst (pts ! i) \<notin> fst ` set (take i pts))
                                [0..<length pts], m1)" "map_ok m1"
      "\<forall>p. map_content m1 p = (if on_map w h p then map_of pts p else None)"
    by (auto simp: set_tiles_updates m0)
  have "\<forall>l \<in> set (m_layers m1). \<not> l_completed l"
    using set_tiles_keeps_completed [OF m0(2) m1(1)] m0(5) by (metis (no_types) imageE list.set_map imageI)
  then obtain m2 where m2: "load_complete m1 = Inr m2" "map_ok m2" "map_content m2 = map_content m1"
    by (rule load_complete_spec [OF m1(2)])
  from map_store.first_update_wins [OF m2(2), of later] obtain bs m3 where
    m3: "set_tiles later m2 = Inr (bs, m3)" "map_ok m3"
      "\<forall>p. map_content m2 p \<noteq> None \<longrightarrow> map_content m3 p = map_content m2 p"
    by (auto simp: set_tiles_updates)
  show ?thesis
    using m0(1) m1 m2 m3 by (auto simp: map_getTile_spec)
qed

definition grass :: tile where
  "grass = \<lparr>tile_id = 1, tile_refresh = False, tile_downItems = None, tile_blocksProjectile = False,
     tile_canAdd = (\<lambda>_. True), tile_topVisible = (\<lambda>_. False), tile_field = None\<rparr>"

lemma map_holds_first_tiles_witness:
  "\<exists>m0 m1 m2. setSize map_new 200 100 = Inr m0
    \<and> set_tiles [(\<lparr>pos_x = 150, pos_y = 50, pos_z = 7\<rparr>, grass), (\<lparr>pos_x = 150, pos_y = 50, pos_z = 7\<rparr>, grass)] m0
        = Inr ([True, False], m1)
    \<and> load_complete m1 = Inr m2 \<and> map_getTile m2 \<lparr>pos_x = 150, pos_y = 50, pos_z = 7\<rparr> = Inr (Some grass)"
  using map_holds_first_tiles [of 200 100 "[(\<lparr>pos_x = 150, pos_y = 50, pos_z = 7\<rparr>, grass),
      (\<lparr>pos_x = 150, pos_y = 50, pos_z = 7\<rparr>, grass)]" "[]"]
  by (auto simp: on_map_def upt_rec)

end
