(* ===== verification/Sight_Lines.thy ===== *)
theory Sight_Lines
  imports Game_Map
begin

text \<open>
  Lines of sight on the map (\<^verbatim>\<open>src/sources/map.cpp\<close>): \<^verbatim>\<open>checkSightLine\<close> casts a digital ray from one
  position to another, \<^verbatim>\<open>isSightClear\<close> casts it both ways, \<^verbatim>\<open>canThrowObjectTo\<close> adds the range.  The
  arithmetic is between \<^verbatim>\<open>int\<close>s far from their limits and exact here; the narrowing of a coordinate
  to the eight bits of the floor, which the axis swap of the code performs, is kept.
\<close>

section \<open>The ray\<close>

text \<open>
  The loop's variables.  The fixed part: the axis that was swapped to the front (\<open>y_dir = 1\<close> for
  the y axis, \<open>2\<close> for the floors), the directions of the steps, the differences and the last x.
\<close>

record ray =
  y_dir :: int
  y_sx :: int
  y_sy :: int
  y_sz :: int
  y_dx :: int
  y_dy :: int
  y_dz :: int
  y_endX :: int

record ray_state =
  r_x :: int
  r_y :: int
  r_z :: int
  r_ey :: int
  r_ez :: int
  r_lastrx :: int
  r_lastry :: int
  r_lastrz :: int

definition swap_axes :: "int \<Rightarrow> position \<Rightarrow> position" where
  "swap_axes dir p =
     (if dir = 1 then p\<lparr>pos_x := pos_y p, pos_y := pos_x p\<rparr>
      else if dir = 2 then p\<lparr>pos_x := ucast (pos_z p), pos_z := ucast (pos_x p)\<rparr>
      else p)"

definition cast_ray :: "position \<Rightarrow> position \<Rightarrow> ray \<times> ray_state" where
  "cast_ray origin destination =
     (let dx = \<bar>uint (pos_x origin) - uint (pos_x destination)\<bar>;
          dy = \<bar>uint (pos_y origin) - uint (pos_y destination)\<bar>;
          dz = \<bar>uint (pos_z origin) - uint (pos_z destination)\<bar>;
          dir = (if dz > dx then 2 else if dy > dx then 1 else 0);
          start = swap_axes dir origin;
          end = swap_axes dir destination
      in (\<lparr>y_dir = dir,
            y_sx = (if pos_x start < pos_x end then 1 else - 1),
            y_sy = (if pos_y start < pos_y end then 1 else - 1),
            y_sz = (if pos_z start < pos_z end then 1 else - 1),
            y_dx = (if dir = 1 then dy else if dir = 2 then dz else dx),
            y_dy = (if dir = 1 then dx else dy),
            y_dz = (if dir = 2 then dx else dz),
            y_endX = uint (pos_x end)\<rparr>,
          \<lparr>r_x = uint (pos_x start), r_y = uint (pos_y start), r_z = uint (pos_z start),
            r_ey = 0, r_ez = 0, r_lastrx = 0, r_lastry = 0, r_lastrz = 0\<rparr>))"

definition ray_point :: "ray \<Rightarrow> ray_state \<Rightarrow> int \<times> int \<times> int" where
  "ray_point y s =
     (if y_dir y = 1 then (r_y s, r_x s, r_z s)
      else if y_dir y = 2 then (r_z s, r_y s, r_x s)
      else (r_x s, r_y s, r_z s))"

definition ray_remember :: "int \<times> int \<times> int \<Rightarrow> ray_state \<Rightarrow> ray_state" where
  "ray_remember = (\<lambda>(rx, ry, rz) s. s\<lparr>r_lastrx := rx, r_lastry := ry, r_lastrz := rz\<rparr>)"

text \<open>One turn of the loop up to the error terms: whether the line is blocked here.\<close>

definition ray_blocked ::
  "game_map \<Rightarrow> position \<Rightarrow> position \<Rightarrow> ray \<Rightarrow> ray_state \<Rightarrow> (bool \<times> ray_state) run" where
  "ray_blocked m origin destination y s =
     (let (rx, ry, rz) = ray_point y s;
          s = (if r_lastrx s = 0 \<and> r_lastry s = 0 \<and> r_lastrz s = 0 then ray_remember (rx, ry, rz) s else s)
      in if r_lastrz s \<noteq> rz
            \<or> ((uint (pos_x destination) \<noteq> rx \<or> uint (pos_y destination) \<noteq> ry \<or> uint (pos_z destination) \<noteq> rz)
               \<and> (uint (pos_x origin) \<noteq> rx \<or> uint (pos_y origin) \<noteq> ry \<or> uint (pos_z origin) \<noteq> rz))
         then bind_run
           (if r_lastrz s \<noteq> rz
            then bind_run (getTile_xyz m (r_lastrx s) (r_lastry s) (min (r_lastrz s) rz)) (\<lambda>t. Inr (t \<noteq> None))
            else Inr False)
           (\<lambda>floor. if floor then Inr (True, s)
             else let s = ray_remember (rx, ry, rz) s in
               bind_run (getTile_xyz m rx ry rz)
                 (\<lambda>t. Inr (case t of None \<Rightarrow> False | Some t \<Rightarrow> tile_blocksProjectile t, s)))
         else Inr (False, s))"

definition ray_advance :: "ray \<Rightarrow> ray_state \<Rightarrow> ray_state" where
  "ray_advance y s =
     (let s = s\<lparr>r_ey := r_ey s + y_dy y, r_ez := r_ez s + y_dz y\<rparr>;
          s = (if 2 * r_ey s \<ge> y_dx y then s\<lparr>r_y := r_y s + y_sy y, r_ey := r_ey s - y_dx y\<rparr> else s);
          s = (if 2 * r_ez s \<ge> y_dx y then s\<lparr>r_z := r_z s + y_sz y, r_ez := r_ez s - y_dx y\<rparr> else s)
      in s\<lparr>r_x := r_x s + y_sx y\<rparr>)"

text \<open>The loop, with fuel; \<open>checkSightLine\<close> gives one turn for every x and one for its end.\<close>

fun ray_loop :: "nat \<Rightarrow> game_map \<Rightarrow> position \<Rightarrow> position \<Rightarrow> ray \<Rightarrow> ray_state \<Rightarrow> bool run" where
  "ray_loop 0 m origin destination y s = Inl Out_of_fuel"
| "ray_loop (Suc fuel) m origin destination y s =
     (if r_x s = y_endX y + y_sx y then Inr True
      else bind_run (ray_blocked m origin destination y s) (\<lambda>(blocked, s).
        if blocked then Inr False
        else ray_loop fuel m origin destination y (ray_advance y s)))"

definition checkSightLine :: "game_map \<Rightarrow> position \<Rightarrow> position \<Rightarrow> bool run" where
  "checkSightLine m origin destination =
     bind_run (position_copy origin) (\<lambda>_. bind_run (position_copy destination) (\<lambda>_.
       (let (y, s) = cast_ray origin destination
        in ray_loop (nat \<bar>y_endX y - r_x s\<bar> + 2) m origin destination y s)))"

definition isSightClear :: "game_map \<Rightarrow> position \<Rightarrow> position \<Rightarrow> bool \<Rightarrow> bool run" where
  "isSightClear m origin destination requireSameFloor =
     (if requireSameFloor \<and> pos_z origin \<noteq> pos_z destination then Inr False
      else bind_run (checkSightLine m origin destination) (\<lambda>clear.
        if clear then Inr True else checkSightLine m destination origin))"

definition canThrowObjectTo ::
  "game_map \<Rightarrow> position \<Rightarrow> position \<Rightarrow> bool \<Rightarrow> int \<Rightarrow> int \<Rightarrow> bool run" where
  "canThrowObjectTo m origin destination checkLineOfSight rangeX rangeY =
     (if isUnderground (ucast (pos_z origin)) \<noteq> isUnderground (ucast (pos_z destination)) then Inr False
      else if uint (pos_z origin) - uint (pos_z destination) > 2 then Inr False
      else
        let deltaX = \<bar>uint (pos_x origin) - uint (pos_x destination)\<bar>;
            deltaY = \<bar>uint (pos_y origin) - uint (pos_y destination)\<bar>;
            deltaZ = \<bar>uint (pos_z origin) - uint (pos_z destination)\<bar>
        in if deltaX - deltaZ > rangeX \<or> deltaY - deltaZ > rangeY then Inr False
          else if checkLineOfSight
          then bind_run (isSightClear m origin destination False) (\<lambda>clear. Inr (if \<not> clear then False else True))
          else Inr True)"

section \<open>Termination\<close>

text \<open>The turns left are the distance to the end of the ray.\<close>

definition turns_left :: "ray \<Rightarrow> ray_state \<Rightarrow> nat" where
  "turns_left y s = nat ((y_endX y + y_sx y - r_x s) * y_sx y)"

definition ray_ok :: "ray \<Rightarrow> ray_state \<Rightarrow> bool" where
  "ray_ok y s \<longleftrightarrow> (y_sx y = 1 \<or> y_sx y = - 1) \<and> 0 \<le> (y_endX y + y_sx y - r_x s) * y_sx y"

lemma ray_remember_sel [simp]:
  "r_x (ray_remember p s) = r_x s" "r_y (ray_remember p s) = r_y s" "r_z (ray_remember p s) = r_z s"
  "r_ey (ray_remember p s) = r_ey s" "r_ez (ray_remember p s) = r_ez s"
  by (cases p, simp add: ray_remember_def)+

lemma ray_advance_x [simp]: "r_x (ray_advance y s) = r_x s + y_sx y"
  by (simp add: ray_advance_def Let_def)

lemma ray_advance_ok:
  assumes "ray_ok y s" "r_x s \<noteq> y_endX y + y_sx y"
  shows "ray_ok y (ray_advance y s)" "Suc (turns_left y (ray_advance y s)) = turns_left y s"
  using assms by (auto simp: ray_ok_def turns_left_def)

lemma getTile_xyz_total: "map_ok m \<Longrightarrow> \<exists>t. getTile_xyz m x y z = Inr t"
proof (cases "x < 0 \<or> x > 60000 \<or> y < 0 \<or> y > 60000 \<or> z < 0 \<or> z > 15")
  case True
  then show ?thesis by (auto simp: getTile_xyz_def map_limits)
next
  case False
  assume ok: "map_ok m"
  have "uint (word_of_int x :: u16) = x" "uint (word_of_int y :: u16) = y" "uint (word_of_int z :: u8) = z"
    using False by (simp_all add: uint_word_of_int)
  moreover have "(word_of_int z :: u8) \<le> 15"
    using False by (simp add: word_le_def uint_word_of_int)
  ultimately show ?thesis
    using getTile_xyz_spec [OF ok, of "word_of_int z" "word_of_int x" "word_of_int y"] by auto
qed

lemma ray_blocked_total:
  assumes "map_ok m"
  obtains b s' where "ray_blocked m origin destination y s = Inr (b, s')" "r_x s' = r_x s"
proof -
  obtain rx ry rz where p: "ray_point y s = (rx, ry, rz)" by (metis prod_cases3)
  define s1 where "s1 = (if r_lastrx s = 0 \<and> r_lastry s = 0 \<and> r_lastrz s = 0 then ray_remember (rx, ry, rz) s else s)"
  have x: "r_x s1 = r_x s" by (simp add: s1_def)
  obtain t1 where t1: "getTile_xyz m (r_lastrx s1) (r_lastry s1) (min (r_lastrz s1) rz) = Inr t1"
    using getTile_xyz_total [OF assms] by blast
  obtain t2 where t2: "getTile_xyz m rx ry rz = Inr t2" using getTile_xyz_total [OF assms] by blast
  define off where "off \<longleftrightarrow>
    (uint (pos_x destination) \<noteq> rx \<or> uint (pos_y destination) \<noteq> ry \<or> uint (pos_z destination) \<noteq> rz)
    \<and> (uint (pos_x origin) \<noteq> rx \<or> uint (pos_y origin) \<noteq> ry \<or> uint (pos_z origin) \<noteq> rz)"
  have run: "ray_blocked m origin destination y s =
      (if r_lastrz s1 \<noteq> rz \<or> off
       then if r_lastrz s1 \<noteq> rz \<and> t1 \<noteq> None then Inr (True, s1)
         else Inr (case t2 of None \<Rightarrow> False | Some t \<Rightarrow> tile_blocksProjectile t, ray_remember (rx, ry, rz) s1)
       else Inr (False, s1))"
    unfolding ray_blocked_def p Let_def prod.case s1_def [symmetric] off_def [symmetric] t1 t2
    by (cases "r_lastrz s1 = rz") (simp_all only: bind_run_simps simp_thms if_True if_False)
  have "\<exists>b s'. ray_blocked m origin destination y s = Inr (b, s') \<and> r_x s' = r_x s1"
    unfolding run by (cases "r_lastrz s1 = rz"; cases off; cases "t1 = None") auto
  then show thesis using that x by metis
qed

lemma ray_loop_total:
  assumes "map_ok m"
  shows "ray_ok y s \<Longrightarrow> turns_left y s < fuel \<Longrightarrow> \<exists>b. ray_loop fuel m origin destination y s = Inr b"
proof (induction fuel arbitrary: s)
  case (Suc fuel)
  show ?case
  proof (cases "r_x s = y_endX y + y_sx y")
    case False
    obtain b s' where s': "ray_blocked m origin destination y s = Inr (b, s')" "r_x s' = r_x s"
      by (rule ray_blocked_total [OF assms])
    have "ray_ok y s'" "turns_left y s' = turns_left y s"
      using Suc.prems(1) s'(2) by (simp_all add: ray_ok_def turns_left_def)
    then show ?thesis
      using Suc.IH [of "ray_advance y s'"] Suc.prems(2) ray_advance_ok [of y s'] False s' by auto
  qed auto
qed simp

lemma cast_ray_sel:
  "r_x (snd (cast_ray p q)) = uint (pos_x (swap_axes (y_dir (fst (cast_ray p q))) p))"
  "y_endX (fst (cast_ray p q)) = uint (pos_x (swap_axes (y_dir (fst (cast_ray p q))) q))"
  "y_sx (fst (cast_ray p q)) = (if r_x (snd (cast_ray p q)) < y_endX (fst (cast_ray p q)) then 1 else - 1)"
  unfolding cast_ray_def Let_def fst_conv snd_conv
  by (simp_all only: ray.select_convs ray_state.select_convs word_less_def)

lemma cast_ray_ok:
  assumes "cast_ray origin destination = (y, s)"
  shows "ray_ok y s" "turns_left y s = nat \<bar>y_endX y - r_x s\<bar> + 1"
proof -
  have "y_sx y = (if r_x s < y_endX y then 1 else - 1)"
    using cast_ray_sel(3) [of origin destination] assms by simp
  then show "ray_ok y s" "turns_left y s = nat \<bar>y_endX y - r_x s\<bar> + 1"
    by (cases "r_x s < y_endX y"; simp add: ray_ok_def turns_left_def; arith)+
qed

lemma checkSightLine_total:
  assumes "map_ok m" "position_isValid origin" "position_isValid destination"
  shows "\<exists>b. checkSightLine m origin destination = Inr b"
proof -
  obtain y s where ys: "cast_ray origin destination = (y, s)" by force
  have "\<exists>b. ray_loop (nat \<bar>y_endX y - r_x s\<bar> + 2) m origin destination y s = Inr b"
    using cast_ray_ok [OF ys] by (intro ray_loop_total [OF assms(1)]) simp_all
  then show ?thesis
    using assms(2,3) by (simp add: checkSightLine_def position_copy_def ys del: ray_loop.simps)
qed

section \<open>Lines on one floor\<close>

text \<open>
  The digital line from one position to another on its floor: along the longer axis one step at a
  time, along the other the exact line rounded to the nearest coordinate, halves upwards.
\<close>

definition rounded :: "int \<Rightarrow> int \<Rightarrow> int \<Rightarrow> int" where
  "rounded n d i = (2 * i * d + n) div (2 * n)"

definition line_length :: "position \<Rightarrow> position \<Rightarrow> int" where
  "line_length p q = max \<bar>uint (pos_x q) - uint (pos_x p)\<bar> \<bar>uint (pos_y q) - uint (pos_y p)\<bar>"

definition along :: "int \<Rightarrow> int \<Rightarrow> int \<Rightarrow> int \<Rightarrow> int" where
  "along n a b i = a + sgn (b - a) * rounded n \<bar>b - a\<bar> i"

definition line_point :: "position \<Rightarrow> position \<Rightarrow> int \<Rightarrow> position" where
  "line_point p q i =
     \<lparr>pos_x = word_of_int (along (line_length p q) (uint (pos_x p)) (uint (pos_x q)) i),
      pos_y = word_of_int (along (line_length p q) (uint (pos_y p)) (uint (pos_y q)) i),
      pos_z = pos_z p\<rparr>"

definition stops :: "tile option \<Rightarrow> bool" where
  "stops t = (case t of None \<Rightarrow> False | Some t \<Rightarrow> tile_blocksProjectile t)"

lemma rounded_long: "0 < n \<Longrightarrow> rounded n n i = i"
proof -
  assume "0 < n"
  then have "(n + i * (2 * n)) div (2 * n) = i + n div (2 * n)" by (intro div_mult_self1) simp
  then show ?thesis using \<open>0 < n\<close> by (simp add: rounded_def algebra_simps)
qed

lemma rounded_0: "0 < n \<Longrightarrow> rounded n d 0 = 0"
  by (simp add: rounded_def)

lemma rounded_end: "0 < n \<Longrightarrow> rounded n d n = d"
  using rounded_long [of n d] by (simp add: rounded_def mult.commute mult.left_commute)

lemma rounded_flat: "0 < n \<Longrightarrow> rounded n 0 i = 0"
  by (simp add: rounded_def)

lemma rounded_mono:
  assumes "0 < n" "0 \<le> d" "i \<le> j"
  shows "rounded n d i \<le> rounded n d j"
  unfolding rounded_def using assms
  by (intro zdiv_mono1) (simp_all add: mult_right_mono)

text \<open>The error term keeps the distance to the exact line below a half.\<close>

lemma rounded_error:
  assumes "0 < n"
  shows "- n \<le> 2 * (i * d - n * rounded n d i)" "2 * (i * d - n * rounded n d i) < n"
proof -
  let ?q = "rounded n d i"
  have "2 * i * d + n = 2 * n * ?q + (2 * i * d + n) mod (2 * n)"
    unfolding rounded_def by (metis mult_div_mod_eq)
  moreover have "0 \<le> (2 * i * d + n) mod (2 * n)" "(2 * i * d + n) mod (2 * n) < 2 * n"
    using assms by simp_all
  ultimately show "- n \<le> 2 * (i * d - n * ?q)" "2 * (i * d - n * ?q) < n"
    by (simp_all add: algebra_simps)
qed

lemma rounded_step:
  assumes "0 < n" "0 \<le> d" "d \<le> n"
  shows "rounded n d (i + 1)
    = rounded n d i + (if 2 * (i * d - n * rounded n d i + d) \<ge> n then 1 else 0)"
proof -
  let ?q = "rounded n d i" and ?e = "i * d - n * rounded n d i"
  define c where "c = (if 2 * (?e + d) \<ge> n then 1 else (0 :: int))"
  have "- n \<le> 2 * (?e + d - n * c)" "2 * (?e + d - n * c) < n"
    using rounded_error [OF assms(1), of i d] assms by (auto simp: c_def)
  then have "2 * n * (?q + c) \<le> 2 * (i + 1) * d + n" "2 * (i + 1) * d + n < 2 * n * (?q + c) + 2 * n"
    by (simp_all add: algebra_simps)
  then have "(2 * (i + 1) * d + n) div (2 * n) = ?q + c"
    using assms(1) by (intro int_div_pos_eq [where r = "2 * (i + 1) * d + n - 2 * n * (?q + c)"]) simp_all
  then show ?thesis by (simp add: rounded_def [of n d "i + 1"] c_def)
qed

text \<open>A turn on the floor \<open>z\<close> at the place \<open>p\<close>.\<close>

definition on_floor :: "int \<Rightarrow> ray_state \<Rightarrow> bool" where
  "on_floor z s \<longleftrightarrow> r_lastrx s = 0 \<and> r_lastry s = 0 \<and> r_lastrz s = 0 \<or> r_lastrz s = z"

lemma ray_blocked_on_floor:
  assumes ok: "map_ok m" and z: "pos_z origin \<le> 15" "pos_z destination = pos_z origin" "pos_z p = pos_z origin"
    and point: "ray_point y s = (uint (pos_x p), uint (pos_y p), uint (pos_z p))"
    and floor: "on_floor (uint (pos_z origin)) s"
  obtains s' where
    "ray_blocked m origin destination y s = Inr (p \<noteq> origin \<and> p \<noteq> destination \<and> stops (map_content m p), s')"
    "r_x s' = r_x s" "r_y s' = r_y s" "r_z s' = r_z s" "r_ey s' = r_ey s" "r_ez s' = r_ez s"
    "on_floor (uint (pos_z origin)) s'"
proof -
  let ?p = "(uint (pos_x p), uint (pos_y p), uint (pos_z p))"
  define s1 where "s1 = (if r_lastrx s = 0 \<and> r_lastry s = 0 \<and> r_lastrz s = 0 then ray_remember ?p s else s)"
  have s1: "r_x s1 = r_x s" "r_y s1 = r_y s" "r_z s1 = r_z s" "r_ey s1 = r_ey s" "r_ez s1 = r_ez s"
    "r_lastrz s1 = uint (pos_z p)"
    using floor z(3) by (auto simp: s1_def on_floor_def ray_remember_def)
  have eq: "(uint (pos_x q) \<noteq> uint (pos_x p) \<or> uint (pos_y q) \<noteq> uint (pos_y p) \<or> uint (pos_z q) \<noteq> uint (pos_z p))
      \<longleftrightarrow> p \<noteq> q" for q :: position
    by (cases p; cases q) (auto simp: word_uint_eq_iff)
  have tile: "getTile_xyz m (uint (pos_x p)) (uint (pos_y p)) (uint (pos_z p)) = Inr (map_content m p)"
    using getTile_xyz_spec [OF ok, of "pos_z p" "pos_x p" "pos_y p"] z by (cases p) simp
  have "ray_blocked m origin destination y s =
      (if p \<noteq> destination \<and> p \<noteq> origin then Inr (stops (map_content m p), ray_remember ?p s1) else Inr (False, s1))"
    unfolding ray_blocked_def point Let_def prod.case s1_def [symmetric] eq tile s1(6) stops_def
    by (simp only: bind_run_simps simp_thms if_True if_False)
  moreover have "on_floor (uint (pos_z origin)) (ray_remember ?p s1)" "on_floor (uint (pos_z origin)) s1"
    using z s1(6) by (simp_all add: on_floor_def ray_remember_def)
  ultimately show thesis
    using that [of "if p \<noteq> destination \<and> p \<noteq> origin then ray_remember ?p s1 else s1"] s1 by auto
qed

text \<open>The ray after \<open>i\<close> turns.\<close>

definition on_ray :: "ray \<Rightarrow> ray_state \<Rightarrow> int \<Rightarrow> ray_state \<Rightarrow> bool" where
  "on_ray y s0 i s \<longleftrightarrow>
     r_x s = r_x s0 + y_sx y * i
     \<and> r_y s = r_y s0 + y_sy y * rounded (y_dx y) (y_dy y) i
     \<and> r_ey s = i * y_dy y - y_dx y * rounded (y_dx y) (y_dy y) i
     \<and> r_z s = r_z s0 \<and> r_ez s = 0"

lemma on_ray_advance:
  assumes "on_ray y s0 i s" "0 < y_dx y" "0 \<le> y_dy y" "y_dy y \<le> y_dx y" "y_dz y = 0"
  shows "on_ray y s0 (i + 1) (ray_advance y s)"
  using assms rounded_step [OF assms(2-4), of i]
  by (simp add: on_ray_def ray_advance_def Let_def algebra_simps)

lemma ray_advance_last [simp]: "on_floor z (ray_advance y s) = on_floor z s"
  by (simp add: on_floor_def ray_advance_def Let_def)

definition blocks_line :: "game_map \<Rightarrow> position \<Rightarrow> position \<Rightarrow> position \<Rightarrow> bool" where
  "blocks_line m p q r \<longleftrightarrow> r \<noteq> p \<and> r \<noteq> q \<and> stops (map_content m r)"

lemma ray_loop_on_floor:
  assumes ok: "map_ok m" and z: "pos_z p \<le> 15" "pos_z q = pos_z p" "r_z s0 = uint (pos_z p)"
    and ray: "0 < y_dx y" "0 \<le> y_dy y" "y_dy y \<le> y_dx y" "y_dz y = 0" "y_sx y = 1 \<or> y_sx y = - 1"
      "y_endX y = r_x s0 + y_sx y * y_dx y"
    and points: "\<And>i s. 0 \<le> i \<Longrightarrow> i \<le> y_dx y \<Longrightarrow> on_ray y s0 i s \<Longrightarrow>
      ray_point y s = (uint (pos_x (P i)), uint (pos_y (P i)), uint (pos_z (P i)))" "\<And>i. pos_z (P i) = pos_z p"
  shows "on_ray y s0 i s \<Longrightarrow> on_floor (uint (pos_z p)) s \<Longrightarrow> 0 \<le> i \<Longrightarrow> i \<le> y_dx y + 1 \<Longrightarrow>
      nat (y_dx y + 1 - i) < fuel \<Longrightarrow>
    ray_loop fuel m p q y s = Inr (\<forall>j \<in> {i..y_dx y}. \<not> blocks_line m p q (P j))"
proof (induction fuel arbitrary: i s)
  case (Suc fuel)
  have x: "r_x s = y_endX y + y_sx y \<longleftrightarrow> i = y_dx y + 1"
    using Suc.prems(1) ray(5,6) by (auto simp: on_ray_def)
  show ?case
  proof (cases "i = y_dx y + 1")
    case True
    then show ?thesis using x by simp
  next
    case False
    then have i: "0 \<le> i" "i \<le> y_dx y" using Suc.prems by simp_all
    obtain s' where s': "ray_blocked m p q y s = Inr (P i \<noteq> p \<and> P i \<noteq> q \<and> stops (map_content m (P i)), s')"
      "r_x s' = r_x s" "r_y s' = r_y s" "r_z s' = r_z s" "r_ey s' = r_ey s" "r_ez s' = r_ez s"
      "on_floor (uint (pos_z p)) s'"
      by (rule ray_blocked_on_floor [OF ok z(1,2) points(2) points(1) [OF i Suc.prems(1)] Suc.prems(2)])
    have "on_ray y s0 i s'" using Suc.prems(1) s' by (simp add: on_ray_def)
    then have "on_ray y s0 (i + 1) (ray_advance y s')" using ray(1-4) by (rule on_ray_advance)
    then have "ray_loop fuel m p q y (ray_advance y s') = Inr (\<forall>j \<in> {i + 1..y_dx y}. \<not> blocks_line m p q (P j))"
      using Suc.prems(5) i s'(7) by (intro Suc.IH) simp_all
    moreover have "{i..y_dx y} = insert i {i + 1..y_dx y}" using i by auto
    ultimately show ?thesis using x False s'(1) by (simp add: blocks_line_def)
  qed
qed simp

lemma along_start: "along n a b 0 = a" if "0 < n"
  using that by (simp add: along_def rounded_0)

lemma along_end: "0 < n \<Longrightarrow> along n a b n = b"
  by (simp add: along_def rounded_end sgn_mult_abs)

lemma along_between:
  assumes "0 < n" "0 \<le> i" "i \<le> n"
  shows "min a b \<le> along n a b i" "along n a b i \<le> max a b"
proof -
  have "0 \<le> rounded n \<bar>b - a\<bar> i" "rounded n \<bar>b - a\<bar> i \<le> \<bar>b - a\<bar>"
    using rounded_mono [of n "\<bar>b - a\<bar>" 0 i] rounded_mono [of n "\<bar>b - a\<bar>" i n] assms
    by (simp_all add: rounded_0 rounded_end)
  then show "min a b \<le> along n a b i" "along n a b i \<le> max a b"
    by (cases "a < b"; cases "a = b"; simp add: along_def)+
qed

lemma along_long: "0 < n \<Longrightarrow> \<bar>b - a\<bar> = n \<Longrightarrow> along n a b i = a + sgn (b - a) * i"
  by (simp add: along_def rounded_long)

lemma uint_line_point:
  assumes "0 < line_length p q" "0 \<le> i" "i \<le> line_length p q"
  shows "uint (pos_x (line_point p q i)) = along (line_length p q) (uint (pos_x p)) (uint (pos_x q)) i"
    "uint (pos_y (line_point p q i)) = along (line_length p q) (uint (pos_y p)) (uint (pos_y q)) i"
proof -
  have fits: "uint (word_of_int v :: u16) = v" if "min (uint a) (uint b) \<le> v" "v \<le> max (uint a) (uint b)" for v and a b :: u16
  proof -
    have "0 \<le> v" using that(1) by (auto simp: min_def split: if_splits intro: order_trans [OF unsigned_greater_eq])
    moreover have "v < 65536" using that(2) uint_bounded [of a] uint_bounded [of b] by (simp add: max_def split: if_splits)
    ultimately show ?thesis by (simp add: uint_word_of_int)
  qed
  show "uint (pos_x (line_point p q i)) = along (line_length p q) (uint (pos_x p)) (uint (pos_x q)) i"
    "uint (pos_y (line_point p q i)) = along (line_length p q) (uint (pos_y p)) (uint (pos_y q)) i"
    unfolding line_point_def position.select_convs by (rule fits; rule along_between [OF assms])+
qed

lemma axis_short: "0 < n \<Longrightarrow> a + (if a < b then 1 else - 1) * rounded n \<bar>b - a\<bar> i = along n a b i"
  by (cases "a < b"; cases "a = b"; simp add: along_def rounded_flat)

lemma axis_long: "0 < n \<Longrightarrow> \<bar>b - a\<bar> = n \<Longrightarrow> a + (if a < b then 1 else - 1) * i = along n a b i"
  using axis_short [of n a b i] by (simp add: rounded_long)

lemma line_point_ends:
  assumes "0 < line_length p q" "pos_z q = pos_z p"
  shows "line_point p q 0 = p" "line_point p q (line_length p q) = q"
  using assms by (cases p; cases q; simp add: line_point_def along_start along_end)+

lemma line_point_inside:
  assumes "0 < i" "i < line_length p q"
  shows "line_point p q i \<noteq> p" "line_point p q i \<noteq> q"
proof -
  have n: "0 < line_length p q" "0 \<le> i" "i \<le> line_length p q" using assms by simp_all
  have strict: "along (line_length p q) a b i \<noteq> a \<and> along (line_length p q) a b i \<noteq> b"
    if "\<bar>b - a\<bar> = line_length p q" for a b
    unfolding along_long [OF n(1) that]
    using assms that by (cases "a < b"; cases "a = b") auto
  have "\<bar>uint (pos_x q) - uint (pos_x p)\<bar> = line_length p q \<or> \<bar>uint (pos_y q) - uint (pos_y p)\<bar> = line_length p q"
    by (auto simp: line_length_def max_def)
  then have "uint (pos_x (line_point p q i)) \<notin> {uint (pos_x p), uint (pos_x q)}
      \<or> uint (pos_y (line_point p q i)) \<notin> {uint (pos_y p), uint (pos_y q)}"
    using strict unfolding uint_line_point [OF n] by blast
  then show "line_point p q i \<noteq> p" "line_point p q i \<noteq> q" by auto
qed

lemma cast_steep:
  assumes "pos_z q = pos_z p" "\<bar>uint (pos_y p) - uint (pos_y q)\<bar> > \<bar>uint (pos_x p) - uint (pos_x q)\<bar>"
  shows "cast_ray p q =
    (\<lparr>y_dir = 1, y_sx = (if uint (pos_y p) < uint (pos_y q) then 1 else - 1),
       y_sy = (if uint (pos_x p) < uint (pos_x q) then 1 else - 1), y_sz = - 1,
       y_dx = \<bar>uint (pos_y p) - uint (pos_y q)\<bar>, y_dy = \<bar>uint (pos_x p) - uint (pos_x q)\<bar>, y_dz = 0,
       y_endX = uint (pos_y q)\<rparr>,
     \<lparr>r_x = uint (pos_y p), r_y = uint (pos_x p), r_z = uint (pos_z p), r_ey = 0, r_ez = 0,
       r_lastrx = 0, r_lastry = 0, r_lastrz = 0\<rparr>)"
  using assms(2) by (simp add: cast_ray_def Let_def swap_axes_def word_less_def assms(1))

lemma cast_flat:
  assumes "pos_z q = pos_z p" "\<not> \<bar>uint (pos_y p) - uint (pos_y q)\<bar> > \<bar>uint (pos_x p) - uint (pos_x q)\<bar>"
  shows "cast_ray p q =
    (\<lparr>y_dir = 0, y_sx = (if uint (pos_x p) < uint (pos_x q) then 1 else - 1),
       y_sy = (if uint (pos_y p) < uint (pos_y q) then 1 else - 1), y_sz = - 1,
       y_dx = \<bar>uint (pos_x p) - uint (pos_x q)\<bar>, y_dy = \<bar>uint (pos_y p) - uint (pos_y q)\<bar>, y_dz = 0,
       y_endX = uint (pos_x q)\<rparr>,
     \<lparr>r_x = uint (pos_x p), r_y = uint (pos_y p), r_z = uint (pos_z p), r_ey = 0, r_ez = 0,
       r_lastrx = 0, r_lastry = 0, r_lastrz = 0\<rparr>)"
  using assms(2) by (simp add: cast_ray_def Let_def swap_axes_def word_less_def assms(1))

lemma ray_loop_same_floor:
  assumes ok: "map_ok m" and z: "pos_z p \<le> 15" "pos_z q = pos_z p" and n: "0 < line_length p q"
    and fuel: "nat (line_length p q) + 1 < fuel"
  shows "ray_loop fuel m p q (fst (cast_ray p q)) (snd (cast_ray p q))
    = Inr (\<forall>j \<in> {0..line_length p q}. \<not> blocks_line m p q (line_point p q j))"
proof -
  let ?n = "line_length p q" and ?y = "fst (cast_ray p q)" and ?s = "snd (cast_ray p q)"
  have facts: "y_dx ?y = ?n \<and> 0 \<le> y_dy ?y \<and> y_dy ?y \<le> ?n \<and> y_dz ?y = 0 \<and> (y_sx ?y = 1 \<or> y_sx ?y = - 1)
      \<and> y_endX ?y = r_x ?s + y_sx ?y * ?n \<and> r_z ?s = uint (pos_z p)
      \<and> on_ray ?y ?s 0 ?s \<and> on_floor (uint (pos_z p)) ?s
      \<and> (\<forall>i s. 0 \<le> i \<longrightarrow> i \<le> ?n \<longrightarrow> on_ray ?y ?s i s \<longrightarrow> ray_point ?y s =
           (uint (pos_x (line_point p q i)), uint (pos_y (line_point p q i)), uint (pos_z (line_point p q i))))"
  proof (cases "\<bar>uint (pos_y p) - uint (pos_y q)\<bar> > \<bar>uint (pos_x p) - uint (pos_x q)\<bar>")
    case True
    then have len: "?n = \<bar>uint (pos_y p) - uint (pos_y q)\<bar>" by (simp add: line_length_def)
    have "ray_point ?y s = (uint (pos_x (line_point p q i)), uint (pos_y (line_point p q i)), uint (pos_z (line_point p q i)))"
      if "0 \<le> i" "i \<le> ?n" "on_ray ?y ?s i s" for i s
      using that(3) axis_long [OF n, of "uint (pos_y q)" "uint (pos_y p)" i]
        axis_short [OF n, of "uint (pos_x p)" "uint (pos_x q)" i] len
      unfolding uint_line_point [OF n that(1,2)]
      by (simp add: cast_steep [OF z(2) True] on_ray_def ray_point_def line_point_def abs_minus_commute)
    then show ?thesis
      using True n len by (simp add: cast_steep [OF z(2) True] on_ray_def on_floor_def rounded_0)
  next
    case False
    then have len: "?n = \<bar>uint (pos_x p) - uint (pos_x q)\<bar>" by (simp add: line_length_def)
    have "ray_point ?y s = (uint (pos_x (line_point p q i)), uint (pos_y (line_point p q i)), uint (pos_z (line_point p q i)))"
      if "0 \<le> i" "i \<le> ?n" "on_ray ?y ?s i s" for i s
      using that(3) axis_long [OF n, of "uint (pos_x q)" "uint (pos_x p)" i]
        axis_short [OF n, of "uint (pos_y p)" "uint (pos_y q)" i] len
      unfolding uint_line_point [OF n that(1,2)]
      by (simp add: cast_flat [OF z(2) False] on_ray_def ray_point_def line_point_def abs_minus_commute)
    then show ?thesis
      using False n len by (simp add: cast_flat [OF z(2) False] on_ray_def on_floor_def rounded_0)
  qed
  then have "ray_loop fuel m p q ?y ?s = Inr (\<forall>j \<in> {0..y_dx ?y}. \<not> blocks_line m p q (line_point p q j))"
    using n fuel by (intro ray_loop_on_floor [OF ok z(1,2)]) (auto simp: line_point_def)
  then show ?thesis using facts by simp
qed

lemma line_to_itself:
  assumes "map_ok m" "position_isValid p"
  shows "checkSightLine m p p = Inr True"
proof -
  obtain y s where ys: "cast_ray p p = (y, s)" by force
  have facts: "y_endX y = r_x s" "y_sx y = - 1" "ray_point y s = (uint (pos_x p), uint (pos_y p), uint (pos_z p))"
    "on_floor (uint (pos_z p)) s"
    using ys cast_flat [of p p] by (auto simp: ray_point_def on_floor_def)
  have "pos_z p \<le> 15" using assms(2) by (simp add: position_isValid_iff)
  then obtain s' where "ray_blocked m p p y s = Inr (False, s')" "r_x s' = r_x s"
    using ray_blocked_on_floor [OF assms(1), of p p p y s] facts(3,4) by auto
  then have "ray_loop (Suc (Suc 0)) m p p y s = Inr True" using facts(1,2) by simp
  then show ?thesis
    using assms(2) facts(1) by (simp add: checkSightLine_def position_copy_def ys numeral_2_eq_2 del: ray_loop.simps)
qed

lemma line_on_floor:
  assumes "map_ok m" "position_isValid p" "position_isValid q" "pos_z q = pos_z p"
  shows "checkSightLine m p q
      = Inr (\<forall>i \<in> {0<..<line_length p q}. \<not> stops (map_content m (line_point p q i)))"
proof (cases "line_length p q = 0")
  case True
  then have "p = q" using assms(4) by (cases p; cases q) (auto simp: line_length_def word_uint_eq_iff)
  then show ?thesis using line_to_itself [OF assms(1,2)] True by simp
next
  case False
  let ?n = "line_length p q"
  have n: "0 < ?n" using False by (simp add: line_length_def)
  obtain y s where ys: "cast_ray p q = (y, s)" by force
  have "?n = \<bar>y_endX y - r_x s\<bar>"
    using ys cast_steep [OF assms(4)] cast_flat [OF assms(4)]
    by (cases "\<bar>uint (pos_y p) - uint (pos_y q)\<bar> > \<bar>uint (pos_x p) - uint (pos_x q)\<bar>")
      (auto simp: line_length_def)
  then have "checkSightLine m p q = ray_loop (nat ?n + 2) m p q y s"
    using assms(2,3) by (simp add: checkSightLine_def position_copy_def ys del: ray_loop.simps)
  also have "\<dots> = Inr (\<forall>j \<in> {0..?n}. \<not> blocks_line m p q (line_point p q j))"
    using ray_loop_same_floor [OF assms(1) _ assms(4) n, of "nat ?n + 2"] assms(2)
    by (simp add: ys position_isValid_iff del: ray_loop.simps)
  also have "{0..?n} = {0, ?n} \<union> {0<..<?n}" using n by auto
  also have "(\<forall>j \<in> {0, ?n} \<union> {0<..<?n}. \<not> blocks_line m p q (line_point p q j))
      \<longleftrightarrow> (\<forall>i \<in> {0<..<?n}. \<not> stops (map_content m (line_point p q i)))"
    using line_point_ends [OF n assms(4)] line_point_inside by (auto simp: blocks_line_def)
  finally show ?thesis .
qed

text \<open>
  C7: On one floor \<open>checkSightLine\<close> is the digital line: it returns, and answers true exactly when none
  of the places strictly between the ends, at the rounded points of the exact line, holds a tile that
  stops projectiles.  \<open>isSightClear\<close> asks for one of the two lines, there or back, and is symmetric.
\<close>

theorem sight_line_is_digital_line:
  assumes "map_ok m" "position_isValid p" "position_isValid q" "pos_z q = pos_z p"
  shows "checkSightLine m p q
      = Inr (\<forall>i \<in> {0<..<line_length p q}. \<not> stops (map_content m (line_point p q i)))
    \<and> isSightClear m p q True = isSightClear m q p True
    \<and> isSightClear m p q True
      = Inr ((\<forall>i \<in> {0<..<line_length p q}. \<not> stops (map_content m (line_point p q i)))
           \<or> (\<forall>i \<in> {0<..<line_length p q}. \<not> stops (map_content m (line_point q p i))))"
proof -
  have "line_length q p = line_length p q" by (simp add: line_length_def abs_minus_commute)
  then show ?thesis
    using line_on_floor [OF assms] line_on_floor [OF assms(1,3,2) assms(4) [symmetric]] assms(4)
    by (simp add: isSightClear_def) blast
qed

lemma sight_line_is_digital_line_witness:
  "checkSightLine map_new \<lparr>pos_x = 10, pos_y = 10, pos_z = 7\<rparr> \<lparr>pos_x = 20, pos_y = 13, pos_z = 7\<rparr> = Inr True"
  using sight_line_is_digital_line [OF map_new_ok, of "\<lparr>pos_x = 10, pos_y = 10, pos_z = 7\<rparr>"
      "\<lparr>pos_x = 20, pos_y = 13, pos_z = 7\<rparr>"]
  by (simp add: position_isValid_iff map_new_content stops_def)

lemma canThrowObjectTo_total:
  assumes "map_ok m" "position_isValid p" "position_isValid q"
  shows "\<exists>b. canThrowObjectTo m p q los rangeX rangeY = Inr b"
  using checkSightLine_total [OF assms] checkSightLine_total [OF assms(1,3,2)]
  by (auto simp: canThrowObjectTo_def isSightClear_def Let_def)

section \<open>Lines between floors\<close>

text \<open>
  When the floors differ by more than the columns, the code swaps the x axis with the floors; the
  floor of a position has eight bits, and the column is cut to them.
\<close>

definition cut_column :: "u16 \<Rightarrow> u16" where
  "cut_column x = ucast (ucast x :: u8)"

definition next_row :: "u16 \<Rightarrow> u16 \<Rightarrow> u16" where
  "next_row y y' = (if y' = y then y else if y < y' then y + 1 else y - 1)"

lemma uint_ucast_8_16 [simp]: "uint (ucast (b :: u8) :: u16) = uint b"
  by (metis of_nat_unat unat_ucast_8_16)

lemma uint_next_row: "uint (next_row y y') = uint y + (if y' = y then 0 else if uint y < uint y' then 1 else - 1)"
proof -
  have "uint (y + 1) = uint y + 1" if "y < y'"
  proof -
    have "uint y + 1 < 65536" using that uint_bounded [of y'] by (simp add: word_less_def)
    then show ?thesis by (simp add: uint_word_ariths)
  qed
  moreover have "uint (y - 1) = uint y - 1" if "y' < y"
    using that by (intro uint_dec_u16) auto
  ultimately show ?thesis by (auto simp: next_row_def word_less_def not_less word_uint_eq_iff)
qed

lemma cast_vertical:
  assumes "pos_x q = pos_x p" "\<bar>uint (pos_z p) - uint (pos_z q)\<bar> = 1"
  shows "cast_ray p q =
    (\<lparr>y_dir = 2, y_sx = uint (pos_z q) - uint (pos_z p),
       y_sy = (if uint (pos_y p) < uint (pos_y q) then 1 else - 1), y_sz = - 1,
       y_dx = 1, y_dy = \<bar>uint (pos_y p) - uint (pos_y q)\<bar>, y_dz = 0, y_endX = uint (pos_z q)\<rparr>,
     \<lparr>r_x = uint (pos_z p), r_y = uint (pos_y p), r_z = uint (cut_column (pos_x p)), r_ey = 0, r_ez = 0,
       r_lastrx = 0, r_lastry = 0, r_lastrz = 0\<rparr>)"
proof -
  have "uint (pos_z q) - uint (pos_z p) = 1 \<or> uint (pos_z q) - uint (pos_z p) = - 1"
    using assms(2) by linarith
  then show ?thesis
    using assms(2)
    by (auto simp: cast_ray_def Let_def swap_axes_def word_less_def assms(1) cut_column_def)
qed

text \<open>
  C8: a line from a position to one on the floor directly above or directly below it in the same
  column, from column 256 on, looks into another column: the code keeps the column in the eight
  bits of a floor, so it reads the column modulo 256, and it visits only the row of the start and
  the next one instead of all rows to the target.  What stands in the way does not count; what
  stands elsewhere does.  (The one start left out is the corner of the map's top floor whose
  column is a multiple of 256 and whose row is 0: the code takes its coordinates for unset ones.)
\<close>

theorem cross_floor_line_goes_astray:
  fixes m p q
  defines "at y z \<equiv> map_content m \<lparr>pos_x = cut_column (pos_x p), pos_y = y, pos_z = z\<rparr>"
  assumes ok: "map_ok m" and valid: "position_isValid p" "position_isValid q"
    and column: "pos_x q = pos_x p" "256 \<le> pos_x p" and level: "\<bar>uint (pos_z p) - uint (pos_z q)\<bar> = 1"
    and corner: "cut_column (pos_x p) \<noteq> 0 \<or> pos_y p \<noteq> 0 \<or> pos_z p \<noteq> 0"
  shows "checkSightLine m p q
    = Inr (\<not> stops (at (pos_y p) (pos_z p)) \<and> at (pos_y p) (min (pos_z p) (pos_z q)) = None
           \<and> \<not> stops (at (next_row (pos_y p) (pos_y q)) (pos_z q)))"
proof -
  let ?c = "cut_column (pos_x p)" and ?y1 = "next_row (pos_y p) (pos_y q)"
  let ?y = "fst (cast_ray p q)" and ?s = "snd (cast_ray p q)"
  let ?low = "min (pos_z p) (pos_z q)"
  note cast = cast_vertical [OF column(1) level]
  have z: "pos_z p \<le> 15" "pos_z q \<le> 15" using valid by (simp_all add: position_isValid_iff)
  have "uint ?c < 256" using uint_bounded [of "ucast (pos_x p) :: u8"] by (simp add: cut_column_def)
  moreover have "256 \<le> uint (pos_x p)" using column(2) by (simp add: word_le_def)
  ultimately have c: "uint ?c \<noteq> uint (pos_x p)" by simp
  have zpq: "uint (pos_z p) \<noteq> uint (pos_z q)" using level by auto
  have low: "min (uint (pos_z p)) (uint (pos_z q)) = uint ?low" by (simp add: min_def word_le_def)
  have set: "\<not> (uint ?c = 0 \<and> uint (pos_y p) = 0 \<and> uint (pos_z p) = 0)"
    using corner by (auto simp: word_uint_eq_iff)
  have tiles: "getTile_xyz m (uint ?c) (uint y) (uint z) = Inr (at y z)" if "z \<le> 15" for y z
    unfolding at_def using getTile_xyz_spec [OF ok] that by blast
  have zl: "?low \<le> 15" using z by (simp add: min_def)
  define s1 where "s1 = ray_remember (uint ?c, uint (pos_y p), uint (pos_z p)) ?s"
  have turn1: "ray_blocked m p q ?y ?s = Inr (stops (at (pos_y p) (pos_z p)), s1)"
    using c tiles [OF z(1), of "pos_y p"] column(1)
    by (simp add: ray_blocked_def cast ray_point_def Let_def ray_remember_def s1_def stops_def)
  define s2 where "s2 = ray_advance ?y s1"
  have s2: "r_x s2 = uint (pos_z q)" "r_y s2 = uint ?y1" "r_z s2 = uint ?c" "r_lastrx s2 = uint ?c"
    "r_lastry s2 = uint (pos_y p)" "r_lastrz s2 = uint (pos_z p)"
    unfolding s2_def s1_def
    by (auto simp: cast ray_advance_def Let_def ray_remember_def uint_next_row word_uint_eq_iff)
  have turn2: "\<exists>s3. ray_blocked m p q ?y s2 = Inr (at (pos_y p) ?low \<noteq> None \<or> stops (at ?y1 (pos_z q)), s3)
      \<and> r_x s3 = r_x s2"
    using tiles [OF zl, of "pos_y p"] tiles [OF z(2), of ?y1] zpq set
    by (auto simp: ray_blocked_def cast ray_point_def Let_def ray_remember_def s2 stops_def low)
  then obtain s3 where s3: "ray_blocked m p q ?y s2
      = Inr (at (pos_y p) ?low \<noteq> None \<or> stops (at ?y1 (pos_z q)), s3)" "r_x s3 = r_x s2" by blast
  have "ray_loop (Suc (Suc (Suc 0))) m p q ?y ?s = Inr (\<not> stops (at (pos_y p) (pos_z p)) \<and> at (pos_y p) ?low = None
           \<and> \<not> stops (at ?y1 (pos_z q)))"
  proof -
    have ends: "r_x ?s \<noteq> y_endX ?y + y_sx ?y" "r_x s2 \<noteq> y_endX ?y + y_sx ?y"
      "r_x (ray_advance ?y s3) = y_endX ?y + y_sx ?y"
      using s3(2) s2(1) level by (simp_all add: cast ray_advance_def Let_def)
    show ?thesis using ends turn1 s3(1) by (simp add: s2_def [symmetric])
  qed
  moreover have "nat \<bar>y_endX ?y - r_x ?s\<bar> + 2 = Suc (Suc (Suc 0))" using level by (simp add: cast abs_minus_commute)
  ultimately show ?thesis
    using valid by (simp add: checkSightLine_def position_copy_def case_prod_beta del: ray_loop.simps)
qed

lemma cross_floor_line_goes_astray_witness:
  "checkSightLine map_new \<lparr>pos_x = 1000, pos_y = 100, pos_z = 7\<rparr> \<lparr>pos_x = 1000, pos_y = 105, pos_z = 6\<rparr>
    = Inr True
   \<and> checkSightLine map_new \<lparr>pos_x = 1000, pos_y = 100, pos_z = 7\<rparr> \<lparr>pos_x = 1000, pos_y = 105, pos_z = 8\<rparr>
    = Inr True"
  using cross_floor_line_goes_astray [OF map_new_ok, of "\<lparr>pos_x = 1000, pos_y = 100, pos_z = 7\<rparr>"
      "\<lparr>pos_x = 1000, pos_y = 105, pos_z = 6\<rparr>"]
    cross_floor_line_goes_astray [OF map_new_ok, of "\<lparr>pos_x = 1000, pos_y = 100, pos_z = 7\<rparr>"
      "\<lparr>pos_x = 1000, pos_y = 105, pos_z = 8\<rparr>"]
  by (simp add: position_isValid_iff map_new_content stops_def)

end
