(* ===== verification/Path_Search.thy ===== *)
theory Path_Search
  imports Path_Finding
begin

text \<open>
  What both path searches share: the invariant of the node pool, the effect of relaxing one
  neighbour, and the potential that every turn of a search lowers.  The searches differ in the
  field that holds the cost of a node; it is the parameter \<open>key\<close> below.
\<close>

section \<open>The invariant of the pool\<close>

definition node_place :: "u8 \<Rightarrow> astar_node \<Rightarrow> position" where
  "node_place z n = \<lparr>pos_x = n_x n, pos_y = n_y n, pos_z = z\<rparr>"

definition adjacent :: "position \<Rightarrow> position \<Rightarrow> bool" where
  "adjacent p q \<longleftrightarrow>
     (uint (pos_x q) - uint (pos_x p), uint (pos_y q) - uint (pos_y p)) \<in> set neighbourOrderList"

text \<open>
  A node other than the first one hangs below a parent next to it, at a higher cost, at a
  place that may be entered.
\<close>

definition hangs ::
  "(astar_node \<Rightarrow> int) \<Rightarrow> u8 \<Rightarrow> (position \<Rightarrow> bool) \<Rightarrow> astar_node list \<Rightarrow> astar_node \<Rightarrow> nat \<Rightarrow> bool" where
  "hangs key z P ns n p \<longleftrightarrow>
     p < length ns \<and> key (ns ! p) + 10 \<le> key n \<and> adjacent (node_place z (ns ! p)) (node_place z n) \<and> P (node_place z n)"

definition pool_ok ::
  "(astar_node \<Rightarrow> int) \<Rightarrow> position \<Rightarrow> (position \<Rightarrow> bool) \<Rightarrow> astar_nodes \<Rightarrow> bool" where
  "pool_ok key start P a \<longleftrightarrow>
     length (a_open a) = length (a_nodes a) \<and> a_nodes a \<noteq> [] \<and> length (a_nodes a) \<le> MAX_NODES
     \<and> node_place (pos_z start) (a_nodes a ! 0) = start \<and> n_parent (a_nodes a ! 0) = None \<and> key (a_nodes a ! 0) = 0
     \<and> (\<forall>i < length (a_nodes a). 0 \<le> key (a_nodes a ! i) \<and> key (a_nodes a ! i) \<le> 85 * int i)
     \<and> (\<forall>i < length (a_nodes a). 0 < i \<longrightarrow>
          (\<exists>p. n_parent (a_nodes a ! i) = Some p \<and> hangs key (pos_z start) P (a_nodes a) (a_nodes a ! i) p))
     \<and> distinct (map (node_place (pos_z start)) (a_nodes a))"

lemma node_at_Some: "node_at x y ns = Some k \<Longrightarrow> k < length ns \<and> n_x (ns ! k) = x \<and> n_y (ns ! k) = y"
  by (induction ns arbitrary: k) (auto split: if_splits)

lemma node_at_None: "node_at x y ns = None \<longleftrightarrow> (\<forall>n \<in> set ns. \<not> (n_x n = x \<and> n_y n = y))"
  by (induction ns) auto

lemma place_eq: "node_place z n = node_place z n' \<longleftrightarrow> n_x n = n_x n' \<and> n_y n = n_y n'"
  by (simp add: node_place_def)

lemma place_sel [simp]: "pos_x (node_place z n) = n_x n" "pos_y (node_place z n) = n_y n" "pos_z (node_place z n) = z"
  by (simp_all add: node_place_def)

text \<open>Relaxing: a node is improved and reopened, or a new one is added.\<close>

definition fits ::
  "(astar_node \<Rightarrow> int) \<Rightarrow> u8 \<Rightarrow> (position \<Rightarrow> bool) \<Rightarrow> astar_nodes \<Rightarrow> nat \<Rightarrow> astar_node \<Rightarrow> bool" where
  "fits key z P a n node \<longleftrightarrow> n_parent node = Some n \<and> hangs key z P (a_nodes a) node n
     \<and> key node \<le> key (a_nodes a ! n) + 85"

definition improve :: "nat \<Rightarrow> astar_node \<Rightarrow> astar_nodes \<Rightarrow> astar_nodes" where
  "improve k node a = a\<lparr>a_nodes := (a_nodes a)[k := node], a_open := (a_open a)[k := True]\<rparr>"

definition extend :: "astar_node \<Rightarrow> astar_nodes \<Rightarrow> astar_nodes" where
  "extend node a = \<lparr>a_nodes = a_nodes a @ [node], a_open = a_open a @ [True]\<rparr>"

inductive relaxed ::
  "(astar_node \<Rightarrow> int) \<Rightarrow> u8 \<Rightarrow> (position \<Rightarrow> bool) \<Rightarrow> nat \<Rightarrow> astar_nodes \<Rightarrow> astar_nodes \<Rightarrow> bool"
  for key z P n where
  same: "relaxed key z P n a a"
| better: "relaxed key z P n a (improve k node a)"
  if "k < length (a_nodes a)" "fits key z P a n node" "node_place z node = node_place z (a_nodes a ! k)"
    "key node < key (a_nodes a ! k)"
| further: "relaxed key z P n a (extend node a)"
  if "length (a_nodes a) < MAX_NODES" "fits key z P a n node" "node_place z node \<notin> node_place z ` set (a_nodes a)"

inductive_cases relaxedE: "relaxed key z P n a a'"

text \<open>The potential.\<close>

definition total_key :: "(astar_node \<Rightarrow> int) \<Rightarrow> astar_nodes \<Rightarrow> int" where
  "total_key key a = sum_list (map key (a_nodes a))"

definition potential :: "(astar_node \<Rightarrow> int) \<Rightarrow> astar_nodes \<Rightarrow> int" where
  "potential key a = int (MAX_NODES - length (a_nodes a)) * 43521 + total_key key a"

definition open_count :: "astar_nodes \<Rightarrow> nat" where
  "open_count a = length (filter (\<lambda>b. b) (a_open a))"

definition search_measure :: "(astar_node \<Rightarrow> int) \<Rightarrow> astar_nodes \<Rightarrow> nat" where
  "search_measure key a = nat (potential key a) * 513 + open_count a"

lemma adjacent_not_same: "adjacent p q \<Longrightarrow> p \<noteq> q"
  by (auto simp: adjacent_def neighbourOrderList_def)

lemma poolD:
  assumes "pool_ok key start P a"
  shows "length (a_open a) = length (a_nodes a)" "0 < length (a_nodes a)" "length (a_nodes a) \<le> MAX_NODES"
    "node_place (pos_z start) (a_nodes a ! 0) = start" "n_parent (a_nodes a ! 0) = None" "key (a_nodes a ! 0) = 0"
    "i < length (a_nodes a) \<Longrightarrow> 0 \<le> key (a_nodes a ! i)"
    "i < length (a_nodes a) \<Longrightarrow> key (a_nodes a ! i) \<le> 85 * int i"
    "i < length (a_nodes a) \<Longrightarrow> 0 < i \<Longrightarrow>
       \<exists>p. n_parent (a_nodes a ! i) = Some p \<and> hangs key (pos_z start) P (a_nodes a) (a_nodes a ! i) p"
    "distinct (map (node_place (pos_z start)) (a_nodes a))"
  using assms unfolding pool_ok_def by blast+

text \<open>Nothing hangs the start: its cost is zero, and a node that fits costs more.\<close>

lemma improve_facts:
  assumes ok: "pool_ok key start P a" and k: "k < length (a_nodes a)"
    and fits: "fits key (pos_z start) P a n node"
    and same: "node_place (pos_z start) node = node_place (pos_z start) (a_nodes a ! k)"
    and less: "key node < key (a_nodes a ! k)"
  shows "0 < k" "k \<noteq> n" "0 \<le> key node"
proof -
  have n: "n < length (a_nodes a)" "key (a_nodes a ! n) + 10 \<le> key node"
    "adjacent (node_place (pos_z start) (a_nodes a ! n)) (node_place (pos_z start) node)"
    using fits by (simp_all add: fits_def hangs_def)
  show "0 \<le> key node" using poolD(7) [OF ok n(1)] n(2) by simp
  then show "0 < k" using less poolD(6) [OF ok] by (cases k) auto
  show "k \<noteq> n" using adjacent_not_same [OF n(3)] same by auto
qed

lemma hangs_improve:
  assumes "hangs key z P (a_nodes a) node p" "k < length (a_nodes a)"
    "node_place z node' = node_place z (a_nodes a ! k)" "key node' \<le> key (a_nodes a ! k)"
  shows "hangs key z P ((a_nodes a)[k := node']) node p"
  using assms by (auto simp: hangs_def nth_list_update)

lemma relaxed_pool:
  assumes "relaxed key (pos_z start) P n a a'" "pool_ok key start P a"
  shows "pool_ok key start P a'"
  using assms
proof (induction rule: relaxed.induct)
  case (better k a node)
  note facts = improve_facts [OF better.prems better.hyps]
  have n: "n < length (a_nodes a)" "hangs key (pos_z start) P (a_nodes a) node n" "n_parent node = Some n"
    using better.hyps(2) by (simp_all add: fits_def hangs_def)
  have "map (node_place (pos_z start)) ((a_nodes a)[k := node]) = map (node_place (pos_z start)) (a_nodes a)"
    using better.hyps(3) by (metis list_update_id map_update)
  then have "distinct (map (node_place (pos_z start)) ((a_nodes a)[k := node]))"
    using poolD(10) [OF better.prems] by simp
  moreover have "\<exists>p. n_parent ((a_nodes a)[k := node] ! i) = Some p
      \<and> hangs key (pos_z start) P ((a_nodes a)[k := node]) ((a_nodes a)[k := node] ! i) p"
    if "i < length (a_nodes a)" "0 < i" for i
    using poolD(9) [OF better.prems that] hangs_improve [OF _ better.hyps(1,3) less_imp_le [OF better.hyps(4)]]
      n facts that by (cases "i = k") auto
  moreover have "0 \<le> key ((a_nodes a)[k := node] ! i) \<and> key ((a_nodes a)[k := node] ! i) \<le> 85 * int i"
    if "i < length (a_nodes a)" for i
    using poolD(7,8) [OF better.prems that] facts better.hyps(4) that by (cases "i = k") auto
  ultimately show ?case
    using better.prems facts(1) unfolding pool_ok_def improve_def by simp
next
  case (further a node)
  have n: "n < length (a_nodes a)" "key (a_nodes a ! n) + 10 \<le> key node" "key node \<le> key (a_nodes a ! n) + 85"
    "n_parent node = Some n" "hangs key (pos_z start) P (a_nodes a) node n"
    using further.hyps(2) by (simp_all add: fits_def hangs_def)
  have hangs: "hangs key (pos_z start) P (a_nodes a @ [node]) x p"
    if "hangs key (pos_z start) P (a_nodes a) x p" for x p
    using that by (simp add: hangs_def nth_append)
  have "key node \<le> 85 * int (length (a_nodes a))"
  proof -
    have "85 * int n + 85 \<le> 85 * int (length (a_nodes a))" using n(1) by simp
    then show ?thesis using poolD(8) [OF further.prems n(1)] n(3) by simp
  qed
  moreover have "0 \<le> key node" using poolD(7) [OF further.prems n(1)] n(2) by simp
  ultimately have "0 \<le> key ((a_nodes a @ [node]) ! i) \<and> key ((a_nodes a @ [node]) ! i) \<le> 85 * int i"
    if "i < Suc (length (a_nodes a))" for i
    using poolD(7,8) [OF further.prems, of i] that by (cases "i < length (a_nodes a)") (auto simp: nth_append less_Suc_eq)
  moreover have "\<exists>p. n_parent ((a_nodes a @ [node]) ! i) = Some p
      \<and> hangs key (pos_z start) P (a_nodes a @ [node]) ((a_nodes a @ [node]) ! i) p"
    if "i < Suc (length (a_nodes a))" "0 < i" for i
    using poolD(9) [OF further.prems, of i] that n hangs
    by (cases "i < length (a_nodes a)") (auto simp: nth_append less_Suc_eq)
  ultimately show ?case
    using poolD(1-6,10) [OF further.prems] further.hyps(1,3) unfolding pool_ok_def extend_def by (auto simp: nth_append)
qed

lemma relaxed_current:
  assumes "relaxed key (pos_z start) P n a a'" "pool_ok key start P a" "n < length (a_nodes a)"
  shows "a_nodes a' ! n = a_nodes a ! n \<and> a_open a' ! n = a_open a ! n \<and> length (a_nodes a) \<le> length (a_nodes a')"
  using assms
proof (induction rule: relaxed.induct)
  case (better k a node)
  then show ?case using improve_facts(2) [OF better.prems(1) better.hyps] by (simp add: improve_def)
qed (simp_all add: extend_def nth_append poolD(1))

section \<open>Every turn lowers the potential\<close>

lemma sum_list_update_int: "k < length xs \<Longrightarrow> sum_list (xs[k := x]) = sum_list xs + x - (xs ! k :: int)"
  by (induction xs arbitrary: k) (auto simp: nth_Cons split: nat.splits)

lemma potential_relaxed:
  assumes "relaxed key (pos_z start) P n a a'" "pool_ok key start P a"
  shows "a' = a \<or> potential key a' < potential key a"
  using assms
proof (induction rule: relaxed.induct)
  case (better k a node)
  then show ?case
    by (simp add: potential_def total_key_def improve_def map_update sum_list_update_int)
next
  case (further a node)
  have "n < length (a_nodes a)" "key node \<le> key (a_nodes a ! n) + 85"
    using further.hyps(2) by (simp_all add: fits_def hangs_def)
  then have "key node \<le> 85 * int n + 85" "n + 1 \<le> 512"
    using poolD(8) [OF further.prems, of n] further.hyps(1) by (simp_all add: MAX_NODES_def)
  then have "key node < 43521" by linarith
  moreover have "int (MAX_NODES - length (a_nodes a)) = int (MAX_NODES - Suc (length (a_nodes a))) + 1"
    using further.hyps(1) by simp
  ultimately show ?case
    by (simp add: potential_def total_key_def extend_def)
qed simp

lemma potential_nonneg: "pool_ok key start P a \<Longrightarrow> 0 \<le> potential key a"
proof -
  assume ok: "pool_ok key start P a"
  have "0 \<le> sum_list (map key (a_nodes a))"
    using poolD(7) [OF ok] by (intro sum_list_nonneg) (auto simp: in_set_conv_nth)
  then show ?thesis by (simp add: potential_def total_key_def)
qed

lemma relaxed_star:
  assumes "(relaxed key (pos_z start) P n)\<^sup>*\<^sup>* a a'" "pool_ok key start P a" "n < length (a_nodes a)"
  shows "pool_ok key start P a' \<and> a_nodes a' ! n = a_nodes a ! n \<and> a_open a' ! n = a_open a ! n
    \<and> n < length (a_nodes a') \<and> (a' = a \<or> potential key a' < potential key a)"
  using assms
proof (induction rule: rtranclp_induct)
  case (step a1 a2)
  then have ok: "pool_ok key start P a1" "n < length (a_nodes a1)" by simp_all
  show ?case
    using step relaxed_pool [OF step.hyps(2) ok(1)] relaxed_current [OF step.hyps(2) ok]
      potential_relaxed [OF step.hyps(2) ok(1)] by auto
qed simp

lemma closeNode_pool: "pool_ok key start P a \<Longrightarrow> pool_ok key start P (closeNode n a)"
  by (simp add: pool_ok_def closeNode_def)

lemma open_count_le: "pool_ok key start P a \<Longrightarrow> open_count a \<le> 512"
  using poolD(1,3) [of key start P a] length_filter_le [of "\<lambda>b. b" "a_open a"]
  by (simp add: open_count_def MAX_NODES_def)

lemma open_count_close:
  assumes "n < length xs" "xs ! n"
  shows "length (filter (\<lambda>b. b) (xs[n := False])) < length (filter (\<lambda>b. b) xs)"
  using assms by (induction xs arbitrary: n) (auto simp: nth_Cons split: nat.splits)

lemma turn_decreases:
  assumes star: "(relaxed key (pos_z start) P n)\<^sup>*\<^sup>* a a'" and ok: "pool_ok key start P a"
    and n: "n < length (a_nodes a)" "a_open a ! n"
  shows "search_measure key (closeNode n a') < search_measure key a"
proof -
  note facts = relaxed_star [OF star ok n(1)]
  have ok': "pool_ok key start P (closeNode n a')" using facts closeNode_pool by blast
  have pot: "potential key (closeNode n a') = potential key a'"
    by (simp add: potential_def total_key_def closeNode_def)
  have len: "n < length (a_open a')" "n < MAX_NODES"
    using facts poolD(1,3) [of key start P a'] by auto
  show ?thesis
  proof (cases "a' = a")
    case True
    then have "open_count (closeNode n a') < open_count a"
      using open_count_close [of n "a_open a"] len n(2) by (simp add: open_count_def closeNode_def)
    then show ?thesis using pot True by (simp add: search_measure_def)
  next
    case False
    then have "potential key (closeNode n a') < potential key a" using facts pot by simp
    then have "Suc (nat (potential key (closeNode n a'))) \<le> nat (potential key a)"
      using potential_nonneg [OF ok'] by simp
    then show ?thesis using open_count_le [OF ok'] by (simp add: search_measure_def)
  qed
qed

section \<open>The best node\<close>

lemma best_loop_spec:
  assumes "\<And>n. best = Some n \<Longrightarrow> n < length (a_nodes a) \<and> a_open a ! n"
    "\<forall>i \<in> set is. i < length (a_nodes a)"
  shows "case best_loop a is bound best of
      Some n \<Rightarrow> n < length (a_nodes a) \<and> a_open a ! n
    | None \<Rightarrow> best = None \<and> (\<forall>i \<in> set is. a_open a ! i \<longrightarrow> bound \<le> n_f (a_nodes a ! i))"
  using assms
proof (induction "is" arbitrary: bound best)
  case (Cons i "is")
  show ?case
  proof (cases "n_f (a_nodes a ! i) < bound \<and> a_open a ! i")
    case True
    then show ?thesis using Cons.IH [of "Some i" "n_f (a_nodes a ! i)"] Cons.prems
      by (auto split: option.splits)
  next
    case False
    then show ?thesis using Cons.IH [of best bound] Cons.prems by (auto split: option.splits)
  qed
qed (auto split: option.splits)

lemma getBestNode_Some: "getBestNode a = Some n \<Longrightarrow> n < length (a_nodes a) \<and> a_open a ! n"
  using best_loop_spec [of None a "[0..<length (a_nodes a)]" 100000] by (simp add: getBestNode_def)

lemma getBestNode_None: "getBestNode a = None \<Longrightarrow> i < length (a_nodes a) \<Longrightarrow> a_open a ! i \<Longrightarrow> 100000 \<le> n_f (a_nodes a ! i)"
  using best_loop_spec [of None a "[0..<length (a_nodes a)]" 100000] by (simp add: getBestNode_def)

section \<open>Costs and neighbours\<close>

lemma tile_cost: "0 \<le> getTileWalkCost w t" "getTileWalkCost w t \<le> 60"
  by (auto simp: getTileWalkCost_def MAP_NORMALWALKCOST_def split: option.splits)

lemma map_cost: "10 \<le> getMapWalkCost n p" "getMapWalkCost n p \<le> 25"
  by (simp_all add: getMapWalkCost_def MAP_NORMALWALKCOST_def MAP_DIAGONALWALKCOST_def)

lemma neighbour_range: "(dx, dy) \<in> set neighbourOrderList \<Longrightarrow> \<bar>dx\<bar> \<le> 1 \<and> \<bar>dy\<bar> \<le> 1"
  by (auto simp: neighbourOrderList_def)

lemma uint_neighbour:
  "0 \<le> v \<Longrightarrow> v \<le> 60000 \<Longrightarrow> uint (word_of_int v :: u16) = v"
  by (simp add: uint_word_of_int)

text \<open>A step to a neighbour and the direction that the routes record for it.\<close>

lemma step_cases:
  assumes "adjacent p q" "pos_z p = pos_z q"
  defines "dx \<equiv> uint (pos_x p) - uint (pos_x q)" and "dy \<equiv> uint (pos_y p) - uint (pos_y q)"
  shows "\<exists>d. direction_to dx dy = [d] \<and> moved d q = p"
    and "\<exists>d. direction_from dx dy = [d] \<and> moved d p = q"
proof -
  have x: "pos_x p = pos_x q + word_of_int dx" "pos_y p = pos_y q + word_of_int dy"
    unfolding dx_def dy_def by (simp_all add: wi_hom_syms)
  have eqI: "pos_x r = pos_x r' \<Longrightarrow> pos_y r = pos_y r' \<Longrightarrow> pos_z r = pos_z r' \<Longrightarrow> r = r'" for r r' :: position
    by (cases r; cases r') simp
  have "(- dx, - dy) \<in> set neighbourOrderList" using assms(1) by (simp add: adjacent_def dx_def dy_def)
  then have steps: "(dx, dy) \<in> {(1, 0), (0, - 1), (- 1, 0), (0, 1), (1, 1), (- 1, 1), (- 1, - 1), (1, - 1)}"
    by (auto simp: neighbourOrderList_def)
  show "\<exists>d. direction_to dx dy = [d] \<and> moved d q = p"
    using steps x assms(2) by (elim insertE) (simp_all add: direction_to_def eqI)
  show "\<exists>d. direction_from dx dy = [d] \<and> moved d p = q"
    using steps x assms(2) by (elim insertE) (simp_all add: direction_from_def eqI)
qed

section \<open>The pool as a set of places\<close>

abbreviation places :: "u8 \<Rightarrow> astar_nodes \<Rightarrow> position set" where
  "places z a \<equiv> node_place z ` set (a_nodes a)"

lemma relaxed_places: "relaxed key z P n a a' \<Longrightarrow> places z a \<subseteq> places z a'"
proof (induction rule: relaxed.induct)
  case (better k a node)
  show ?case
  proof
    fix p assume "p \<in> places z a"
    then obtain i where i: "i < length (a_nodes a)" "p = node_place z (a_nodes a ! i)" by (auto simp: in_set_conv_nth)
    then have "p = node_place z ((a_nodes a)[k := node] ! i)" using better.hyps(1,3) by (cases "i = k") auto
    moreover have "(a_nodes a)[k := node] ! i \<in> set (a_nodes (improve k node a))"
      using i(1) by (simp add: improve_def)
    ultimately show "p \<in> places z (improve k node a)" by blast
  qed
qed (auto simp: extend_def)

lemma relaxed_star_places: "(relaxed key z P n)\<^sup>*\<^sup>* a a' \<Longrightarrow> places z a \<subseteq> places z a'"
proof (induction rule: rtranclp_induct)
  case (step a1 a2)
  show ?case using step.IH relaxed_places [OF step.hyps(2)] by (rule subset_trans)
qed simp

lemma getNodeInList_None: "getNodeInList a (pos_x p) (pos_y p) = None \<longleftrightarrow> p \<notin> places (pos_z p) a"
  by (cases p) (auto simp: getNodeInList_def node_at_None node_place_def)

lemma getNodeInList_Some:
  "getNodeInList a (pos_x p) (pos_y p) = Some k \<Longrightarrow> k < length (a_nodes a) \<and> node_place (pos_z p) (a_nodes a ! k) = p"
  by (cases p) (auto simp: getNodeInList_def node_place_def dest: node_at_Some)

lemma improve_places: "k < length (a_nodes a) \<Longrightarrow> node_place z node \<in> places z (improve k node a)"
  by (intro imageI) (simp add: improve_def set_update_memI)

lemma improve_set: "set (a_nodes (improve k node a)) \<subseteq> insert node (set (a_nodes a))"
  by (simp add: improve_def set_update_subset_insert)

lemma open_improve:
  "k < MAX_NODES \<Longrightarrow> (openNode k a)\<lparr>a_nodes := (a_nodes (openNode k a))[k := f (a_nodes (openNode k a) ! k)]\<rparr>
    = improve k (f (a_nodes a ! k)) a"
  by (simp add: openNode_def improve_def)

lemma create_extend:
  "createOpenNode a = Some (k, a1) \<Longrightarrow> a1\<lparr>a_nodes := (a_nodes a1)[k := f (a_nodes a1 ! k)]\<rparr> = extend (f blank_node) a"
  by (auto simp: createOpenNode_def extend_def split: if_splits)

text \<open>Both searches store a place in the same way; \<open>f\<close> fills in a node.\<close>

lemma store_relaxed:
  assumes ok: "pool_ok key start P a" and z: "pos_z q = pos_z start"
    and fits: "\<And>node. fits key (pos_z start) P a n (f node)" and pos: "\<And>node. node_place (pos_z start) (f node) = q"
    and cost: "\<And>node. key (f node) = newcost"
  shows "getNodeInList a (pos_x q) (pos_y q) = Some k \<Longrightarrow> \<not> key (a_nodes a ! k) \<le> newcost \<Longrightarrow>
      relaxed key (pos_z start) P n a
        ((openNode k a)\<lparr>a_nodes := (a_nodes (openNode k a))[k := f (a_nodes (openNode k a) ! k)]\<rparr>)"
    and "getNodeInList a (pos_x q) (pos_y q) = None \<Longrightarrow> createOpenNode a = Some (k, a1) \<Longrightarrow>
      relaxed key (pos_z start) P n a (a1\<lparr>a_nodes := (a_nodes a1)[k := f (a_nodes a1 ! k)]\<rparr>)"
proof -
  assume k: "getNodeInList a (pos_x q) (pos_y q) = Some k" "\<not> key (a_nodes a ! k) \<le> newcost"
  note kk = getNodeInList_Some [OF k(1)]
  then have k_less: "k < MAX_NODES" using poolD(3) [OF ok] by simp
  show "relaxed key (pos_z start) P n a
        ((openNode k a)\<lparr>a_nodes := (a_nodes (openNode k a))[k := f (a_nodes (openNode k a) ! k)]\<rparr>)"
    unfolding open_improve [OF k_less] using kk k(2) fits pos cost z by (intro relaxed.better) auto
next
  assume new: "getNodeInList a (pos_x q) (pos_y q) = None" "createOpenNode a = Some (k, a1)"
  have "length (a_nodes a) < MAX_NODES" using new(2) by (auto simp: createOpenNode_def split: if_splits)
  then show "relaxed key (pos_z start) P n a (a1\<lparr>a_nodes := (a_nodes a1)[k := f (a_nodes a1 ! k)]\<rparr>)"
    unfolding create_extend [OF new(2)] using new(1) fits pos z
    by (intro relaxed.further) (auto simp: getNodeInList_None)
qed

text \<open>Storing as one function: the pool after it, \<open>None\<close> when it is used up.\<close>

definition store_place ::
  "(astar_node \<Rightarrow> int) \<Rightarrow> (astar_node \<Rightarrow> astar_node) \<Rightarrow> int \<Rightarrow> position \<Rightarrow> astar_nodes \<Rightarrow> astar_nodes option" where
  "store_place key f newcost q a =
     (case getNodeInList a (pos_x q) (pos_y q) of
        Some k \<Rightarrow>
          if key (a_nodes a ! k) \<le> newcost then Some a
          else Some ((openNode k a)\<lparr>a_nodes := (a_nodes (openNode k a))[k := f (a_nodes (openNode k a) ! k)]\<rparr>)
      | None \<Rightarrow>
          (case createOpenNode a of None \<Rightarrow> None
           | Some (k, a) \<Rightarrow> Some (a\<lparr>a_nodes := (a_nodes a)[k := f (a_nodes a ! k)]\<rparr>)))"

lemma store_place_spec:
  assumes ok: "pool_ok key start P a" and z: "pos_z q = pos_z start"
    and fits: "\<And>node. fits key (pos_z start) P a n (f node)" and node_place: "\<And>node. node_place (pos_z start) (f node) = q"
    and cost: "\<And>node. key (f node) = newcost"
  shows "(\<exists>a'. store_place key f newcost q a = Some a' \<and> relaxed key (pos_z start) P n a a'
       \<and> q \<in> places (pos_z start) a' \<and> set (a_nodes a') \<subseteq> set (a_nodes a) \<union> range f)
    \<or> store_place key f newcost q a = None \<and> length (a_nodes a) = MAX_NODES"
proof (cases "getNodeInList a (pos_x q) (pos_y q)")
  case None
  show ?thesis
  proof (cases "createOpenNode a")
    case full: None
    then have "length (a_nodes a) = MAX_NODES"
      using poolD(3) [OF ok] by (auto simp: createOpenNode_def split: if_splits)
    then show ?thesis using None full by (simp add: store_place_def)
  next
    case (Some ka)
    obtain k a1 where ka: "createOpenNode a = Some (k, a1)" using Some by (cases ka) simp
    let ?a' = "a1\<lparr>a_nodes := (a_nodes a1)[k := f (a_nodes a1 ! k)]\<rparr>"
    have ext: "?a' = extend (f blank_node) a" by (rule create_extend [OF ka])
    have "q \<in> places (pos_z start) ?a'" unfolding ext extend_def using node_place [of blank_node] by force
    moreover have "set (a_nodes ?a') \<subseteq> set (a_nodes a) \<union> range f" unfolding ext extend_def by auto
    moreover have "relaxed key (pos_z start) P n a ?a'"
      using None ka by (intro store_relaxed(2) [OF ok z, where f = f and newcost = newcost] fits node_place cost)
    moreover have "store_place key f newcost q a = Some ?a'" using None ka by (simp add: store_place_def)
    ultimately show ?thesis by blast
  qed
next
  case (Some k)
  note kk = getNodeInList_Some [OF Some]
  show ?thesis
  proof (cases "key (a_nodes a ! k) \<le> newcost")
    case True
    have "q \<in> places (pos_z start) a" using kk z by (metis image_eqI nth_mem)
    then show ?thesis using Some True relaxed.same by (auto simp: store_place_def)
  next
    case False
    let ?a' = "(openNode k a)\<lparr>a_nodes := (a_nodes (openNode k a))[k := f (a_nodes (openNode k a) ! k)]\<rparr>"
    have "k < MAX_NODES" using kk poolD(3) [OF ok] by simp
    then have imp: "?a' = improve k (f (a_nodes a ! k)) a" by (rule open_improve)
    have "q \<in> places (pos_z start) ?a'"
      unfolding imp using improve_places [of k a "pos_z start" "f (a_nodes a ! k)"] kk unfolding node_place by blast
    moreover have "set (a_nodes ?a') \<subseteq> set (a_nodes a) \<union> range f"
      unfolding imp using improve_set [of k "f (a_nodes a ! k)" a] by blast
    moreover have "store_place key f newcost q a = Some ?a'" using Some False by (simp add: store_place_def)
    moreover have "relaxed key (pos_z start) P n a ?a'"
      using Some False by (intro store_relaxed(1) [OF ok z, where f = f and newcost = newcost] fits node_place cost)
    ultimately show ?thesis by blast
  qed
qed

section \<open>Where the creature can walk\<close>

definition walks :: "game_map \<Rightarrow> walker \<Rightarrow> position \<Rightarrow> bool" where
  "walks m w p \<longleftrightarrow> map_option tile_id (w_tile w) = map_option tile_id (map_content m p)
     \<or> (case map_content m p of None \<Rightarrow> False | Some t \<Rightarrow> tile_canAdd t (w_id w))"

lemma canWalkTo_walks: "map_ok m \<Longrightarrow> canWalkTo m w p = Inr (walks m w p)"
  by (auto simp: canWalkTo_def walks_def map_getTile_spec split: option.splits)

lemma walks_tile: "w_tile w \<noteq> None \<Longrightarrow> walks m w p \<Longrightarrow> \<exists>t. map_content m p = Some t"
  by (auto simp: walks_def split: option.splits)

lemma walks_valid: "w_tile w \<noteq> None \<Longrightarrow> walks m w p \<Longrightarrow> position_isValid p"
  using walks_tile [of w m p] by (auto simp: map_content_def split: if_splits)

section \<open>Following the parents\<close>

text \<open>The places a route passes, without its start.\<close>

fun visited :: "position \<Rightarrow> direction list \<Rightarrow> position list" where
  "visited p [] = []"
| "visited p (d # ds) = moved d p # visited (moved d p) ds"

lemma visited_append: "visited p (ds @ es) = visited p ds @ visited (last (p # visited p ds)) es"
  by (induction p ds rule: visited.induct) auto

lemma visited_Nil [simp]: "visited p ds = [] \<longleftrightarrow> ds = []"
  by (cases ds) auto

lemma parent_step:
  assumes "pool_ok key start P a" "i < length (a_nodes a)" "0 < i"
  obtains p where "n_parent (a_nodes a ! i) = Some p" "p < length (a_nodes a)"
    "nat (key (a_nodes a ! p)) < nat (key (a_nodes a ! i))"
    "adjacent (node_place (pos_z start) (a_nodes a ! p)) (node_place (pos_z start) (a_nodes a ! i))"
    "P (node_place (pos_z start) (a_nodes a ! i))"
proof -
  obtain p where p: "n_parent (a_nodes a ! i) = Some p" "hangs key (pos_z start) P (a_nodes a) (a_nodes a ! i) p"
    using poolD(9) [OF assms] by blast
  then have "0 \<le> key (a_nodes a ! p)" using poolD(7) [OF assms(1)] by (simp add: hangs_def)
  then show thesis using that p by (simp add: hangs_def)
qed

lemma set_butlast_last: "xs \<noteq> [] \<Longrightarrow> set xs = insert (last xs) (set (butlast xs))"
  by (induction xs) auto

section \<open>The explored part of the map\<close>

definition in_box :: "position \<Rightarrow> int \<Rightarrow> position \<Rightarrow> bool" where
  "in_box c d p \<longleftrightarrow> d = - 1 \<or> \<bar>uint (pos_x c) - uint (pos_x p)\<bar> \<le> d \<and> \<bar>uint (pos_y c) - uint (pos_y p)\<bar> \<le> d"

text \<open>The places one step away from a node, in the directions \<open>ds\<close>.\<close>

definition steps_from :: "(int \<times> int) list \<Rightarrow> position \<Rightarrow> position set" where
  "steps_from ds p = {q. pos_z q = pos_z p
     \<and> (uint (pos_x q) - uint (pos_x p), uint (pos_y q) - uint (pos_y p)) \<in> set ds}"

text \<open>Whatever is closed was explored: it meets \<open>Q\<close>, and its neighbours that meet \<open>P\<close> are in the pool.\<close>

definition explored ::
  "(int \<times> int) list \<Rightarrow> (position \<Rightarrow> bool) \<Rightarrow> (position \<Rightarrow> bool) \<Rightarrow> u8 \<Rightarrow> astar_nodes \<Rightarrow> bool" where
  "explored ds P Q z a \<longleftrightarrow>
     (\<forall>i < length (a_nodes a). \<not> a_open a ! i \<longrightarrow>
        Q (node_place z (a_nodes a ! i))
        \<and> steps_from ds (node_place z (a_nodes a ! i)) \<inter> Collect P \<subseteq> places z a)"

lemma explored_relaxed:
  assumes "relaxed key z P' n a a'" "explored ds P Q z a" "length (a_open a) = length (a_nodes a)"
  shows "explored ds P Q z a'"
proof -
  have more: "places z a \<subseteq> places z a'" by (rule relaxed_places [OF assms(1)])
  show ?thesis
    using assms
  proof (cases rule: relaxed.cases)
    case (better k node)
    have "Q (node_place z (a_nodes a' ! i))
        \<and> steps_from ds (node_place z (a_nodes a' ! i)) \<inter> Collect P \<subseteq> places z a'"
      if "i < length (a_nodes a')" "\<not> a_open a' ! i" for i
    proof -
      have "i \<noteq> k" using that better assms(3) by (auto simp: improve_def)
      then have "a_nodes a' ! i = a_nodes a ! i" "\<not> a_open a ! i" "i < length (a_nodes a)"
        using that better by (auto simp: improve_def)
      then show ?thesis using assms(2) more unfolding explored_def by fastforce
    qed
    then show ?thesis unfolding explored_def by blast
  next
    case (further node)
    have "Q (node_place z (a_nodes a' ! i))
        \<and> steps_from ds (node_place z (a_nodes a' ! i)) \<inter> Collect P \<subseteq> places z a'"
      if "i < length (a_nodes a')" "\<not> a_open a' ! i" for i
    proof -
      have "i \<noteq> length (a_nodes a)" using that further assms(3) by (auto simp: extend_def nth_append)
      then have "a_nodes a' ! i = a_nodes a ! i" "\<not> a_open a ! i" "i < length (a_nodes a)"
        using that further assms(3) by (auto simp: extend_def nth_append)
      then show ?thesis using assms(2) more unfolding explored_def by fastforce
    qed
    then show ?thesis unfolding explored_def by blast
  qed simp
qed

lemma explored_star:
  assumes "(relaxed key (pos_z start) P n)\<^sup>*\<^sup>* a a'" "pool_ok key start P a" "explored ds P Q (pos_z start) a"
  shows "explored ds P Q (pos_z start) a' \<and> pool_ok key start P a'"
  using assms
  by (induction rule: rtranclp_induct) (auto intro: explored_relaxed relaxed_pool dest: poolD(1))

lemma explored_close:
  assumes "explored ds P Q z a" "n < length (a_nodes a)" "length (a_open a) = length (a_nodes a)"
    "Q (node_place z (a_nodes a ! n))"
    "steps_from ds (node_place z (a_nodes a ! n)) \<inter> Collect P \<subseteq> places z a"
  shows "explored ds P Q z (closeNode n a)"
  using assms unfolding explored_def closeNode_def by (auto simp: nth_list_update)

lemma pool_bound:
  assumes ok: "pool_ok key start P a" and P: "\<And>p. P p \<Longrightarrow> in_box c d p" and d: "0 \<le> d" "d \<le> 10"
  shows "length (a_nodes a) < MAX_NODES"
proof -
  let ?z = "pos_z start" and ?ps = "map (node_place (pos_z start)) (tl (a_nodes a))"
  let ?xy = "\<lambda>p. (uint (pos_x p), uint (pos_y p))"
  let ?box = "{uint (pos_x c) - 10..uint (pos_x c) + 10} \<times> {uint (pos_y c) - 10..uint (pos_y c) + 10}"
  have box: "?xy (node_place ?z (a_nodes a ! Suc i)) \<in> ?box" if "i < length (tl (a_nodes a))" for i
  proof -
    have "Suc i < length (a_nodes a)" using that by simp
    then have "in_box c d (node_place ?z (a_nodes a ! Suc i))"
      using poolD(9) [OF ok, of "Suc i"] P by (auto simp: hangs_def)
    then show ?thesis using d unfolding in_box_def mem_Times_iff fst_conv snd_conv atLeastAtMost_iff by linarith
  qed
  have "?xy ` set ?ps \<subseteq> ?box"
  proof
    fix v assume "v \<in> ?xy ` set ?ps"
    then obtain i where "i < length (tl (a_nodes a))" "v = ?xy (node_place ?z (tl (a_nodes a) ! i))"
      by (auto simp: in_set_conv_nth)
    then show "v \<in> ?box" using box by (simp only: nth_tl)
  qed
  moreover have "inj_on ?xy (set ?ps)" by (auto simp: inj_on_def node_place_def word_uint_eq_iff)
  ultimately have "card (set ?ps) \<le> card ?box"
    by (metis (no_types, lifting) card_image card_mono finite_SigmaI finite_atLeastAtMost_int)
  moreover have "card ?box = 441" by simp
  moreover have "card (set ?ps) = length (tl (a_nodes a))"
    using poolD(10) [OF ok] by (subst distinct_card) (simp_all add: map_tl distinct_tl)
  ultimately show ?thesis by (simp add: MAX_NODES_def)
qed

definition walk_step :: "(int \<times> int) list \<Rightarrow> (position \<Rightarrow> bool) \<Rightarrow> position \<Rightarrow> position \<Rightarrow> bool" where
  "walk_step ds P p q \<longleftrightarrow> q \<in> steps_from ds p \<and> P q"

lemma moved_step:
  assumes "position_isValid p" "position_isValid (moved d p)"
  shows "moved d p = p \<or> p \<in> steps_from neighbourOrderList (moved d p)"
proof -
  have inc: "uint (v + 1) = uint v + 1" if "v \<le> 60000" for v :: u16
    using that by (intro uint_inc_u16) (simp add: word_le_def)
  have dec: "uint (v - 1) = uint v - 1" if "v - 1 \<le> 60000" for v :: u16
  proof (rule uint_dec_u16)
    have "\<not> (- 1 :: u16) \<le> 60000" by (simp add: word_le_nat_alt unsigned_minus_1_eq_mask mask_eq_exp_minus_1)
    then show "v \<noteq> 0" using that by auto
  qed
  show ?thesis
    using assms by (cases d) (auto simp: steps_from_def neighbourOrderList_def position_isValid_iff inc dec)
qed

lemma route_back:
  assumes "\<forall>q \<in> set (p # visited p ds). position_isValid q" "set (butlast (p # visited p ds)) \<subseteq> Collect P"
  shows "(walk_step neighbourOrderList P)\<^sup>*\<^sup>* (last (p # visited p ds)) p"
  using assms
proof (induction ds arbitrary: p)
  case (Cons d ds)
  let ?q = "moved d p"
  have "(walk_step neighbourOrderList P)\<^sup>*\<^sup>* (last (?q # visited ?q ds)) ?q" using Cons.prems by (intro Cons.IH) auto
  moreover have "?q = p \<or> walk_step neighbourOrderList P ?q p" using moved_step [of p d] Cons.prems by (auto simp: walk_step_def)
  ultimately show ?case by (auto intro: rtranclp.rtrancl_into_rtrancl)
qed simp

text \<open>When every node near \<open>c\<close> is closed, the pool holds all that can be reached from the start.\<close>

lemma exhausted_reaches:
  assumes ok: "pool_ok key start P a" and P: "\<And>p. P p \<Longrightarrow> in_box c d p" and d: "0 \<le> d" "d \<le> 10"
    and expl: "explored ds P Q (pos_z start) a" and ds: "set ds \<subseteq> set neighbourOrderList"
    and closed: "\<And>i. i < length (a_nodes a) \<Longrightarrow> \<bar>uint (pos_x c) - uint (n_x (a_nodes a ! i))\<bar> \<le> 11 \<Longrightarrow>
      \<bar>uint (pos_y c) - uint (n_y (a_nodes a ! i))\<bar> \<le> 11 \<Longrightarrow> \<not> a_open a ! i"
    and way: "(walk_step ds P)\<^sup>*\<^sup>* start p"
  shows "p \<in> places (pos_z start) a"
  using way
proof (induction rule: rtranclp_induct)
  case base
  then show ?case using poolD(2,4) [OF ok] by (metis image_eqI nth_mem)
next
  case (step q p)
  then obtain i where i: "i < length (a_nodes a)" "q = node_place (pos_z start) (a_nodes a ! i)"
    by (auto simp: in_set_conv_nth)
  have p: "p \<in> steps_from ds q" "P p" using step.hyps(2) by (simp_all add: walk_step_def)
  have "\<bar>uint (pos_x p) - uint (pos_x q)\<bar> \<le> 1 \<and> \<bar>uint (pos_y p) - uint (pos_y q)\<bar> \<le> 1"
    using p(1) ds by (auto simp: steps_from_def dest: neighbour_range)
  then have "\<bar>uint (pos_x c) - uint (pos_x q)\<bar> \<le> 11" "\<bar>uint (pos_y c) - uint (pos_y q)\<bar> \<le> 11"
    using P [OF p(2)] d by (auto simp: in_box_def)
  then have "\<not> a_open a ! i" using closed i by simp
  then show ?case using expl i p unfolding explored_def by blast
qed

section \<open>A creature and maps for the examples\<close>

definition hiker :: walker where
  "hiker = \<lparr>w_id = 1, w_position = \<lparr>pos_x = 150, pos_y = 50, pos_z = 7\<rparr>, w_tile = Some grass,
     w_immune = (\<lambda>_. False)\<rparr>"

lemma grass_map:
  assumes "p \<in> set ps" "\<forall>p \<in> set ps. on_map 200 100 p"
  obtains m where "map_ok m" "\<forall>p \<in> set ps. map_content m p = Some grass"
proof -
  obtain m0 where m0: "map_ok m0" "map_content m0 = (\<lambda>_. None)"
    "map_room m0 = (\<lambda>p. pos_x p < 200 \<and> pos_y p < 100 \<and> pos_z p \<le> 15)"
    by (rule setSize_spec [of 200 100 map_new]) (simp_all add: map_new_def)
  obtain m where m: "map_ok m" "\<forall>p. map_content m p =
      (if map_content m0 p = None \<and> map_room m0 p then map_of (map (\<lambda>p. (p, grass)) ps) p else map_content m0 p)"
    using map_store.first_update_wins [OF m0(1), of "map (\<lambda>p. (p, grass)) ps"] by blast
  have "map_of (map (\<lambda>p. (p, grass)) ps) p = Some grass" if "p \<in> set ps" for p
    using that by (induction ps) auto
  then show thesis using that m assms(2) by (simp add: m0 on_map_def)
qed

end
