(* ===== verification/Path_To.thy ===== *)
theory Path_To
  imports Path_Search
begin

text \<open>
  \<^verbatim>\<open>getPathTo\<close>: it always returns; a route it gives leads over walkable places to the destination;
  and with a distance of at most ten, for which the pool is large enough, it finds a route whenever
  there is one.
\<close>

section \<open>Places the search may enter\<close>

definition enterable :: "game_map \<Rightarrow> walker \<Rightarrow> position \<Rightarrow> int \<Rightarrow> position \<Rightarrow> bool" where
  "enterable m w endPos d p \<longleftrightarrow> in_box endPos d p \<and> walks m w p"

text \<open>Every node's \<open>f\<close> is its cost and the estimate of its place.\<close>

definition estimated :: "position \<Rightarrow> astar_node \<Rightarrow> bool" where
  "estimated endPos n \<longleftrightarrow> n_f n = n_g n + getEstimatedDistance (n_x n) (n_y n) (pos_x endPos) (pos_y endPos)"

section \<open>One neighbour\<close>

lemma path_to_neighbour_spec:
  fixes m w endPos d start
  defines "P \<equiv> enterable m w endPos d"
  assumes m: "map_ok m" and tile: "w_tile w \<noteq> None" and ok: "pool_ok n_g start P a"
    and n: "n < length (a_nodes a)" and off: "(dx, dy) \<in> set neighbourOrderList"
    and est: "\<forall>n \<in> set (a_nodes a). estimated endPos n"
    and valid: "position_isValid (node_place (pos_z start) (a_nodes a ! n))"
  shows "(\<exists>a'. path_to_neighbour m w endPos (pos_z start) d n (dx, dy) a = Inr (Some a')
       \<and> relaxed n_g (pos_z start) P n a a' \<and> (\<forall>n \<in> set (a_nodes a'). estimated endPos n)
       \<and> (\<forall>q. P q \<and> pos_z q = pos_z start \<and> uint (pos_x q) = uint (n_x (a_nodes a ! n)) + dx
              \<and> uint (pos_y q) = uint (n_y (a_nodes a ! n)) + dy \<longrightarrow> q \<in> places (pos_z start) a'))
    \<or> (path_to_neighbour m w endPos (pos_z start) d n (dx, dy) a = Inr None \<and> length (a_nodes a) = MAX_NODES)"
    (is "(\<exists>a'. ?run = _ \<and> _) \<or> _")
proof -
  let ?z = "pos_z start" and ?n = "a_nodes a ! n"
  let ?x = "uint (n_x ?n) + dx" and ?y = "uint (n_y ?n) + dy"
  define q where "q = \<lparr>pos_x = word_of_int ?x, pos_y = word_of_int ?y, pos_z = ?z\<rparr>"
  have z: "?z \<le> 15" using valid by (simp add: position_isValid_iff)
  have target: "q' = q" if "pos_z q' = ?z" "uint (pos_x q') = ?x" "uint (pos_y q') = ?y" for q'
    using that by (cases q') (simp add: q_def flip: that(2,3))
  show ?thesis
  proof (cases "?x < 0 \<or> ?x > 60000 \<or> ?y < 0 \<or> ?y > 60000 \<or> \<not> in_box endPos d q")
    case True
    then have "?run = Inr (Some a)"
      by (auto simp: path_to_neighbour_def Let_def map_limits in_box_def q_def)
    moreover have "\<not> P q' \<or> \<not> (uint (pos_x q') = ?x \<and> uint (pos_y q') = ?y \<and> pos_z q' = ?z)" for q'
    proof (cases "uint (pos_x q') = ?x \<and> uint (pos_y q') = ?y \<and> pos_z q' = ?z")
      case pos: True
      then have "q' = q" using target by blast
      moreover have "0 \<le> ?x" "0 \<le> ?y" using pos unsigned_greater_eq by metis+
      ultimately show ?thesis
        using True pos walks_valid [OF tile, of m q] unfolding P_def enterable_def position_isValid_iff word_le_def
        by auto
    qed auto
    ultimately show ?thesis using relaxed.same est by blast
  next
    case False
    then have range: "0 \<le> ?x" "?x \<le> 60000" "0 \<le> ?y" "?y \<le> 60000" and box: "in_box endPos d q" by auto
    then have u: "uint (pos_x q) = ?x" "uint (pos_y q) = ?y" "pos_z q = ?z"
      using uint_neighbour [OF range(1,2)] uint_neighbour [OF range(3,4)]
      by (simp_all only: q_def position.select_convs)
    have qv: "position_isValid q" using u range z by (simp add: position_isValid_iff word_le_def)
    have start_run: "?run = bind_run (canWalkTo m w q) (\<lambda>walkable.
        if \<not> walkable then Inr (Some a)
        else bind_run (map_getTile m q) (\<lambda>tile.
          case tile of None \<Rightarrow> Inl Undefined_behaviour
          | Some tile \<Rightarrow>
              let newg = n_g ?n + getMapWalkCost ?n q + getTileWalkCost w tile
              in case getNodeInList a (pos_x q) (pos_y q) of
                Some k \<Rightarrow>
                  if n_g (a_nodes a ! k) \<le> newg then Inr (Some a)
                  else let a = openNode k a in
                    Inr (Some (a\<lparr>a_nodes := (a_nodes a)[k := path_to_node endPos q n newg (a_nodes a ! k)]\<rparr>))
              | None \<Rightarrow>
                  (case createOpenNode a of None \<Rightarrow> Inr None
                   | Some (k, a) \<Rightarrow>
                       Inr (Some (a\<lparr>a_nodes := (a_nodes a)[k := path_to_node endPos q n newg (a_nodes a ! k)]\<rparr>)))))"
      unfolding path_to_neighbour_def Let_def fst_conv snd_conv q_def [symmetric]
      using range box by (simp add: map_limits in_box_def not_le not_less disj_not1 cong: if_cong) (auto simp: in_box_def)
    show ?thesis
    proof (cases "walks m w q")
      case False
      then have "?run = Inr (Some a)" by (simp add: start_run canWalkTo_walks [OF m])
      moreover have "\<not> P q" using False by (simp add: P_def enterable_def)
      ultimately show ?thesis using relaxed.same target est by metis
    next
      case walks: True
      obtain t where t: "map_content m q = Some t" using walks_tile [OF tile walks] by blast
      define newg where "newg = n_g ?n + getMapWalkCost ?n q + getTileWalkCost w t"
      let ?f = "path_to_node endPos q n newg"
      have run: "?run = Inr (store_place n_g ?f newg q a)"
        unfolding start_run canWalkTo_walks [OF m] map_getTile_spec [OF m] t newg_def Let_def store_place_def
        using walks by (simp split: option.split)
      have adj: "adjacent (node_place ?z ?n) q"
        using off u by (simp add: adjacent_def)
      have node_place: "node_place ?z (?f node) = q" and key: "n_g (?f node) = newg" and est': "estimated endPos (?f node)" for node
        by (cases q, simp add: path_to_node_def node_place_def q_def estimated_def Let_def)+
      have Pq: "P q" using walks box by (simp add: P_def enterable_def)
      have newg: "n_g ?n + 10 \<le> newg" "newg \<le> n_g ?n + 85"
        using tile_cost [of w t] map_cost [of ?n q] by (simp_all add: newg_def)
      have fits: "fits n_g ?z P a n (?f node)" for node
        using n adj Pq newg by (simp add: fits_def hangs_def node_place key) (simp add: path_to_node_def Let_def)
      from store_place_spec [OF ok u(3) fits node_place key] show ?thesis
      proof
        assume "\<exists>a'. store_place n_g ?f newg q a = Some a' \<and> relaxed n_g ?z P n a a'
          \<and> q \<in> places ?z a' \<and> set (a_nodes a') \<subseteq> set (a_nodes a) \<union> range ?f"
        then obtain a' where a': "store_place n_g ?f newg q a = Some a'" "relaxed n_g ?z P n a a'"
          "q \<in> places ?z a'" "set (a_nodes a') \<subseteq> set (a_nodes a) \<union> range ?f" by blast
        have "\<forall>n \<in> set (a_nodes a'). estimated endPos n" using a'(4) est est' by blast
        then show ?thesis using run a'(1-3) target by metis
      qed (simp add: run)
    qed
  qed
qed

lemma path_to_neighbours_spec:
  fixes m w endPos d start
  defines "P \<equiv> enterable m w endPos d"
  assumes m: "map_ok m" and tile: "w_tile w \<noteq> None"
  shows "pool_ok n_g start P a \<Longrightarrow> n < length (a_nodes a) \<Longrightarrow> set ds \<subseteq> set neighbourOrderList \<Longrightarrow>
    \<forall>n \<in> set (a_nodes a). estimated endPos n \<Longrightarrow> position_isValid (node_place (pos_z start) (a_nodes a ! n)) \<Longrightarrow>
    (\<exists>a'. path_to_neighbours m w endPos (pos_z start) d n ds a = Inr (Some a')
       \<and> (relaxed n_g (pos_z start) P n)\<^sup>*\<^sup>* a a' \<and> (\<forall>n \<in> set (a_nodes a'). estimated endPos n)
       \<and> steps_from ds (node_place (pos_z start) (a_nodes a ! n)) \<inter> Collect P \<subseteq> places (pos_z start) a')
    \<or> (path_to_neighbours m w endPos (pos_z start) d n ds a = Inr None
       \<and> (\<exists>a'. (relaxed n_g (pos_z start) P n)\<^sup>*\<^sup>* a a' \<and> length (a_nodes a') = MAX_NODES))"
proof (induction ds arbitrary: a)
  case Nil
  then show ?case by (auto simp: steps_from_def)
next
  case (Cons off ds)
  obtain dx dy where off: "off = (dx, dy)" by force
  have in_list: "(dx, dy) \<in> set neighbourOrderList" using Cons.prems(3) by (simp add: off)
  note one = path_to_neighbour_spec [OF m tile, where endPos = endPos and d = d, folded P_def, OF Cons.prems(1,2) in_list Cons.prems(4,5)]
  let ?z = "pos_z start" and ?p = "node_place (pos_z start) (a_nodes a ! n)"
  show ?case
  proof (cases "path_to_neighbour m w endPos ?z d n off a = Inr None")
    case True
    then show ?thesis using one by (auto simp: off)
  next
    case False
    then obtain a1 where a1: "path_to_neighbour m w endPos ?z d n off a = Inr (Some a1)" "relaxed n_g ?z P n a a1"
      "\<forall>n \<in> set (a_nodes a1). estimated endPos n"
      "\<forall>q. P q \<and> pos_z q = ?z \<and> uint (pos_x q) = uint (n_x (a_nodes a ! n)) + dx
              \<and> uint (pos_y q) = uint (n_y (a_nodes a ! n)) + dy \<longrightarrow> q \<in> places ?z a1"
      using one off by blast
    have first: "q \<in> places ?z a1" if "P q" "q \<in> steps_from [off] ?p" for q
      using a1(4) that by (auto simp: steps_from_def off algebra_simps)
    note cur = relaxed_current [OF a1(2) Cons.prems(1,2)]
    have len: "n < length (a_nodes a1)" using cur Cons.prems(2) by simp
    have more: "steps_from (off # ds) ?p \<subseteq> steps_from [off] ?p \<union> steps_from ds ?p" by (auto simp: steps_from_def)
    have "set ds \<subseteq> set neighbourOrderList" using Cons.prems(3) by simp
    note rest = Cons.IH [OF relaxed_pool [OF a1(2) Cons.prems(1)] len this a1(3)]
    show ?thesis
    proof (cases "path_to_neighbours m w endPos ?z d n ds a1 = Inr None")
      case True
      then show ?thesis using rest Cons.prems(5) cur a1(1,2) by (auto intro: converse_rtranclp_into_rtranclp)
    next
      case False
      then obtain a' where a': "path_to_neighbours m w endPos ?z d n ds a1 = Inr (Some a')"
          "(relaxed n_g ?z P n)\<^sup>*\<^sup>* a1 a'" "\<forall>n \<in> set (a_nodes a'). estimated endPos n"
          "steps_from ds ?p \<inter> Collect P \<subseteq> places ?z a'"
        using rest Cons.prems(5) cur by auto
      have "steps_from (off # ds) ?p \<inter> Collect P \<subseteq> places ?z a'"
        using more first a'(4) relaxed_star_places [OF a'(2)] by blast
      moreover have "(relaxed n_g ?z P n)\<^sup>*\<^sup>* a a'" using a1(2) a'(2) by (rule converse_rtranclp_into_rtranclp)
      ultimately show ?thesis using a1(1) a'(1,3) by auto
    qed
  qed
qed

section \<open>The search\<close>

lemma pool_valid:
  assumes "pool_ok n_g start (enterable m w endPos d) a" "w_tile w \<noteq> None" "position_isValid start"
    "i < length (a_nodes a)"
  shows "position_isValid (node_place (pos_z start) (a_nodes a ! i))"
proof (cases "i = 0")
  case True
  then show ?thesis using poolD(4) [OF assms(1)] assms(3) by simp
next
  case False
  then show ?thesis
    using poolD(9) [OF assms(1,4)] walks_valid [OF assms(2)] by (auto simp: hangs_def enterable_def)
qed

lemma path_to_search_spec:
  fixes m w endPos d start
  defines "P \<equiv> enterable m w endPos d"
  assumes m: "map_ok m" and tile: "w_tile w \<noteq> None" and valid: "position_isValid start"
    and z: "pos_z endPos = pos_z start"
  shows "pool_ok n_g start P a \<Longrightarrow> \<forall>n \<in> set (a_nodes a). estimated endPos n \<Longrightarrow> explored neighbourOrderList P (\<lambda>p. p \<noteq> endPos) (pos_z start) a \<Longrightarrow>
    \<exists>r a'. path_to_search m w endPos (pos_z start) d a = Some (Inr (r, a'))
      \<and> (case r of
           Some n \<Rightarrow> pool_ok n_g start P a' \<and> n < length (a_nodes a') \<and> node_place (pos_z start) (a_nodes a' ! n) = endPos
         | None \<Rightarrow> d = - 1 \<or> (\<exists>b. pool_ok n_g start P b \<and> length (a_nodes b) = MAX_NODES)
             \<or> (pool_ok n_g start P a' \<and> (\<forall>n \<in> set (a_nodes a'). estimated endPos n)
                \<and> explored neighbourOrderList P (\<lambda>p. p \<noteq> endPos) (pos_z start) a' \<and> getBestNode a' = None))"
proof (induction a rule: measure_induct_rule [of "search_measure n_g"])
  case (less a)
  let ?z = "pos_z start"
  note unfold = path_to_search.simps [of m w endPos ?z d a]
  show ?case
  proof (cases "\<not> (d \<noteq> - 1 \<or> countClosedNodes a < 100) \<or> getBestNode a = None")
    case True
    then show ?thesis using less.prems by (subst unfold) auto
  next
    case False
    then obtain n where best: "getBestNode a = Some n" and goon: "d \<noteq> - 1 \<or> countClosedNodes a < 100" by auto
    have n: "n < length (a_nodes a)" "a_open a ! n" using getBestNode_Some [OF best] by simp_all
    let ?p = "node_place ?z (a_nodes a ! n)"
    have at_end: "n_x (a_nodes a ! n) = pos_x endPos \<and> n_y (a_nodes a ! n) = pos_y endPos \<longleftrightarrow> ?p = endPos"
      using z by (cases endPos) (auto simp: node_place_def)
    show ?thesis
    proof (cases "?p = endPos")
      case True
      then show ?thesis using less.prems best goon n at_end by (subst unfold) auto
    next
      case away: False
      note step = path_to_neighbours_spec [OF m tile, where endPos = endPos and d = d, folded P_def,
          OF less.prems(1) n(1) order_refl less.prems(2) pool_valid [OF less.prems(1) [unfolded P_def] tile valid n(1)]]
      show ?thesis
      proof (cases "path_to_neighbours m w endPos ?z d n neighbourOrderList a = Inr None")
        case True
        then obtain b where "(relaxed n_g ?z P n)\<^sup>*\<^sup>* a b" "length (a_nodes b) = MAX_NODES" using step by auto
        then have "\<exists>b. pool_ok n_g start P b \<and> length (a_nodes b) = MAX_NODES"
          using relaxed_star less.prems(1) n(1) by blast
        then show ?thesis using True best goon away at_end by (subst unfold) auto
      next
        case False
        then obtain a' where a': "path_to_neighbours m w endPos ?z d n neighbourOrderList a = Inr (Some a')"
          "(relaxed n_g ?z P n)\<^sup>*\<^sup>* a a'" "\<forall>n \<in> set (a_nodes a'). estimated endPos n"
          "steps_from neighbourOrderList ?p \<inter> Collect P \<subseteq> places ?z a'"
          using step by auto
        note star = relaxed_star [OF a'(2) less.prems(1) n(1)]
        have ok': "pool_ok n_g start P a'" "explored neighbourOrderList P (\<lambda>p. p \<noteq> endPos) ?z a'"
          using explored_star [OF a'(2) less.prems(1,3)] by simp_all
        have "explored neighbourOrderList P (\<lambda>p. p \<noteq> endPos) ?z (closeNode n a')"
          using star away a'(4) by (intro explored_close) (auto simp: ok' poolD(1) [OF ok'(1)])
        moreover have "\<forall>n \<in> set (a_nodes (closeNode n a')). estimated endPos n" using a'(3) by (simp add: closeNode_def)
        ultimately have "\<exists>r b. path_to_search m w endPos ?z d (closeNode n a') = Some (Inr (r, b))
          \<and> (case r of
               Some n \<Rightarrow> pool_ok n_g start P b \<and> n < length (a_nodes b) \<and> node_place ?z (a_nodes b ! n) = endPos
             | None \<Rightarrow> d = - 1 \<or> (\<exists>b. pool_ok n_g start P b \<and> length (a_nodes b) = MAX_NODES)
                 \<or> (pool_ok n_g start P b \<and> (\<forall>n \<in> set (a_nodes b). estimated endPos n)
                    \<and> explored neighbourOrderList P (\<lambda>p. p \<noteq> endPos) ?z b \<and> getBestNode b = None))"
          using turn_decreases [OF a'(2) less.prems(1) n] closeNode_pool [OF ok'(1)] by (intro less.IH) auto
        then show ?thesis using a'(1) best goon away at_end by (subst unfold) auto
      qed
    qed
  qed
qed

lemma path_to_route_spec:
  assumes "pool_ok key start P a" "i < length (a_nodes a)"
  shows "\<exists>ds. (\<forall>px py acc. path_to_route a (Some i) px py acc
        = Some (acc @ direction_to (uint (n_x (a_nodes a ! i)) - px) (uint (n_y (a_nodes a ! i)) - py) @ ds))
      \<and> last (node_place (pos_z start) (a_nodes a ! i) # visited (node_place (pos_z start) (a_nodes a ! i)) ds) = start
      \<and> set (butlast (visited (node_place (pos_z start) (a_nodes a ! i)) ds)) \<subseteq> Collect P \<and> (ds = [] \<longleftrightarrow> i = 0)"
  using assms(2)
proof (induction "nat (key (a_nodes a ! i))" arbitrary: i rule: less_induct)
  case less
  let ?z = "pos_z start"
  show ?case
  proof (cases "i = 0")
    case True
    then show ?thesis
      using poolD(4,5) [OF assms(1)]
      by (intro exI [of _ "[]"]) (simp add: path_to_route.simps [of a "Some 0"] path_to_route.simps [of a None] Let_def)
  next
    case False
    then obtain p where p: "n_parent (a_nodes a ! i) = Some p" "p < length (a_nodes a)"
      "nat (key (a_nodes a ! p)) < nat (key (a_nodes a ! i))"
      "adjacent (node_place ?z (a_nodes a ! p)) (node_place ?z (a_nodes a ! i))"
      by (auto elim: parent_step [OF assms(1) less.prems])
    obtain ds where ds: "\<forall>px py acc. path_to_route a (Some p) px py acc
        = Some (acc @ direction_to (uint (n_x (a_nodes a ! p)) - px) (uint (n_y (a_nodes a ! p)) - py) @ ds)"
      "last (node_place ?z (a_nodes a ! p) # visited (node_place ?z (a_nodes a ! p)) ds) = start"
      "set (butlast (visited (node_place ?z (a_nodes a ! p)) ds)) \<subseteq> Collect P" "ds = [] \<longleftrightarrow> p = 0"
      using less.hyps [OF p(3,2)] by blast
    obtain e where e: "direction_to (uint (n_x (a_nodes a ! p)) - uint (n_x (a_nodes a ! i)))
        (uint (n_y (a_nodes a ! p)) - uint (n_y (a_nodes a ! i))) = [e]"
      "moved e (node_place ?z (a_nodes a ! i)) = node_place ?z (a_nodes a ! p)"
      using step_cases(1) [OF p(4)] by auto
    have "P (node_place ?z (a_nodes a ! p))" if "p \<noteq> 0"
      using that by (auto elim: parent_step [OF assms(1) p(2)])
    then have "set (butlast (node_place ?z (a_nodes a ! p) # visited (node_place ?z (a_nodes a ! p)) ds)) \<subseteq> Collect P"
      using ds(3,4) by auto
    then show ?thesis
      using False ds(1,2) e p(1)
      by (intro exI [of _ "e # ds"]) (simp add: path_to_route.simps [of a "Some i"] Let_def)
  qed
qed

section \<open>Routes\<close>

text \<open>
  A route for the creature: it is not empty, leads to the destination, passes only places the creature
  can walk to, and stays in the box until it reaches the destination.
\<close>

definition good_route :: "game_map \<Rightarrow> walker \<Rightarrow> int \<Rightarrow> position \<Rightarrow> direction list \<Rightarrow> bool" where
  "good_route m w d destination ds \<longleftrightarrow>
     ds \<noteq> [] \<and> last (visited (w_position w) ds) = destination
     \<and> (\<forall>p \<in> set (visited (w_position w) ds). canWalkTo m w p = Inr True)
     \<and> (\<forall>p \<in> set (butlast (visited (w_position w) ds)). in_box (w_position w) d p)"

definition start_pool :: "position \<Rightarrow> position \<Rightarrow> astar_nodes" where
  "start_pool startPos endPos = \<lparr>a_nodes = [start_node_to startPos endPos], a_open = [True]\<rparr>"

lemma start_pool_ok:
  "pool_ok n_g startPos P (start_pool startPos endPos)"
  "\<forall>n \<in> set (a_nodes (start_pool startPos endPos)). estimated endPos n"
  "explored ds Q (\<lambda>p. p \<noteq> endPos) (pos_z startPos) (start_pool startPos endPos)"
  by (cases startPos, simp add: pool_ok_def start_pool_def start_node_to_def node_place_def MAX_NODES_def
      estimated_def explored_def Let_def)+

lemma getPathTo_run:
  assumes m: "map_ok m" and tile: "w_tile w \<noteq> None" and pos: "position_isValid (w_position w)"
  shows "getPathTo m w destination d =
    (if \<not> walks m w destination \<or> pos_z destination \<noteq> pos_z (w_position w) then Some (Inr (False, []))
     else (case path_to_search m w (w_position w) (pos_z destination) d (start_pool destination (w_position w)) of
             None \<Rightarrow> None
           | Some (Inl e) \<Rightarrow> Some (Inl e)
           | Some (Inr (found, a)) \<Rightarrow>
               (case path_to_route a found (uint (pos_x (w_position w))) (uint (pos_y (w_position w))) [] of
                  None \<Rightarrow> None
                | Some route \<Rightarrow> Some (Inr (route \<noteq> [], route)))))"
proof -
  have create: "createOpenNode astar_new = Some (0, \<lparr>a_nodes = [blank_node], a_open = [True]\<rparr>)"
    by (simp add: createOpenNode_def astar_new_def MAX_NODES_def)
  have copy: "position_copy (w_position w) = Inr (w_position w)" using pos by (simp add: position_copy_def)
  show ?thesis
  proof (cases "walks m w destination")
    case True
    then have "position_copy destination = Inr destination"
      using walks_valid [OF tile] by (simp add: position_copy_def)
    then show ?thesis
      using True copy create by (simp add: getPathTo_def canWalkTo_walks [OF m] start_pool_def)
  qed (simp add: getPathTo_def canWalkTo_walks [OF m])
qed

lemma path_to_outcome:
  assumes m: "map_ok m" and tile: "w_tile w \<noteq> None" and pos: "position_isValid (w_position w)"
    and dest: "walks m w destination" "pos_z destination = pos_z (w_position w)"
  obtains (found) route where "getPathTo m w destination d = Some (Inr (route \<noteq> [], route))"
      "route = [] \<longleftrightarrow> destination = w_position w" "route \<noteq> [] \<Longrightarrow> good_route m w d destination route"
  | (failed) a where "getPathTo m w destination d = Some (Inr (False, []))"
      "d = - 1 \<or> (\<exists>b. pool_ok n_g destination (enterable m w (w_position w) d) b \<and> length (a_nodes b) = MAX_NODES)
       \<or> (pool_ok n_g destination (enterable m w (w_position w) d) a
          \<and> (\<forall>n \<in> set (a_nodes a). estimated (w_position w) n)
          \<and> explored neighbourOrderList (enterable m w (w_position w) d) (\<lambda>p. p \<noteq> w_position w) (pos_z destination) a \<and> getBestNode a = None)"
proof -
  let ?P = "enterable m w (w_position w) d" and ?z = "pos_z destination"
  have valid: "position_isValid destination" using walks_valid [OF tile dest(1)] .
  obtain r a where ra: "path_to_search m w (w_position w) ?z d (start_pool destination (w_position w)) = Some (Inr (r, a))"
    "case r of
       Some n \<Rightarrow> pool_ok n_g destination ?P a \<and> n < length (a_nodes a) \<and> node_place ?z (a_nodes a ! n) = w_position w
     | None \<Rightarrow> d = - 1 \<or> (\<exists>b. pool_ok n_g destination ?P b \<and> length (a_nodes b) = MAX_NODES)
         \<or> (pool_ok n_g destination ?P a \<and> (\<forall>n \<in> set (a_nodes a). estimated (w_position w) n)
            \<and> explored neighbourOrderList ?P (\<lambda>p. p \<noteq> w_position w) ?z a \<and> getBestNode a = None)"
    using path_to_search_spec [OF m tile valid dest(2) [symmetric] start_pool_ok] by blast
  show thesis
  proof (cases r)
    case None
    then have "getPathTo m w destination d = Some (Inr (False, []))"
      using ra(1) dest by (simp add: getPathTo_run [OF m tile pos] path_to_route.simps [of a None])
    then show thesis using failed ra(2) None by simp
  next
    case (Some n)
    then have ok: "pool_ok n_g destination ?P a" "n < length (a_nodes a)" "node_place ?z (a_nodes a ! n) = w_position w"
      using ra(2) by simp_all
    obtain ds where ds: "\<forall>px py acc. path_to_route a (Some n) px py acc
        = Some (acc @ direction_to (uint (n_x (a_nodes a ! n)) - px) (uint (n_y (a_nodes a ! n)) - py) @ ds)"
      "last (w_position w # visited (w_position w) ds) = destination"
      "set (butlast (visited (w_position w) ds)) \<subseteq> Collect ?P" "ds = [] \<longleftrightarrow> n = 0"
      using path_to_route_spec [OF ok(1,2)] ok(3) by metis
    have xy: "n_x (a_nodes a ! n) = pos_x (w_position w)" "n_y (a_nodes a ! n) = pos_y (w_position w)"
      using arg_cong [OF ok(3), of pos_x] arg_cong [OF ok(3), of pos_y] by simp_all
    have run: "getPathTo m w destination d = Some (Inr (ds \<noteq> [], ds))"
      using ra(1) dest ds(1) xy Some by (simp add: getPathTo_run [OF m tile pos] direction_to_def)
    have "n = 0 \<longleftrightarrow> destination = w_position w"
      using nth_eq_iff_index_eq [OF poolD(10) [OF ok(1)], of n 0] poolD(2,4) [OF ok(1)] ok(2,3) by auto
    moreover have "good_route m w d destination ds" if "ds \<noteq> []"
    proof -
      have "set (visited (w_position w) ds) = insert destination (set (butlast (visited (w_position w) ds)))"
        using set_butlast_last [of "visited (w_position w) ds"] that ds(2) by simp
      then show ?thesis
        using that ds(2,3) dest(1) by (auto simp: good_route_def canWalkTo_walks [OF m] enterable_def)
    qed
    ultimately show thesis using found run ds(4) by blast
  qed
qed

text \<open>
  C9: \<open>getPathTo\<close> always returns, whatever the map, the destination and the distance: the search
  ends, the walk along the parents ends, nothing trips an assertion or follows a null pointer, for a
  creature that stands on a tile.  It returns true exactly with a non-empty route, and that route
  leads over places the creature can walk to, inside the box, to the destination.
\<close>

theorem path_to_returns_good_route:
  assumes "map_ok m" "w_tile w \<noteq> None" "position_isValid (w_position w)"
  shows "\<exists>route. getPathTo m w destination d = Some (Inr (route \<noteq> [], route))
    \<and> (route \<noteq> [] \<longrightarrow> good_route m w d destination route)"
proof (cases "walks m w destination \<and> pos_z destination = pos_z (w_position w)")
  case True
  then show ?thesis by (cases rule: path_to_outcome [OF assms, of destination d]) auto
next
  case False
  then show ?thesis by (auto simp: getPathTo_run [OF assms])
qed

lemma path_to_returns_good_route_witness:
  "\<exists>route. getPathTo map_new hiker \<lparr>pos_x = 151, pos_y = 50, pos_z = 7\<rparr> (- 1) = Some (Inr (route \<noteq> [], route))"
  using path_to_returns_good_route [OF map_new_ok, of hiker "\<lparr>pos_x = 151, pos_y = 50, pos_z = 7\<rparr>" "- 1"]
  by (auto simp: hiker_def position_isValid_iff)

section \<open>A route that exists is found\<close>

lemma estimate_near:
  assumes "\<bar>uint (pos_x c) - uint x\<bar> \<le> k" "\<bar>uint (pos_y c) - uint y\<bar> \<le> k"
  shows "getEstimatedDistance x y (pos_x c) (pos_y c) \<le> 25 * k"
  using assms abs_minus_commute [of "uint x"] abs_minus_commute [of "uint y"]
  by (simp add: getEstimatedDistance_def MAP_DIAGONALWALKCOST_def MAP_NORMALWALKCOST_def Let_def min_def)

text \<open>An exhausted search has closed every node, but for a start that is too far away to try.\<close>

lemma exhausted_closed:
  assumes ok: "pool_ok n_g start (enterable m w c d) a" and d: "0 \<le> d" "d \<le> 10"
    and est: "\<forall>n \<in> set (a_nodes a). estimated c n" and best: "getBestNode a = None"
    and i: "i < length (a_nodes a)"
    and near: "\<bar>uint (pos_x c) - uint (n_x (a_nodes a ! i))\<bar> \<le> 11" "\<bar>uint (pos_y c) - uint (n_y (a_nodes a ! i))\<bar> \<le> 11"
  shows "\<not> a_open a ! i"
proof
  assume "a_open a ! i"
  then have "100000 \<le> n_f (a_nodes a ! i)" by (rule getBestNode_None [OF best i])
  moreover have "n_f (a_nodes a ! i) \<le> n_g (a_nodes a ! i) + 25 * 11"
    using est i estimate_near [OF near] by (simp add: estimated_def)
  moreover have "n_g (a_nodes a ! i) \<le> 85 * 512"
    using poolD(3,8) [OF ok] i by (fastforce simp: MAX_NODES_def)
  ultimately show False by simp
qed

text \<open>
  C10: With a distance of at most ten the pool of 512 nodes is never used up, and \<open>getPathTo\<close> decides:
  it finds a route exactly when the creature is not yet at the destination and some route leads
  there over walkable places of the box.
\<close>

theorem path_to_finds_route:
  assumes "map_ok m" "w_tile w \<noteq> None" "map_content m (w_position w) = w_tile w" "0 \<le> d" "d \<le> 10"
  shows "\<exists>route. getPathTo m w destination d
    = Some (Inr (destination \<noteq> w_position w \<and> (\<exists>ds. good_route m w d destination ds), route))"
proof -
  have here: "walks m w (w_position w)" using assms(3) by (simp add: walks_def)
  note pos = walks_valid [OF assms(2) here]
  have box: "in_box (w_position w) d (w_position w)" using assms(4) by (simp add: in_box_def)
  let ?P = "enterable m w (w_position w) d"
  have in_P: "?P p \<Longrightarrow> in_box (w_position w) d p" for p by (simp add: enterable_def)
  have floor: "pos_z (last (p # visited p ds)) = pos_z p" for p ds
  proof (induction ds arbitrary: p)
    case (Cons e ds)
    have "pos_z (moved e p) = pos_z p" by (cases e) simp_all
    then show ?case using Cons.IH [of "moved e p"] by simp
  qed simp
  have valid: "position_isValid q" if "good_route m w d destination ds" "q \<in> set (w_position w # visited (w_position w) ds)" for ds q
    using that pos walks_valid [OF assms(2)] by (auto simp: good_route_def canWalkTo_walks [OF assms(1)])
  have way: "(walk_step neighbourOrderList ?P)\<^sup>*\<^sup>* destination (w_position w)" if good: "good_route m w d destination ds" for ds
  proof -
    have "last (w_position w # visited (w_position w) ds) = destination" using good by (simp add: good_route_def)
    moreover have "set (butlast (w_position w # visited (w_position w) ds)) \<subseteq> Collect ?P"
      using good here box by (auto simp: good_route_def enterable_def canWalkTo_walks [OF assms(1)] dest: in_set_butlastD)
    ultimately show ?thesis using route_back [of "w_position w" ds ?P] valid [OF good] by metis
  qed
  show ?thesis
  proof (cases "walks m w destination \<and> pos_z destination = pos_z (w_position w)")
    case False
    have "\<not> good_route m w d destination ds" for ds
    proof
      assume good: "good_route m w d destination ds"
      then have "destination \<in> set (visited (w_position w) ds)" "last (w_position w # visited (w_position w) ds) = destination"
        using last_in_set [of "visited (w_position w) ds"] by (auto simp: good_route_def)
      then show False
        using good False floor [of "w_position w" ds] by (auto simp: good_route_def canWalkTo_walks [OF assms(1)])
    qed
    then show ?thesis using False by (auto simp: getPathTo_run [OF assms(1,2) pos])
  next
    case True
    then have dest: "walks m w destination" "pos_z destination = pos_z (w_position w)" by simp_all
    show ?thesis
    proof (cases rule: path_to_outcome [OF assms(1,2) pos dest, of d])
      case (1 route)
      then have "route \<noteq> [] \<longleftrightarrow> destination \<noteq> w_position w \<and> (\<exists>ds. good_route m w d destination ds)" by blast
      then show ?thesis using 1(1) by auto
    next
      case (2 a)
      then have a: "pool_ok n_g destination ?P a" "\<forall>n \<in> set (a_nodes a). estimated (w_position w) n"
        "explored neighbourOrderList ?P (\<lambda>p. p \<noteq> w_position w) (pos_z destination) a" "getBestNode a = None"
        using pool_bound [OF _ in_P assms(4,5)] assms(4) by fastforce+
      have "False" if route: "good_route m w d destination ds" "destination \<noteq> w_position w" for ds
      proof -
        obtain i where i: "i < length (a_nodes a)" "node_place (pos_z destination) (a_nodes a ! i) = w_position w"
          using exhausted_reaches [OF a(1) in_P assms(4,5) a(3) order_refl exhausted_closed [OF a(1) assms(4,5) a(2,4)] way [OF route(1)]]
          by (auto simp: in_set_conv_nth)
        then have "n_x (a_nodes a ! i) = pos_x (w_position w)" "n_y (a_nodes a ! i) = pos_y (w_position w)"
          by (metis place_sel(1), metis place_sel(2))
        then have "\<not> a_open a ! i" using exhausted_closed [OF a(1) assms(4,5) a(2,4) i(1)] by simp
        then show False using a(3) i unfolding explored_def by blast
      qed
      then have no: "\<not> (destination \<noteq> w_position w \<and> (\<exists>ds. good_route m w d destination ds))" by blast
      show ?thesis unfolding 2(1) using no by simp
    qed
  qed
qed

lemma path_to_finds_route_witness:
  "\<exists>m route. getPathTo m hiker \<lparr>pos_x = 151, pos_y = 50, pos_z = 7\<rparr> 10 = Some (Inr (True, route))"
proof -
  let ?p = "\<lparr>pos_x = 150, pos_y = 50, pos_z = 7\<rparr>" and ?q = "\<lparr>pos_x = 151, pos_y = 50, pos_z = 7\<rparr>"
  obtain m where m: "map_ok m" "map_content m ?p = Some grass" "map_content m ?q = Some grass"
    by (rule grass_map [of ?p "[?p, ?q]"]) (auto simp: on_map_def)
  have good: "good_route m hiker 10 ?q [EAST]"
    using m by (simp add: good_route_def hiker_def canWalkTo_walks [OF m(1)] walks_def)
  have hiker: "w_tile hiker \<noteq> None" "map_content m (w_position hiker) = w_tile hiker" "?q \<noteq> w_position hiker"
    using m(2) by (simp_all add: hiker_def)
  have yes: "(?q \<noteq> w_position hiker \<and> (\<exists>ds. good_route m hiker 10 ?q ds)) = True"
    using good hiker(3) by blast
  show ?thesis
    using path_to_finds_route [OF m(1) hiker(1,2), of 10 ?q, unfolded yes] by simp blast
qed

end
