(* ===== verification/Path_Matching.thy ===== *)
theory Path_Matching
  imports Path_Search
begin

text \<open>
  \<^verbatim>\<open>getPathMatching\<close>: it always returns; a route it gives leads over walkable places to a place that
  meets the condition; and with a distance of at most ten it fails only when no place that the
  condition accepts can be reached.
\<close>

section \<open>Places and conditions\<close>

text \<open>What the search demands of a place it enters.\<close>

definition allowed :: "game_map \<Rightarrow> walker \<Rightarrow> position \<Rightarrow> position \<Rightarrow> find_path_params \<Rightarrow> position \<Rightarrow> bool" where
  "allowed m w targetPos startPos fpp p \<longleftrightarrow>
     walks m w p \<and> in_box startPos (fpp_maxSearchDist fpp) p
     \<and> (fpp_keepDistance fpp \<longrightarrow> isInRange targetPos startPos p fpp)"

text \<open>What the condition means: in range, in sight if asked, between the distances.\<close>

definition suitable :: "game_map \<Rightarrow> position \<Rightarrow> position \<Rightarrow> find_path_params \<Rightarrow> position \<Rightarrow> bool" where
  "suitable m targetPos startPos fpp p \<longleftrightarrow>
     isInRange targetPos startPos p fpp
     \<and> (fpp_clearSight fpp \<longrightarrow> isSightClear m p targetPos True = Inr True)
     \<and> (let dist = max \<bar>uint (pos_x targetPos) - uint (pos_x p)\<bar> \<bar>uint (pos_y targetPos) - uint (pos_y p)\<bar>
        in fpp_minTargetDist fpp \<le> dist \<and> dist \<le> fpp_maxTargetDist fpp)"

lemma pathCondition_total:
  assumes "map_ok m" "position_isValid targetPos" "position_isValid p"
  obtains b best' where "pathCondition m targetPos startPos p fpp best = Inr (b, best')"
    "b \<longrightarrow> suitable m targetPos startPos fpp p" "\<not> b \<longrightarrow> best' = best"
proof -
  define D where "D = max \<bar>uint (pos_x targetPos) - uint (pos_x p)\<bar> \<bar>uint (pos_y targetPos) - uint (pos_y p)\<bar>"
  have "\<exists>c. isSightClear m p targetPos True = Inr c"
    using checkSightLine_total [OF assms(1,3,2)] checkSightLine_total [OF assms]
    by (cases "pos_z p = pos_z targetPos") (auto simp: isSightClear_def)
  then obtain c where c: "isSightClear m p targetPos True = Inr c" ..
  define r where "r = (if fpp_maxTargetDist fpp = 1
             then (D \<ge> fpp_minTargetDist fpp \<and> D \<le> fpp_maxTargetDist fpp, best)
             else if D \<le> fpp_maxTargetDist fpp
             then if D < fpp_minTargetDist fpp then (False, best)
               else if D = fpp_maxTargetDist fpp then (True, 0)
               else if D > best then (True, D)
               else (False, best)
             else (False, best))"
  have run: "pathCondition m targetPos startPos p fpp best =
    Inr (if isInRange targetPos startPos p fpp \<and> (fpp_clearSight fpp \<longrightarrow> c) then r else (False, best))"
    by (cases c; cases "fpp_clearSight fpp"; simp add: pathCondition_def c Let_def r_def D_def)
  have r: "fst r \<Longrightarrow> fpp_minTargetDist fpp \<le> D \<and> D \<le> fpp_maxTargetDist fpp" "\<not> fst r \<Longrightarrow> snd r = best"
    by (auto simp: r_def split: if_splits)
  show thesis
  proof (cases "isInRange targetPos startPos p fpp \<and> (fpp_clearSight fpp \<longrightarrow> c)")
    case True
    then show thesis using that [of "fst r" "snd r"] run r c by (simp add: suitable_def Let_def D_def)
  next
    case False
    have "pathCondition m targetPos startPos p fpp best = Inr (False, best)"
      unfolding run if_not_P [OF False] by (rule refl)
    then show thesis by (rule that) simp_all
  qed
qed

section \<open>One neighbour\<close>

text \<open>The pool that the neighbours leave, unless the search gives up.\<close>

lemma matching_neighbour_spec:
  fixes m w targetPos startPos fpp
  defines "P \<equiv> allowed m w targetPos startPos fpp"
  assumes m: "map_ok m" and tile: "w_tile w \<noteq> None" and ok: "pool_ok n_f startPos P a"
    and n: "n < length (a_nodes a)" and off: "(dx, dy) \<in> set neighbourOrderList"
    and valid: "position_isValid (node_place (pos_z startPos) (a_nodes a ! n))"
  shows "(\<exists>a'. matching_neighbour m w targetPos startPos fpp found n (dx, dy) a = Inr (Go_on a')
       \<and> relaxed n_f (pos_z startPos) P n a a'
       \<and> (\<forall>q. P q \<and> pos_z q = pos_z startPos \<and> uint (pos_x q) = uint (n_x (a_nodes a ! n)) + dx
              \<and> uint (pos_y q) = uint (n_y (a_nodes a ! n)) + dy \<longrightarrow> q \<in> places (pos_z startPos) a'))
    \<or> (matching_neighbour m w targetPos startPos fpp found n (dx, dy) a = Inr (if found then Break_loop a else Give_up)
       \<and> length (a_nodes a) = MAX_NODES)"
    (is "(\<exists>a'. ?run = _ \<and> _) \<or> _")
proof -
  let ?z = "pos_z startPos" and ?n = "a_nodes a ! n"
  let ?x = "uint (n_x ?n) + dx" and ?y = "uint (n_y ?n) + dy"
  define q where "q = \<lparr>pos_x = word_of_int ?x, pos_y = word_of_int ?y, pos_z = ?z\<rparr>"
  define ok_q where "ok_q \<longleftrightarrow> in_box startPos (fpp_maxSearchDist fpp) q
      \<and> (fpp_keepDistance fpp \<longrightarrow> isInRange targetPos startPos q fpp)"
  have z: "?z \<le> 15" using valid by (simp add: position_isValid_iff)
  have target: "q' = q" if "pos_z q' = ?z" "uint (pos_x q') = ?x" "uint (pos_y q') = ?y" for q'
    using that by (cases q') (simp add: q_def flip: that(2,3))
  show ?thesis
  proof (cases "?x < 0 \<or> ?x > 60000 \<or> ?y < 0 \<or> ?y > 60000 \<or> \<not> ok_q")
    case True
    then have "?run = Inr (Go_on a)"
      by (auto simp: matching_neighbour_def Let_def map_limits ok_q_def in_box_def q_def)
    moreover have "\<not> P q' \<or> \<not> (uint (pos_x q') = ?x \<and> uint (pos_y q') = ?y \<and> pos_z q' = ?z)" for q'
    proof (cases "uint (pos_x q') = ?x \<and> uint (pos_y q') = ?y \<and> pos_z q' = ?z")
      case pos: True
      then have "q' = q" using target by blast
      moreover have "0 \<le> ?x" "0 \<le> ?y" using pos unsigned_greater_eq by metis+
      ultimately show ?thesis
        using True pos walks_valid [OF tile, of m q]
        unfolding P_def allowed_def position_isValid_iff word_le_def ok_q_def by auto
    qed auto
    ultimately show ?thesis using relaxed.same by blast
  next
    case False
    then have range: "0 \<le> ?x" "?x \<le> 60000" "0 \<le> ?y" "?y \<le> 60000" and okq: ok_q by auto
    then have u: "uint (pos_x q) = ?x" "uint (pos_y q) = ?y" "pos_z q = ?z"
      using uint_neighbour [OF range(1,2)] uint_neighbour [OF range(3,4)]
      by (simp_all only: q_def position.select_convs)
    have start_run: "?run = bind_run (canWalkTo m w q) (\<lambda>walkable.
        if \<not> walkable then Inr (Go_on a)
        else bind_run (map_getTile m q) (\<lambda>tile.
          case tile of None \<Rightarrow> Inl Undefined_behaviour
          | Some tile \<Rightarrow>
              let newf = n_f ?n + getMapWalkCost ?n q + getTileWalkCost w tile
              in case getNodeInList a (pos_x q) (pos_y q) of
                Some k \<Rightarrow>
                  if n_f (a_nodes a ! k) \<le> newf then Inr (Go_on a)
                  else let a = openNode k a in
                    Inr (Go_on (a\<lparr>a_nodes := (a_nodes a)[k := matching_node q n newf (a_nodes a ! k)]\<rparr>))
              | None \<Rightarrow>
                  (case createOpenNode a of
                     None \<Rightarrow> Inr (if found then Break_loop a else Give_up)
                   | Some (k, a) \<Rightarrow>
                       Inr (Go_on (a\<lparr>a_nodes := (a_nodes a)[k := matching_node q n newf (a_nodes a ! k)]\<rparr>)))))"
      unfolding matching_neighbour_def Let_def fst_conv snd_conv q_def [symmetric]
      using range okq by (simp add: map_limits ok_q_def in_box_def not_le not_less disj_not1 cong: if_cong) (auto simp: in_box_def)
    show ?thesis
    proof (cases "walks m w q")
      case False
      then have "?run = Inr (Go_on a)" by (simp add: start_run canWalkTo_walks [OF m])
      moreover have "\<not> P q" using False by (simp add: P_def allowed_def)
      ultimately show ?thesis using relaxed.same target by metis
    next
      case walks: True
      obtain t where t: "map_content m q = Some t" using walks_tile [OF tile walks] by blast
      define newf where "newf = n_f ?n + getMapWalkCost ?n q + getTileWalkCost w t"
      let ?f = "matching_node q n newf"
      have run: "?run = Inr (case store_place n_f ?f newf q a of
          None \<Rightarrow> if found then Break_loop a else Give_up | Some a \<Rightarrow> Go_on a)"
        unfolding start_run canWalkTo_walks [OF m] map_getTile_spec [OF m] t newf_def Let_def store_place_def
        using walks by (simp split: option.split)
      have adj: "adjacent (node_place ?z ?n) q"
        using off u by (simp add: adjacent_def)
      have node_place: "node_place ?z (?f node) = q" and key: "n_f (?f node) = newf" for node
        by (cases q, simp add: matching_node_def node_place_def q_def)+
      have Pq: "P q" using walks okq by (simp add: P_def allowed_def ok_q_def)
      have newf: "n_f ?n + 10 \<le> newf" "newf \<le> n_f ?n + 85"
        using tile_cost [of w t] map_cost [of ?n q] by (simp_all add: newf_def)
      have fits: "fits n_f ?z P a n (?f node)" for node
        using n adj Pq newf by (simp add: fits_def hangs_def node_place key) (simp add: matching_node_def)
      from store_place_spec [OF ok u(3) fits node_place key] show ?thesis
      proof
        assume "\<exists>a'. store_place n_f ?f newf q a = Some a' \<and> relaxed n_f ?z P n a a'
          \<and> q \<in> places ?z a' \<and> set (a_nodes a') \<subseteq> set (a_nodes a) \<union> range ?f"
        then obtain a' where a': "store_place n_f ?f newf q a = Some a'" "relaxed n_f ?z P n a a'"
          "q \<in> places ?z a'" by blast
        then have "?run = Inr (Go_on a')" using run by simp
        then show ?thesis using a'(2,3) target by metis
      qed (simp add: run)
    qed
  qed
qed

lemma matching_neighbours_spec:
  fixes m w targetPos startPos fpp
  defines "P \<equiv> allowed m w targetPos startPos fpp"
  assumes m: "map_ok m" and tile: "w_tile w \<noteq> None"
  shows "pool_ok n_f startPos P a \<Longrightarrow> n < length (a_nodes a) \<Longrightarrow> set ds \<subseteq> set neighbourOrderList \<Longrightarrow>
    position_isValid (node_place (pos_z startPos) (a_nodes a ! n)) \<Longrightarrow>
    (\<exists>a'. matching_neighbours m w targetPos startPos fpp found n ds a = Inr (Some a')
       \<and> (relaxed n_f (pos_z startPos) P n)\<^sup>*\<^sup>* a a'
       \<and> (steps_from ds (node_place (pos_z startPos) (a_nodes a ! n)) \<inter> Collect P \<subseteq> places (pos_z startPos) a'
          \<or> found \<and> length (a_nodes a') = MAX_NODES))
    \<or> (matching_neighbours m w targetPos startPos fpp found n ds a = Inr None \<and> \<not> found
       \<and> (\<exists>a'. (relaxed n_f (pos_z startPos) P n)\<^sup>*\<^sup>* a a' \<and> length (a_nodes a') = MAX_NODES))"
proof (induction ds arbitrary: a)
  case Nil
  then show ?case by (auto simp: steps_from_def)
next
  case (Cons off ds)
  obtain dx dy where off: "off = (dx, dy)" by force
  have in_list: "(dx, dy) \<in> set neighbourOrderList" using Cons.prems(3) by (simp add: off)
  note one = matching_neighbour_spec [OF m tile, where targetPos = targetPos and startPos = startPos and fpp = fpp
      and found = found, folded P_def, OF Cons.prems(1,2) in_list Cons.prems(4)]
  let ?z = "pos_z startPos" and ?p = "node_place (pos_z startPos) (a_nodes a ! n)"
  show ?case
  proof (cases "\<exists>a1. matching_neighbour m w targetPos startPos fpp found n off a = Inr (Go_on a1)")
    case False
    then have "matching_neighbour m w targetPos startPos fpp found n off a = Inr (if found then Break_loop a else Give_up)"
      "length (a_nodes a) = MAX_NODES"
      using one off by auto
    then show ?thesis by (cases found) auto
  next
    case True
    then obtain a1 where a1: "matching_neighbour m w targetPos startPos fpp found n off a = Inr (Go_on a1)"
      "relaxed n_f ?z P n a a1"
      "\<forall>q. P q \<and> pos_z q = ?z \<and> uint (pos_x q) = uint (n_x (a_nodes a ! n)) + dx
              \<and> uint (pos_y q) = uint (n_y (a_nodes a ! n)) + dy \<longrightarrow> q \<in> places ?z a1"
      using one off by (auto split: if_splits)
    have first: "q \<in> places ?z a1" if "P q" "q \<in> steps_from [off] ?p" for q
      using a1(3) that by (auto simp: steps_from_def off algebra_simps)
    note cur = relaxed_current [OF a1(2) Cons.prems(1,2)]
    have len: "n < length (a_nodes a1)" using cur Cons.prems(2) by simp
    have more: "steps_from (off # ds) ?p \<subseteq> steps_from [off] ?p \<union> steps_from ds ?p" by (auto simp: steps_from_def)
    have "set ds \<subseteq> set neighbourOrderList" using Cons.prems(3) by simp
    note rest = Cons.IH [OF relaxed_pool [OF a1(2) Cons.prems(1)] len this]
    show ?thesis
    proof (cases "matching_neighbours m w targetPos startPos fpp found n ds a1 = Inr None")
      case True
      then show ?thesis using rest Cons.prems(4) cur a1(1,2) by (auto intro: converse_rtranclp_into_rtranclp)
    next
      case False
      then obtain a' where a': "matching_neighbours m w targetPos startPos fpp found n ds a1 = Inr (Some a')"
          "(relaxed n_f ?z P n)\<^sup>*\<^sup>* a1 a'"
          "steps_from ds ?p \<inter> Collect P \<subseteq> places ?z a' \<or> found \<and> length (a_nodes a') = MAX_NODES"
        using rest Cons.prems(4) cur by auto
      have "steps_from (off # ds) ?p \<inter> Collect P \<subseteq> places ?z a' \<or> found \<and> length (a_nodes a') = MAX_NODES"
        using more first a'(3) relaxed_star_places [OF a'(2)] by blast
      moreover have "(relaxed n_f ?z P n)\<^sup>*\<^sup>* a a'" using a1(2) a'(2) by (rule converse_rtranclp_into_rtranclp)
      ultimately show ?thesis using a1(1) a'(1) by auto
    qed
  qed
qed

section \<open>The search\<close>

lemma matching_pool_valid:
  assumes "pool_ok n_f startPos (allowed m w targetPos startPos fpp) a" "w_tile w \<noteq> None" "position_isValid startPos"
    "i < length (a_nodes a)"
  shows "position_isValid (node_place (pos_z startPos) (a_nodes a ! i))"
proof (cases "i = 0")
  case True
  then show ?thesis using poolD(4) [OF assms(1)] assms(3) by simp
next
  case False
  then show ?thesis
    using poolD(9) [OF assms(1,4)] walks_valid [OF assms(2)] by (auto simp: hangs_def allowed_def)
qed

text \<open>While nothing was found \<open>bestMatch\<close> is zero; a place found is a suitable place of the pool.\<close>

definition found_ok ::
  "game_map \<Rightarrow> position \<Rightarrow> position \<Rightarrow> find_path_params \<Rightarrow> astar_nodes \<Rightarrow> nat option \<Rightarrow> position \<Rightarrow> int \<Rightarrow> bool" where
  "found_ok m targetPos startPos fpp a found endPos best \<longleftrightarrow>
     (case found of
        None \<Rightarrow> best = 0
      | Some i \<Rightarrow> i < length (a_nodes a) \<and> node_place (pos_z startPos) (a_nodes a ! i) = endPos
          \<and> suitable m targetPos startPos fpp endPos)"

text \<open>A place the condition accepts before anything was found.\<close>

definition accepted_first :: "game_map \<Rightarrow> position \<Rightarrow> position \<Rightarrow> find_path_params \<Rightarrow> position \<Rightarrow> bool" where
  "accepted_first m targetPos startPos fpp p \<longleftrightarrow>
     (\<exists>best. pathCondition m targetPos startPos p fpp 0 = Inr (True, best))"

lemma relaxed_place:
  assumes "relaxed key (pos_z start) P n a a'" "i < length (a_nodes a)"
  shows "i < length (a_nodes a') \<and> node_place (pos_z start) (a_nodes a' ! i) = node_place (pos_z start) (a_nodes a ! i)"
  using assms
proof (induction rule: relaxed.induct)
  case (better k a node)
  then show ?case by (cases "i = k") (simp_all add: improve_def)
qed (simp_all add: extend_def nth_append)

lemma relaxed_star_place:
  assumes "(relaxed key (pos_z start) P n)\<^sup>*\<^sup>* a a'" "i < length (a_nodes a)"
  shows "i < length (a_nodes a') \<and> node_place (pos_z start) (a_nodes a' ! i) = node_place (pos_z start) (a_nodes a ! i)"
  using assms by (induction rule: rtranclp_induct) (auto dest: relaxed_place)

lemma matching_search_spec:
  fixes m w targetPos startPos fpp
  defines "P \<equiv> allowed m w targetPos startPos fpp"
    and "Q \<equiv> \<lambda>p. \<not> accepted_first m targetPos startPos fpp p"
  assumes m: "map_ok m" and tile: "w_tile w \<noteq> None" and valid: "position_isValid startPos" "position_isValid targetPos"
  shows "pool_ok n_f startPos P a \<Longrightarrow> found_ok m targetPos startPos fpp a found endPos best \<Longrightarrow>
    (found = None \<longrightarrow> explored (matching_offsets fpp) P Q (pos_z startPos) a) \<Longrightarrow>
    \<exists>r e a'. matching_search m w targetPos startPos fpp a found endPos best = Some (Inr (r, e, a'))
      \<and> pool_ok n_f startPos P a'
      \<and> (case r of
           Some i \<Rightarrow> i < length (a_nodes a') \<and> node_place (pos_z startPos) (a_nodes a' ! i) = e \<and> suitable m targetPos startPos fpp e
         | None \<Rightarrow> fpp_maxSearchDist fpp = - 1 \<or> (\<exists>b. pool_ok n_f startPos P b \<and> length (a_nodes b) = MAX_NODES)
             \<or> explored (matching_offsets fpp) P Q (pos_z startPos) a' \<and> getBestNode a' = None)"
proof (induction a arbitrary: found endPos best rule: measure_induct_rule [of "search_measure n_f"])
  case (less a)
  let ?z = "pos_z startPos" and ?ds = "matching_offsets fpp"
  note unfold = matching_search.simps [of m w targetPos startPos fpp a found endPos best]
  show ?case
  proof (cases "\<not> (fpp_maxSearchDist fpp \<noteq> - 1 \<or> countClosedNodes a < 100) \<or> getBestNode a = None")
    case True
    then show ?thesis using less.prems by (subst unfold) (auto simp: found_ok_def split: option.splits)
  next
    case False
    then obtain n where best_node: "getBestNode a = Some n"
      and goon: "fpp_maxSearchDist fpp \<noteq> - 1 \<or> countClosedNodes a < 100" by auto
    have n: "n < length (a_nodes a)" "a_open a ! n" using getBestNode_Some [OF best_node] by simp_all
    let ?p = "node_place ?z (a_nodes a ! n)"
    have p: "position_isValid ?p" by (rule matching_pool_valid [OF less.prems(1) [unfolded P_def] tile valid(1) n(1)])
    have new: "position_new (n_x (a_nodes a ! n)) (n_y (a_nodes a ! n)) ?z = Inr ?p"
      using p by (simp add: position_new_def node_place_def)
    obtain b best' where cond: "pathCondition m targetPos startPos ?p fpp best = Inr (b, best')"
      "b \<longrightarrow> suitable m targetPos startPos fpp ?p" "\<not> b \<longrightarrow> best' = best"
      by (rule pathCondition_total [OF m valid(2) p, of startPos fpp best])
    let ?found = "if b then Some n else found" and ?goal = "if b then ?p else endPos"
    have found': "found_ok m targetPos startPos fpp a ?found ?goal best'"
      using less.prems(2) cond(2,3) n(1) by (auto simp: found_ok_def)
    show ?thesis
    proof (cases "b \<and> best' = 0")
      case True
      then show ?thesis using less.prems(1) best_node goon n(1) cond(1,2) new by (subst unfold) auto
    next
      case away: False
      have step: "matching_search m w targetPos startPos fpp a found endPos best =
          (case matching_neighbours m w targetPos startPos fpp (?found \<noteq> None) n ?ds a of
             Inl e \<Rightarrow> Some (Inl e)
           | Inr None \<Rightarrow> Some (Inr (None, ?goal, a))
           | Inr (Some a) \<Rightarrow> matching_search m w targetPos startPos fpp (closeNode n a) ?found ?goal best')"
        using best_node goon cond(1) new away by (subst unfold) (simp add: Let_def)
      have ds: "set ?ds \<subseteq> set neighbourOrderList" unfolding matching_offsets_def by (rule set_take_subset)
      note nb = matching_neighbours_spec [OF m tile, where targetPos = targetPos and startPos = startPos and fpp = fpp
          and found = "?found \<noteq> None", folded P_def, OF less.prems(1) n(1) ds p]
      show ?thesis
      proof (cases "matching_neighbours m w targetPos startPos fpp (?found \<noteq> None) n ?ds a = Inr None")
        case True
        then obtain c where "(relaxed n_f ?z P n)\<^sup>*\<^sup>* a c" "length (a_nodes c) = MAX_NODES" using nb by auto
        then have "\<exists>c. pool_ok n_f startPos P c \<and> length (a_nodes c) = MAX_NODES"
          using relaxed_star less.prems(1) n(1) by blast
        then show ?thesis using True less.prems(1) unfolding step by simp
      next
        case False
        then obtain a' where a': "matching_neighbours m w targetPos startPos fpp (?found \<noteq> None) n ?ds a = Inr (Some a')"
          "(relaxed n_f ?z P n)\<^sup>*\<^sup>* a a'"
          "steps_from ?ds ?p \<inter> Collect P \<subseteq> places ?z a' \<or> ?found \<noteq> None"
          using nb by blast
        note star = relaxed_star [OF a'(2) less.prems(1) n(1)]
        have ok': "pool_ok n_f startPos P (closeNode n a')" using star by (blast intro: closeNode_pool)
        have keep: "found_ok m targetPos startPos fpp (closeNode n a') ?found ?goal best'"
          using found' relaxed_star_place [OF a'(2)] by (auto simp: found_ok_def closeNode_def split: option.splits)
        have expl: "?found = None \<longrightarrow> explored ?ds P Q ?z (closeNode n a')"
        proof
          assume none: "?found = None"
          then have nb: "\<not> b" "found = None" by (auto split: if_splits)
          then have "best = 0" using less.prems(2) by (simp add: found_ok_def)
          then have "Q ?p" using cond(1) nb(1) by (simp add: Q_def accepted_first_def)
          have "explored ?ds P Q ?z a'" "pool_ok n_f startPos P a'"
            using explored_star [OF a'(2) less.prems(1)] less.prems(3) nb(2) by simp_all
          then show "explored ?ds P Q ?z (closeNode n a')"
            using star a'(3) none \<open>Q ?p\<close> by (intro explored_close) (auto simp: poolD(1))
        qed
        show ?thesis
          using less.IH [OF turn_decreases [OF a'(2) less.prems(1) n] ok' keep expl] unfolding step a'(1) by simp
      qed
    qed
  qed
qed

section \<open>The route\<close>

lemma matching_route_spec:
  assumes "pool_ok key start P a" "i < length (a_nodes a)"
  shows "\<exists>ds. (\<forall>acc. matching_route a (n_parent (a_nodes a ! i)) (uint (n_x (a_nodes a ! i))) (uint (n_y (a_nodes a ! i))) acc
        = Some (ds @ acc))
      \<and> last (start # visited start ds) = node_place (pos_z start) (a_nodes a ! i) \<and> set (visited start ds) \<subseteq> Collect P"
  using assms(2)
proof (induction "nat (key (a_nodes a ! i))" arbitrary: i rule: less_induct)
  case less
  let ?z = "pos_z start"
  show ?case
  proof (cases "i = 0")
    case True
    then show ?thesis
      using poolD(4,5) [OF assms(1)] by (intro exI [of _ "[]"]) (simp add: matching_route.simps [of a None])
  next
    case False
    then obtain p where p: "n_parent (a_nodes a ! i) = Some p" "p < length (a_nodes a)"
      "nat (key (a_nodes a ! p)) < nat (key (a_nodes a ! i))"
      "adjacent (node_place ?z (a_nodes a ! p)) (node_place ?z (a_nodes a ! i))" "P (node_place ?z (a_nodes a ! i))"
      by (auto elim: parent_step [OF assms(1) less.prems])
    obtain ds where ds: "\<forall>acc. matching_route a (n_parent (a_nodes a ! p)) (uint (n_x (a_nodes a ! p))) (uint (n_y (a_nodes a ! p))) acc
        = Some (ds @ acc)"
      "last (start # visited start ds) = node_place ?z (a_nodes a ! p)" "set (visited start ds) \<subseteq> Collect P"
      using less.hyps [OF p(3,2)] by blast
    obtain e where e: "direction_from (uint (n_x (a_nodes a ! p)) - uint (n_x (a_nodes a ! i)))
        (uint (n_y (a_nodes a ! p)) - uint (n_y (a_nodes a ! i))) = [e]"
      "moved e (node_place ?z (a_nodes a ! p)) = node_place ?z (a_nodes a ! i)"
      using step_cases(2) [OF p(4)] by auto
    have "visited start (ds @ [e]) = visited start ds @ [node_place ?z (a_nodes a ! i)]"
      unfolding visited_append ds(2) using e(2) by simp
    then show ?thesis
      using ds(1,3) e(1) p(1,5)
      by (intro exI [of _ "ds @ [e]"]) (simp add: matching_route.simps [of a "Some p"] Let_def)
  qed
qed

definition good_match :: "game_map \<Rightarrow> walker \<Rightarrow> position \<Rightarrow> find_path_params \<Rightarrow> direction list \<Rightarrow> bool" where
  "good_match m w targetPos fpp ds \<longleftrightarrow>
     suitable m targetPos (w_position w) fpp (last (w_position w # visited (w_position w) ds))
     \<and> (\<forall>p \<in> set (visited (w_position w) ds).
          canWalkTo m w p = Inr True \<and> in_box (w_position w) (fpp_maxSearchDist fpp) p
          \<and> (fpp_keepDistance fpp \<longrightarrow> isInRange targetPos (w_position w) p fpp))"

definition matching_start :: "position \<Rightarrow> astar_nodes" where
  "matching_start p = \<lparr>a_nodes = [blank_node\<lparr>n_x := pos_x p, n_y := pos_y p\<rparr>], a_open = [True]\<rparr>"

lemma matching_start_ok:
  "pool_ok n_f p P (matching_start p)" "explored ds R Q (pos_z p) (matching_start p)"
  "found_ok m t s fpp (matching_start p) None e 0"
  by (cases p, simp add: pool_ok_def matching_start_def blank_node_def node_place_def MAX_NODES_def explored_def found_ok_def)+

lemma path_matching_outcome:
  fixes m w targetPos fpp
  assumes m: "map_ok m" and tile: "w_tile w \<noteq> None" and valid: "position_isValid (w_position w)" "position_isValid targetPos"
  defines "P \<equiv> allowed m w targetPos (w_position w) fpp"
  obtains (found) route where "getPathMatching m w targetPos fpp = Some (Inr (True, route))" "good_match m w targetPos fpp route"
  | (failed) a where "getPathMatching m w targetPos fpp = Some (Inr (False, []))" "pool_ok n_f (w_position w) P a"
      "fpp_maxSearchDist fpp = - 1 \<or> (\<exists>b. pool_ok n_f (w_position w) P b \<and> length (a_nodes b) = MAX_NODES)
       \<or> explored (matching_offsets fpp) P (\<lambda>p. \<not> accepted_first m targetPos (w_position w) fpp p) (pos_z (w_position w)) a
         \<and> getBestNode a = None"
proof -
  let ?p = "w_position w"
  have copy: "position_copy ?p = Inr ?p" using valid(1) by (simp add: position_copy_def)
  have create: "createOpenNode astar_new = Some (0, \<lparr>a_nodes = [blank_node], a_open = [True]\<rparr>)"
    by (simp add: createOpenNode_def astar_new_def MAX_NODES_def)
  obtain r e a where ra: "matching_search m w targetPos ?p fpp (matching_start ?p) None position_default 0 = Some (Inr (r, e, a))"
    "pool_ok n_f ?p P a"
    "case r of
       Some i \<Rightarrow> i < length (a_nodes a) \<and> node_place (pos_z ?p) (a_nodes a ! i) = e \<and> suitable m targetPos ?p fpp e
     | None \<Rightarrow> fpp_maxSearchDist fpp = - 1 \<or> (\<exists>b. pool_ok n_f ?p P b \<and> length (a_nodes b) = MAX_NODES)
         \<or> explored (matching_offsets fpp) P (\<lambda>p. \<not> accepted_first m targetPos ?p fpp p) (pos_z ?p) a \<and> getBestNode a = None"
    using matching_search_spec [OF m tile valid, of fpp "matching_start ?p" None position_default 0] matching_start_ok
    unfolding P_def by blast
  have run: "getPathMatching m w targetPos fpp =
      (case r of None \<Rightarrow> Some (Inr (False, []))
       | Some i \<Rightarrow>
           (case matching_route a (n_parent (a_nodes a ! i)) (uint (pos_x e)) (uint (pos_y e)) [] of
              None \<Rightarrow> None
            | Some route \<Rightarrow> Some (Inr (True, route))))"
    using ra(1) copy create
    by (simp add: getPathMatching_def matching_start_def blank_node_def split: option.splits)
  show thesis
  proof (cases r)
    case None
    then show thesis using failed ra(2,3) run by simp
  next
    case (Some i)
    then have i: "i < length (a_nodes a)" "node_place (pos_z ?p) (a_nodes a ! i) = e" "suitable m targetPos ?p fpp e"
      using ra(3) by simp_all
    have xy: "pos_x e = n_x (a_nodes a ! i)" "pos_y e = n_y (a_nodes a ! i)" using i(2) by auto
    obtain ds where ds: "matching_route a (n_parent (a_nodes a ! i)) (uint (pos_x e)) (uint (pos_y e)) [] = Some ds"
      "last (?p # visited ?p ds) = e" "set (visited ?p ds) \<subseteq> Collect P"
      using matching_route_spec [OF ra(2) i(1)] i(2) unfolding xy by (metis append_Nil2)
    have "good_match m w targetPos fpp ds"
      using ds(2,3) i(3) by (auto simp: good_match_def P_def allowed_def canWalkTo_walks [OF m])
    then show thesis using found run Some ds(1) by simp
  qed
qed

text \<open>
  C11: \<open>getPathMatching\<close> always returns, for every map, target and parameters: the search ends although it
  reopens nodes and goes on after the pool is used up.  When it returns true the route leads, over
  places the creature can walk to and within the limits of the search, to a place that is in range of the
  target, in sight of it if asked, and between the two distances; when it returns false the route is empty.
\<close>

theorem path_matching_returns_good_route:
  assumes "map_ok m" "w_tile w \<noteq> None" "position_isValid (w_position w)" "position_isValid targetPos"
  shows "\<exists>b route. getPathMatching m w targetPos fpp = Some (Inr (b, route))
    \<and> (if b then good_match m w targetPos fpp route else route = [])"
  by (cases rule: path_matching_outcome [OF assms, of fpp]) auto

lemma path_matching_returns_good_route_witness:
  "\<exists>b route. getPathMatching map_new hiker \<lparr>pos_x = 151, pos_y = 50, pos_z = 7\<rparr>
       (find_path_params_default\<lparr>fpp_maxTargetDist := 1\<rparr>) = Some (Inr (b, route))"
  using path_matching_returns_good_route [OF map_new_ok, of hiker "\<lparr>pos_x = 151, pos_y = 50, pos_z = 7\<rparr>"
    "find_path_params_default\<lparr>fpp_maxTargetDist := 1\<rparr>"]
  by (simp add: hiker_def position_isValid_iff) blast

text \<open>
  C12: With a search distance of at most ten, \<open>getPathMatching\<close> returns false only when no place that the
  condition accepts can be reached by allowed steps.
\<close>

theorem path_matching_fails_only_without_place:
  assumes "map_ok m" "w_tile w \<noteq> None" "position_isValid (w_position w)" "position_isValid targetPos"
    and "0 \<le> fpp_maxSearchDist fpp" "fpp_maxSearchDist fpp \<le> 10"
    and "getPathMatching m w targetPos fpp = Some (Inr (False, route))"
    and "(walk_step (matching_offsets fpp) (allowed m w targetPos (w_position w) fpp))\<^sup>*\<^sup>* (w_position w) p"
  shows "\<not> accepted_first m targetPos (w_position w) fpp p"
proof (cases rule: path_matching_outcome [OF assms(1-4), of fpp])
  case (1 route')
  then show ?thesis using assms(7) by simp
next
  case (2 a)
  let ?P = "allowed m w targetPos (w_position w) fpp"
  have in_P: "?P q \<Longrightarrow> in_box (w_position w) (fpp_maxSearchDist fpp) q" for q by (simp add: allowed_def)
  have ds: "set (matching_offsets fpp) \<subseteq> set neighbourOrderList" unfolding matching_offsets_def by (rule set_take_subset)
  have a: "explored (matching_offsets fpp) ?P (\<lambda>p. \<not> accepted_first m targetPos (w_position w) fpp p) (pos_z (w_position w)) a"
    "getBestNode a = None"
    using 2(3) pool_bound [OF _ in_P assms(5,6)] assms(5) by fastforce+
  have closed: "\<not> a_open a ! i" if "i < length (a_nodes a)" for i
  proof
    assume "a_open a ! i"
    then have "100000 \<le> n_f (a_nodes a ! i)" by (rule getBestNode_None [OF a(2) that])
    moreover have "n_f (a_nodes a ! i) \<le> 85 * 512"
      using poolD(3,8) [OF 2(2)] that by (fastforce simp: MAX_NODES_def)
    ultimately show False by simp
  qed
  have "p \<in> places (pos_z (w_position w)) a"
    using exhausted_reaches [OF 2(2) in_P assms(5,6) a(1) ds closed assms(8)] by simp
  then obtain i where "i < length (a_nodes a)" "p = node_place (pos_z (w_position w)) (a_nodes a ! i)"
    by (auto simp: in_set_conv_nth)
  then show ?thesis using a(1) closed unfolding explored_def by blast
qed

lemma path_matching_fails_only_without_place_witness:
  "\<exists>m. getPathMatching m hiker \<lparr>pos_x = 151, pos_y = 50, pos_z = 7\<rparr>
         (find_path_params_default\<lparr>fpp_maxSearchDist := 10\<rparr>) = Some (Inr (False, []))
     \<and> \<not> accepted_first m \<lparr>pos_x = 151, pos_y = 50, pos_z = 7\<rparr> (w_position hiker)
         (find_path_params_default\<lparr>fpp_maxSearchDist := 10\<rparr>) (w_position hiker)"
proof -
  let ?q = "\<lparr>pos_x = 151, pos_y = 50, pos_z = 7\<rparr>" and ?fpp = "find_path_params_default\<lparr>fpp_maxSearchDist := 10\<rparr>"
  have ok: "w_tile hiker \<noteq> None" "position_isValid (w_position hiker)" "position_isValid ?q"
    by (simp_all add: hiker_def position_isValid_iff)
  have "\<not> suitable map_new ?q (w_position hiker) ?fpp p" for p
    by (auto simp: suitable_def Let_def find_path_params_default_def)
  then have run: "getPathMatching map_new hiker ?q ?fpp = Some (Inr (False, []))"
    using path_matching_outcome [OF map_new_ok ok, of ?fpp] unfolding good_match_def by metis
  show ?thesis
    using run path_matching_fails_only_without_place [OF map_new_ok ok _ _ run, of "w_position hiker"]
    by (auto simp: find_path_params_default_def)
qed

end
