(* ===== verification/Spectators.thy ===== *)
theory Spectators
  imports Game_Map
begin

text \<open>
  Who sees what (\<^verbatim>\<open>src/sources/map.cpp\<close>): the map keeps its creatures in blocks of a hundred by a
  hundred tiles per floor, \<^verbatim>\<open>onCreatureMoved\<close> moves a creature between blocks, \<^verbatim>\<open>getSpectators\<close>
  collects those in view and keeps the answer of the standard view in a cache that the movers clear.
  Indices are exact: with at most 656 blocks either way they stay below \<open>2 ^ 24\<close>.
\<close>

section \<open>Blocks of creatures\<close>

definition clearSpectatorCache :: "game_map \<Rightarrow> game_map" where
  "clearSpectatorCache m = m\<lparr>m_spectatorCache := Map.empty\<rparr>"

definition creaturesIndexForPosition :: "game_map \<Rightarrow> position \<Rightarrow> nat" where
  "creaturesIndexForPosition m p =
     (let yBlocks = unat (m_creatureBlockCountY m); zBlocks = unat (m_creatureBlockCountZ m);
          xIndex = zBlocks * yBlocks * unat (pos_x p div creaturesBlockSize);
          yIndex = zBlocks * unat (pos_y p div creaturesBlockSize);
          zIndex = unat (pos_z p)
      in xIndex + yIndex + zIndex)"

text \<open>The array \<^verbatim>\<open>_creatures\<close> accessed at an index.\<close>

definition block_at :: "nat list list \<Rightarrow> int \<Rightarrow> nat list run" where
  "block_at cs i = (if 0 \<le> i \<and> i < int (length cs) then Inr (cs ! nat i) else Inl Undefined_behaviour)"

definition leave_block :: "game_map \<Rightarrow> nat \<Rightarrow> int \<Rightarrow> game_map run" where
  "leave_block m creature fromIndex =
     (case m_creatures m of
        Some cs \<Rightarrow>
          if fromIndex \<ge> 0
          then bind_run (block_at cs fromIndex) (\<lambda>creaturesBlock.
            require (creature \<in> set creaturesBlock)
              (Inr (m\<lparr>m_creatures := Some (cs[nat fromIndex := remove1 creature creaturesBlock])\<rparr>)))
          else Inr m
      | None \<Rightarrow> Inr m)"

definition enter_block_of :: "game_map \<Rightarrow> nat \<Rightarrow> int \<Rightarrow> game_map run" where
  "enter_block_of m creature toIndex =
     (if toIndex \<ge> 0
      then let cs = (case m_creatures m of
                       None \<Rightarrow> replicate (unat (m_creatureBlockCountX m) * unat (m_creatureBlockCountY m)
                                           * unat (m_creatureBlockCountZ m)) []
                     | Some cs \<Rightarrow> cs)
           in bind_run (block_at cs toIndex) (\<lambda>creaturesBlock.
             Inr (m\<lparr>m_creatures := Some (cs[nat toIndex := creaturesBlock @ [creature]])\<rparr>))
      else Inr m)"

text \<open>A tile is given by its position, \<open>None\<close> for the null pointer.\<close>

definition onCreatureMoved :: "game_map \<Rightarrow> nat \<Rightarrow> position option \<Rightarrow> position option \<Rightarrow> game_map run" where
  "onCreatureMoved m creature fromTile toTile =
     (let fromIndex = (case fromTile of None \<Rightarrow> - 1 | Some p \<Rightarrow> int (creaturesIndexForPosition m p));
          toIndex = (case toTile of None \<Rightarrow> - 1 | Some p \<Rightarrow> int (creaturesIndexForPosition m p))
      in if fromIndex = toIndex then Inr m
         else bind_run (leave_block m creature fromIndex) (\<lambda>m. enter_block_of m creature toIndex))"

section \<open>Spectators\<close>

definition maxViewportX :: int where "maxViewportX = 11"
definition maxViewportY :: int where "maxViewportY = 11"

text \<open>\<open>pos\<close> gives the position of a creature (\<^verbatim>\<open>Creature::getPosition\<close>).\<close>

fun block_loop ::
  "(nat \<Rightarrow> position) \<Rightarrow> bool \<Rightarrow> int \<Rightarrow> int \<Rightarrow> int \<Rightarrow> int \<Rightarrow> nat list \<Rightarrow> nat list \<Rightarrow> nat list" where
  "block_loop pos checkForDuplicates minX maxX minY maxY [] spectators = spectators"
| "block_loop pos checkForDuplicates minX maxX minY maxY (creature # creatures) spectators =
     (if uint (pos_x (pos creature)) < minX \<or> uint (pos_x (pos creature)) > maxX
         \<or> uint (pos_y (pos creature)) < minY \<or> uint (pos_y (pos creature)) > maxY
      then block_loop pos checkForDuplicates minX maxX minY maxY creatures spectators
      else if \<not> checkForDuplicates \<or> creature \<notin> set spectators
      then block_loop pos checkForDuplicates minX maxX minY maxY creatures (spectators @ [creature])
      else block_loop pos checkForDuplicates minX maxX minY maxY creatures spectators)"

fun blocks_loop :: "nat list list \<Rightarrow> (nat list \<Rightarrow> nat list \<Rightarrow> nat list) \<Rightarrow> int list \<Rightarrow> nat list \<Rightarrow> nat list run" where
  "blocks_loop cs visit [] spectators = Inr spectators"
| "blocks_loop cs visit (index # indices) spectators =
     bind_run (block_at cs index) (\<lambda>creatures. blocks_loop cs visit indices (visit creatures spectators))"

definition clamp :: "int \<Rightarrow> u16 \<Rightarrow> int" where
  "clamp v limit = max 0 (min v (uint limit))"

text \<open>
  One floor; the nested loops over the indices are one list.  The steps are zero only on a map
  without a size, whose array has no blocks: then the first access is already outside.
\<close>

definition spectators_on_floor ::
  "game_map \<Rightarrow> nat list list \<Rightarrow> (nat \<Rightarrow> position) \<Rightarrow> position \<Rightarrow> bool \<Rightarrow> int \<Rightarrow> int \<Rightarrow> int \<Rightarrow> int \<Rightarrow> nat
    \<Rightarrow> nat list \<Rightarrow> nat list run" where
  "spectators_on_floor m cs pos center checkForDuplicates basicMinX basicMaxX basicMinY basicMaxY z spectators =
     (let yBlocks = uint (m_creatureBlockCountY m); zBlocks = uint (m_creatureBlockCountZ m);
          indexStepX = zBlocks * yBlocks; indexStepY = zBlocks;
          deltaZ = uint (pos_z center) - int z;
          minX = clamp (basicMinX + deltaZ) map_maxX; maxX = clamp (basicMaxX + deltaZ) map_maxX;
          minY = clamp (basicMinY + deltaZ) map_maxY; maxY = clamp (basicMaxY + deltaZ) map_maxY;
          size = uint creaturesBlockSize
      in if maxX < minX \<or> maxY < minY then Inr spectators
         else if indexStepX = 0 \<or> indexStepY = 0 then Inl Undefined_behaviour
         else blocks_loop cs (block_loop pos checkForDuplicates minX maxX minY maxY)
           [indexX + indexY + int z. indexX \<leftarrow> range_step (indexStepX * (minX div size)) (indexStepX * (maxX div size)) indexStepX,
              indexY \<leftarrow> range_step (indexStepY * (minY div size)) (indexStepY * (maxY div size)) indexStepY]
           spectators)"

fun floors_loop :: "(nat \<Rightarrow> nat list \<Rightarrow> nat list run) \<Rightarrow> nat list \<Rightarrow> nat list \<Rightarrow> nat list run" where
  "floors_loop on_floor [] spectators = Inr spectators"
| "floors_loop on_floor (z # zs) spectators = bind_run (on_floor z spectators) (floors_loop on_floor zs)"

definition spectators_in ::
  "game_map \<Rightarrow> (nat \<Rightarrow> position) \<Rightarrow> nat list \<Rightarrow> position \<Rightarrow> bool \<Rightarrow> int \<Rightarrow> int \<Rightarrow> int \<Rightarrow> int \<Rightarrow> nat \<Rightarrow> nat
    \<Rightarrow> nat list run" where
  "spectators_in m pos spectators center checkForDuplicates minOffsetX maxOffsetX minOffsetY maxOffsetY minZ maxZ =
     (case m_creatures m of None \<Rightarrow> Inr spectators
      | Some cs \<Rightarrow>
          floors_loop
            (spectators_on_floor m cs pos center checkForDuplicates
               (uint (pos_x center) + minOffsetX) (uint (pos_x center) + maxOffsetX)
               (uint (pos_y center) + minOffsetY) (uint (pos_y center) + maxOffsetY))
            [minZ..<Suc maxZ] spectators)"

definition floors_in_view :: "bool \<Rightarrow> u8 \<Rightarrow> nat \<times> nat" where
  "floors_in_view multiFloor z =
     (if multiFloor
      then if isUnderground (ucast z)
           then (nat (max (uint z - 2) 0), min (unat z + 2) (unat map_maxZ))
           else (0, 7)
      else (unat z, unat z))"

text \<open>
  The list to fill is the caller's or, when \<open>entry\<close> holds, the entry of the cache for \<open>center\<close> itself
  (the code compares addresses).  The result is the list and the map with its cache.
\<close>

definition getSpectators ::
  "game_map \<Rightarrow> (nat \<Rightarrow> position) \<Rightarrow> nat list \<Rightarrow> bool \<Rightarrow> position \<Rightarrow> bool \<Rightarrow> bool \<Rightarrow> int \<Rightarrow> int \<Rightarrow> int \<Rightarrow> int
    \<Rightarrow> (nat list \<times> game_map) run" where
  "getSpectators m pos spectators entry center checkForDuplicates multiFloor westRange eastRange northRange southRange =
     (if uint (pos_z center) > uint map_maxZ then Inr (spectators, m)
      else
        let minOffsetX = (if westRange = 0 then - maxViewportX else - westRange);
            maxOffsetX = (if eastRange = 0 then maxViewportX else eastRange);
            minOffsetY = (if northRange = 0 then - maxViewportY else - northRange);
            maxOffsetY = (if southRange = 0 then maxViewportY else southRange);
            cacheResult = (minOffsetX = - maxViewportX \<and> maxOffsetX = maxViewportX
              \<and> minOffsetY = - maxViewportY \<and> maxOffsetY = maxViewportY \<and> multiFloor \<and> \<not> checkForDuplicates)
        in case (if cacheResult \<and> \<not> entry then m_spectatorCache m center else None) of
          Some cached \<Rightarrow> Inr (cached, m)
        | None \<Rightarrow>
            let (minZ, maxZ) = floors_in_view multiFloor (pos_z center)
            in bind_run (spectators_in m pos spectators center True minOffsetX maxOffsetX minOffsetY maxOffsetY minZ maxZ)
              (\<lambda>spectators. Inr (spectators,
                if cacheResult \<or> entry then m\<lparr>m_spectatorCache := (m_spectatorCache m)(center \<mapsto> spectators)\<rparr> else m)))"

text \<open>\<^verbatim>\<open>getSpectators(center)\<close>: the entry of the cache, filled on the first call.\<close>

definition getSpectators_at :: "game_map \<Rightarrow> (nat \<Rightarrow> position) \<Rightarrow> position \<Rightarrow> (nat list \<times> game_map) run" where
  "getSpectators_at m pos center =
     (if uint (pos_z center) > uint map_maxZ then Inr ([], m)
      else case m_spectatorCache m center of
        Some spectators \<Rightarrow> Inr (spectators, m)
      | None \<Rightarrow>
          let m = m\<lparr>m_spectatorCache := (m_spectatorCache m)(center \<mapsto> [])\<rparr>
          in getSpectators m pos [] True center False True 0 0 0 0)"

section \<open>Loops over blocks\<close>

lemma set_range_step:
  "0 < s \<Longrightarrow> set (range_step (s * a) (s * b) s) = (\<lambda>k. s * k) ` {a..b}"
proof (induction "nat (b + 1 - a)" arbitrary: a)
  case 0
  then show ?case by (subst range_step.simps) (simp add: mult_le_cancel_left)
next
  case (Suc n)
  then have "a \<le> b" "set (range_step (s * (a + 1)) (s * b) s) = (\<lambda>k. s * k) ` {a + 1..b}" by simp_all
  moreover from this have "{a..b} = insert a {a + 1..b}" by auto
  ultimately show ?case using Suc.prems
    by (subst range_step.simps) (simp add: mult_le_cancel_left distrib_left)
qed

definition in_rectangle :: "int \<Rightarrow> int \<Rightarrow> int \<Rightarrow> int \<Rightarrow> position \<Rightarrow> bool" where
  "in_rectangle x x' y y' p \<longleftrightarrow> x \<le> uint (pos_x p) \<and> uint (pos_x p) \<le> x' \<and> y \<le> uint (pos_y p) \<and> uint (pos_y p) \<le> y'"

lemma block_loop_spec:
  "set (block_loop pos True x x' y y' cs acc) = set acc \<union> {c \<in> set cs. in_rectangle x x' y y' (pos c)}"
  "distinct acc \<Longrightarrow> distinct (block_loop pos True x x' y y' cs acc)"
  by (induction cs arbitrary: acc) (auto simp: in_rectangle_def)

lemma blocks_loop_spec:
  assumes "\<forall>i \<in> set is. 0 \<le> i \<and> i < int (length cs)" "distinct acc"
  shows "\<exists>r. blocks_loop cs (block_loop pos True x x' y y') is acc = Inr r \<and> distinct r
    \<and> set r = set acc \<union> {c. \<exists>i \<in> set is. c \<in> set (cs ! nat i) \<and> in_rectangle x x' y y' (pos c)}"
  using assms
proof (induction "is" arbitrary: acc)
  case (Cons i js)
  let ?acc = "block_loop pos True x x' y y' (cs ! nat i) acc"
  obtain r where "blocks_loop cs (block_loop pos True x x' y y') js ?acc = Inr r" "distinct r"
    "set r = set ?acc \<union> {c. \<exists>i \<in> set js. c \<in> set (cs ! nat i) \<and> in_rectangle x x' y y' (pos c)}"
    using Cons.IH [of ?acc] Cons.prems block_loop_spec(2) by fastforce
  then show ?case using Cons.prems(1) by (auto simp: block_at_def block_loop_spec(1))
qed simp

lemma blocks_loop_outside:
  assumes "i \<in> set is" "int (length cs) \<le> i"
  shows "blocks_loop cs visit is acc = Inl Undefined_behaviour"
  using assms by (induction "is" arbitrary: acc) (auto simp: block_at_def bind_run_def)

section \<open>Blocks hold the creatures of their places\<close>

definition position_of :: "(nat \<rightharpoonup> position) \<Rightarrow> nat \<Rightarrow> position" where
  "position_of places c = (case places c of None \<Rightarrow> INVALID | Some p \<Rightarrow> p)"

text \<open>The block counts that \<^verbatim>\<open>setSize\<close> leaves, and the blocks of creatures that stand at \<open>places\<close>.\<close>

definition block_counts :: "game_map \<Rightarrow> u16 \<Rightarrow> u16 \<Rightarrow> bool" where
  "block_counts m w h \<longleftrightarrow> w \<le> 60001 \<and> h \<le> 60001 \<and> unat (m_creatureBlockCountX m) = unat w div 100 + 1
     \<and> unat (m_creatureBlockCountY m) = unat h div 100 + 1 \<and> m_creatureBlockCountZ m = 16"

definition registry_ok :: "game_map \<Rightarrow> u16 \<Rightarrow> u16 \<Rightarrow> (nat \<rightharpoonup> position) \<Rightarrow> bool" where
  "registry_ok m w h places \<longleftrightarrow> block_counts m w h
     \<and> (\<forall>c p. places c = Some p \<longrightarrow> on_map w h p)
     \<and> (case m_creatures m of None \<Rightarrow> places = Map.empty
        | Some cs \<Rightarrow> length cs = unat (m_creatureBlockCountX m) * unat (m_creatureBlockCountY m) * 16
            \<and> (\<forall>i < length cs. distinct (cs ! i)
                 \<and> set (cs ! i) = {c. \<exists>p. places c = Some p \<and> creaturesIndexForPosition m p = i}))"

lemma block_index:
  "block_counts m w h \<Longrightarrow> creaturesIndexForPosition m p =
     16 * (unat (m_creatureBlockCountY m) * (unat (pos_x p) div 100) + unat (pos_y p) div 100) + unat (pos_z p)"
  by (simp add: creaturesIndexForPosition_def block_counts_def creaturesBlockSize_def unat_div add_mult_distrib)

lemma block_index_less:
  assumes "block_counts m w h" "on_map w h p"
  shows "creaturesIndexForPosition m p < unat (m_creatureBlockCountX m) * unat (m_creatureBlockCountY m) * 16"
proof -
  let ?X = "unat (m_creatureBlockCountX m)" and ?Y = "unat (m_creatureBlockCountY m)"
  let ?x = "unat (pos_x p) div 100" and ?y = "unat (pos_y p) div 100"
  have "unat (pos_x p) \<le> unat w" "unat (pos_y p) \<le> unat h" "unat (pos_z p) \<le> 15"
    using assms(2) by (simp_all add: on_map_def word_less_nat_alt word_le_nat_alt)
  then have xyz: "?x < ?X" "?y < ?Y" "unat (pos_z p) \<le> 15"
    using assms(1) by (auto simp: block_counts_def less_Suc_eq_le div_le_mono)
  have "?Y * ?x + ?y < ?Y * Suc ?x" using xyz(2) by simp
  also have "\<dots> \<le> ?Y * ?X" using xyz(1) by (intro mult_le_mono) simp_all
  finally have "16 * (?Y * ?x + ?y) + 16 \<le> ?X * ?Y * 16" by (simp add: mult.commute)
  then show ?thesis using xyz(3) by (simp add: block_index [OF assms(1)])
qed

lemma block_index_cong: "block_counts m w h \<Longrightarrow> m_creatureBlockCountY m' = m_creatureBlockCountY m \<Longrightarrow>
  m_creatureBlockCountZ m' = m_creatureBlockCountZ m \<Longrightarrow> creaturesIndexForPosition m' = creaturesIndexForPosition m"
  by (rule ext) (simp add: creaturesIndexForPosition_def)

text \<open>Moving a creature never trips the assertion and keeps the blocks right.\<close>

lemma onCreatureMoved_spec:
  assumes reg: "registry_ok m w h places" and goal: "\<forall>p. toTile = Some p \<longrightarrow> on_map w h p"
  obtains m' where "onCreatureMoved m c (places c) toTile = Inr m'" "registry_ok m' w h (places(c := toTile))"
    "m_spectatorCache m' = m_spectatorCache m" "m_layers m' = m_layers m"
proof -
  let ?I = "creaturesIndexForPosition m" and ?n = "unat (m_creatureBlockCountX m) * unat (m_creatureBlockCountY m) * 16"
  have cnt: "block_counts m w h" and dom: "\<And>c p. places c = Some p \<Longrightarrow> on_map w h p"
    using reg by (auto simp: registry_ok_def)
  have less: "on_map w h p \<Longrightarrow> ?I p < ?n" for p by (rule block_index_less [OF cnt])
  have Z: "unat (m_creatureBlockCountZ m) = 16" using cnt by (simp add: block_counts_def)
  define cs where "cs = (case m_creatures m of None \<Rightarrow> replicate ?n [] | Some cs \<Rightarrow> cs)"
  have cs: "length cs = ?n" "\<forall>i < ?n. distinct (cs ! i) \<and> set (cs ! i) = {c. \<exists>p. places c = Some p \<and> ?I p = i}"
    using reg by (auto simp: registry_ok_def cs_def split: option.splits)
  define cs1 where "cs1 = (case places c of Some p \<Rightarrow> cs[?I p := remove1 c (cs ! ?I p)] | None \<Rightarrow> cs)"
  define cs2 where "cs2 = (case toTile of Some p \<Rightarrow> cs1[?I p := cs1 ! ?I p @ [c]] | None \<Rightarrow> cs1)"
  have at1: "distinct (cs1 ! i) \<and> set (cs1 ! i) = {k. k \<noteq> c \<and> (\<exists>p. places k = Some p \<and> ?I p = i)}" if "i < ?n" for i
  proof -
    have here: "distinct (cs ! i)" "set (cs ! i) = {c. \<exists>p. places c = Some p \<and> ?I p = i}" using cs(2) that by blast+
    have "cs1 ! i = remove1 c (cs ! i)"
    proof (cases "map_option ?I (places c) = Some i")
      case True
      then show ?thesis using that cs(1) by (auto simp: cs1_def)
    next
      case False
      then have "c \<notin> set (cs ! i)" "cs1 ! i = cs ! i"
        using here(2) by (auto simp: cs1_def nth_list_update split: option.split)
      then show ?thesis by (simp add: remove1_idem)
    qed
    then show ?thesis using here by auto
  qed
  have len: "length cs1 = ?n" "length cs2 = ?n" by (simp_all add: cs1_def cs2_def cs(1) split: option.split)
  have at2: "distinct (cs2 ! i) \<and> set (cs2 ! i) = {k. \<exists>p. (places(c := toTile)) k = Some p \<and> ?I p = i}" if "i < ?n" for i
  proof -
    have "cs2 ! i = (if map_option ?I toTile = Some i then cs1 ! i @ [c] else cs1 ! i)"
      using that len(1) by (auto simp: cs2_def nth_list_update split: option.splits)
    then show ?thesis using at1 [OF that] by auto
  qed
  show thesis
  proof (cases "map_option ?I (places c) = map_option ?I toTile")
    case True
    then have "onCreatureMoved m c (places c) toTile = Inr m"
      by (auto simp: onCreatureMoved_def split: option.splits)
    moreover have "registry_ok m w h (places(c := toTile))"
      using reg goal True
      by (cases toTile; cases "places c") (auto simp: registry_ok_def fun_upd_def split: option.splits)
    ultimately show thesis using that by blast
  next
    case False
    let ?m = "m\<lparr>m_creatures := Some cs2\<rparr>"
    have from_block: "places c = Some p \<Longrightarrow> m_creatures m = Some cs \<and> ?I p < ?n \<and> c \<in> set (cs ! ?I p)" for p
      using reg dom [of c p] less [of p] cs by (auto simp: registry_ok_def cs_def split: option.splits)
    have leave: "leave_block m c (case places c of None \<Rightarrow> - 1 | Some p \<Rightarrow> int (?I p)) =
        Inr (case places c of None \<Rightarrow> m | Some p \<Rightarrow> m\<lparr>m_creatures := Some cs1\<rparr>)"
      using from_block cs(1) by (auto simp: leave_block_def block_at_def cs1_def split: option.split)
    have "onCreatureMoved m c (places c) toTile = Inr ?m"
    proof (cases toTile)
      case None
      then obtain p where p: "places c = Some p" using False by (cases "places c") auto
      then show ?thesis
        using leave None by (simp add: onCreatureMoved_def enter_block_of_def cs2_def)
    next
      case (Some q)
      then have "enter_block_of (case places c of None \<Rightarrow> m | Some p \<Rightarrow> m\<lparr>m_creatures := Some cs1\<rparr>) c (int (?I q)) = Inr ?m"
        using goal less [of q] len(1) Z
        by (auto simp: enter_block_of_def block_at_def cs2_def cs1_def cs_def split: option.split)
      moreover have "(case places c of None \<Rightarrow> - 1 | Some p \<Rightarrow> int (?I p)) \<noteq> int (?I q)"
        using False Some by (auto split: option.split)
      ultimately show ?thesis using leave Some by (simp add: onCreatureMoved_def)
    qed
    moreover have "registry_ok ?m w h (places(c := toTile))"
      using cnt dom goal at2 len(2) block_index_cong [OF cnt, of ?m]
      by (auto simp: registry_ok_def block_counts_def)
    ultimately show thesis using that by force
  qed
qed

section \<open>One floor\<close>

lemma blocks_loop_inside:
  "blocks_loop cs visit is acc = Inr r \<Longrightarrow> i \<in> set is \<Longrightarrow> 0 \<le> i \<and> i < int (length cs)"
  by (induction "is" arbitrary: acc) (auto simp: run_simps block_at_def split: if_splits)

text \<open>The blocks that the loops visit on a floor, as pairs of block numbers.\<close>

lemma visited_blocks:
  assumes "0 < s" "0 < t"
  shows "set [i + j + z. i \<leftarrow> range_step (s * a) (s * b) s, j \<leftarrow> range_step (t * c) (t * d) t]
    = {s * k + t * l + z | k l. a \<le> k \<and> k \<le> b \<and> c \<le> l \<and> l \<le> d}"
proof -
  have "set [i + j + z. i \<leftarrow> range_step (s * a) (s * b) s, j \<leftarrow> range_step (t * c) (t * d) t]
      = (\<Union>k \<in> {a..b}. (\<lambda>l. s * k + t * l + z) ` {c..d})"
    by (simp add: set_range_step [OF assms(1)] set_range_step [OF assms(2)] image_image)
  also have "\<dots> = {s * k + t * l + z | k l. a \<le> k \<and> k \<le> b \<and> c \<le> l \<and> l \<le> d}"
    unfolding atLeastAtMost_def atLeast_def atMost_def by blast
  finally show ?thesis .
qed

definition on_floor :: "int \<Rightarrow> int \<Rightarrow> int \<Rightarrow> int \<Rightarrow> position \<Rightarrow> nat \<Rightarrow> position \<Rightarrow> bool" where
  "on_floor a b c d center z p \<longleftrightarrow> unat (pos_z p) = z
     \<and> (let dz = uint (pos_z center) - int z
        in in_rectangle (clamp (a + dz) map_maxX) (clamp (b + dz) map_maxX) (clamp (c + dz) map_maxY) (clamp (d + dz) map_maxY) p)"

lemma floor_of_index: "16 * a + int m = 16 * b + int n \<Longrightarrow> m \<le> 15 \<Longrightarrow> n \<le> 15 \<Longrightarrow> m = n"
  by presburger

lemma spectators_on_floor_spec:
  assumes reg: "registry_ok m w h places" and cs: "m_creatures m = Some cs" and z: "z \<le> 15" and acc: "distinct acc"
    and run: "spectators_on_floor m cs (position_of places) center True a b c d z acc = Inr r"
  shows "distinct r \<and> set r = set acc \<union> {k. \<exists>p. places k = Some p \<and> on_floor a b c d center z p}"
proof -
  let ?dz = "uint (pos_z center) - int z"
  define x x' y y' where xy: "x = clamp (a + ?dz) map_maxX" "x' = clamp (b + ?dz) map_maxX"
    "y = clamp (c + ?dz) map_maxY" "y' = clamp (d + ?dz) map_maxY"
  show ?thesis
  proof (cases "x' < x \<or> y' < y")
    case True
    then have "r = acc" "\<not> on_floor a b c d center z p" for p
      using run by (auto simp: spectators_on_floor_def Let_def xy on_floor_def in_rectangle_def)
    then show ?thesis using acc by simp
  next
    case False
    have cnt: "block_counts m w h" using reg by (simp add: registry_ok_def)
    let ?Y = "uint (m_creatureBlockCountY m)"
    have "m_creatureBlockCountY m \<noteq> 0" and Z: "m_creatureBlockCountZ m = 16" using cnt by (auto simp: block_counts_def)
    then have Y: "0 < ?Y" by (metis less_le uint_0_iff uint_ge_0)
    define indices where "indices =
      [i + j + int z. i \<leftarrow> range_step (16 * ?Y * (x div 100)) (16 * ?Y * (x' div 100)) (16 * ?Y),
         j \<leftarrow> range_step (16 * (y div 100)) (16 * (y' div 100)) 16]"
    have set_indices: "set indices = {16 * ?Y * k + 16 * l + int z | k l.
        x div 100 \<le> k \<and> k \<le> x' div 100 \<and> y div 100 \<le> l \<and> l \<le> y' div 100}"
      unfolding indices_def by (rule visited_blocks) (simp_all add: Y)
    have loop: "blocks_loop cs (block_loop (position_of places) True x x' y y') indices acc = Inr r"
      using run False Y Z by (simp add: spectators_on_floor_def Let_def xy [symmetric] indices_def creaturesBlockSize_def)
    note inside = blocks_loop_inside [OF loop]
    have r: "distinct r" "set r = set acc \<union> {k. \<exists>i \<in> set indices. k \<in> set (cs ! nat i) \<and> in_rectangle x x' y y' (position_of places k)}"
      using blocks_loop_spec [of indices cs acc "position_of places" x x' y y'] inside acc loop by auto
    have "(\<exists>i \<in> set indices. k \<in> set (cs ! nat i) \<and> in_rectangle x x' y y' (position_of places k))
        \<longleftrightarrow> (\<exists>p. places k = Some p \<and> on_floor a b c d center z p)" for k
    proof
      assume "\<exists>i \<in> set indices. k \<in> set (cs ! nat i) \<and> in_rectangle x x' y y' (position_of places k)"
      then obtain e f where ef: "x div 100 \<le> e" "y div 100 \<le> f"
        and k: "k \<in> set (cs ! nat (16 * ?Y * e + 16 * f + int z))" "in_rectangle x x' y y' (position_of places k)"
        and i: "16 * ?Y * e + 16 * f + int z \<in> set indices"
        unfolding set_indices by blast
      from inside [OF i] k(1) obtain p where p: "places k = Some p"
        "int (creaturesIndexForPosition m p) = 16 * ?Y * e + 16 * f + int z"
        using reg cs by (auto simp: registry_ok_def nat_less_iff)
      have "16 * (?Y * int (unat (pos_x p) div 100) + int (unat (pos_y p) div 100)) + int (unat (pos_z p)) = 16 * (?Y * e + f) + int z"
        using p(2) unfolding block_index [OF cnt] by (simp add: algebra_simps)
      moreover have "unat (pos_z p) \<le> 15"
        using reg p(1) by (auto simp: registry_ok_def on_map_def word_le_nat_alt)
      ultimately have "unat (pos_z p) = z" by (rule floor_of_index [OF _ _ z])
      then show "\<exists>p. places k = Some p \<and> on_floor a b c d center z p"
        using p(1) k(2) by (auto simp: on_floor_def Let_def xy position_of_def)
    next
      assume "\<exists>p. places k = Some p \<and> on_floor a b c d center z p"
      then obtain p where p: "places k = Some p" "unat (pos_z p) = z" "in_rectangle x x' y y' p"
        by (auto simp: on_floor_def Let_def xy)
      have idx: "int (creaturesIndexForPosition m p)
          = 16 * ?Y * (uint (pos_x p) div 100) + 16 * (uint (pos_y p) div 100) + int z"
        unfolding block_index [OF cnt] p(2) by (simp add: algebra_simps zdiv_int)
      have "x div 100 \<le> uint (pos_x p) div 100" "uint (pos_x p) div 100 \<le> x' div 100"
        "y div 100 \<le> uint (pos_y p) div 100" "uint (pos_y p) div 100 \<le> y' div 100"
        using p(3) by (auto simp: in_rectangle_def intro: zdiv_mono1)
      then have "int (creaturesIndexForPosition m p) \<in> set indices"
        unfolding set_indices idx by blast
      moreover have "k \<in> set (cs ! creaturesIndexForPosition m p)"
        using reg cs p(1) block_index_less [OF cnt, of p] by (auto simp: registry_ok_def)
      ultimately show "\<exists>i \<in> set indices. k \<in> set (cs ! nat i) \<and> in_rectangle x x' y y' (position_of places k)"
        using p(1,3) by (intro bexI [of _ "int (creaturesIndexForPosition m p)"]) (auto simp: position_of_def)
    qed
    then show ?thesis using r by simp
  qed
qed

text \<open>The floor is read without leaving the array when its corner lies in a block.\<close>

lemma spectators_on_floor_total:
  assumes reg: "registry_ok m w h places" and cs: "m_creatures m = Some cs" and z: "z \<le> 15"
    and corner: "clamp (b + (uint (pos_z center) - int z)) map_maxX div 100 < uint (m_creatureBlockCountX m)"
      "clamp (d + (uint (pos_z center) - int z)) map_maxY div 100 < uint (m_creatureBlockCountY m)"
    and acc: "distinct acc"
  obtains r where "spectators_on_floor m cs (position_of places) center True a b c d z acc = Inr r"
proof -
  let ?dz = "uint (pos_z center) - int z"
  define x x' y y' where xy: "x = clamp (a + ?dz) map_maxX" "x' = clamp (b + ?dz) map_maxX"
    "y = clamp (c + ?dz) map_maxY" "y' = clamp (d + ?dz) map_maxY"
  let ?X = "uint (m_creatureBlockCountX m)" and ?Y = "uint (m_creatureBlockCountY m)"
  have cnt: "block_counts m w h" and len: "int (length cs) = ?X * ?Y * 16"
    using reg cs by (simp_all add: registry_ok_def)
  have "m_creatureBlockCountY m \<noteq> 0" and Z: "m_creatureBlockCountZ m = 16" using cnt by (auto simp: block_counts_def)
  then have Y: "0 < ?Y" by (metis less_le uint_0_iff uint_ge_0)
  define indices where "indices =
    [i + j + int z. i \<leftarrow> range_step (16 * ?Y * (x div 100)) (16 * ?Y * (x' div 100)) (16 * ?Y),
       j \<leftarrow> range_step (16 * (y div 100)) (16 * (y' div 100)) 16]"
  have set_indices: "set indices = {16 * ?Y * k + 16 * l + int z | k l.
      x div 100 \<le> k \<and> k \<le> x' div 100 \<and> y div 100 \<le> l \<and> l \<le> y' div 100}"
    unfolding indices_def by (rule visited_blocks) (simp_all add: Y)
  have "0 \<le> i \<and> i < int (length cs)" if mem: "i \<in> set indices" for i
  proof -
    obtain k l where i: "i = 16 * ?Y * k + 16 * l + int z" "x div 100 \<le> k" "k \<le> x' div 100" "y div 100 \<le> l" "l \<le> y' div 100"
      using mem unfolding set_indices mem_Collect_eq by (elim exE conjE)
    have "0 \<le> x" "0 \<le> y" unfolding xy clamp_def by (rule max.cobounded1)+
    then have "0 \<le> x div 100" "0 \<le> y div 100" by simp_all
    moreover have "x' div 100 < ?X" "y' div 100 < ?Y" using corner unfolding xy by blast+
    ultimately have kl: "0 \<le> k" "0 \<le> l" "k + 1 \<le> ?X" "l + 1 \<le> ?Y" using i(2-) by linarith+
    have "?Y * k + ?Y \<le> ?X * ?Y" using mult_left_mono [OF kl(3), of ?Y] Y by (simp add: algebra_simps)
    then have "16 * (?Y * k) + 16 * ?Y \<le> ?X * ?Y * 16" by simp
    then show ?thesis using kl(1,2,4) Y z unfolding i(1) len mult.assoc by simp
  qed
  then obtain r where "blocks_loop cs (block_loop (position_of places) True x x' y y') indices acc = Inr r"
    using blocks_loop_spec [OF _ acc, of indices cs] by blast
  then have "\<exists>r. spectators_on_floor m cs (position_of places) center True a b c d z acc = Inr r"
    using Y Z by (simp add: spectators_on_floor_def Let_def xy [symmetric] indices_def creaturesBlockSize_def)
  then show thesis using that by blast
qed

section \<open>All floors\<close>

lemma floors_loop_spec:
  assumes "\<And>z acc r. z \<in> set zs \<Longrightarrow> distinct acc \<Longrightarrow> f z acc = Inr r \<Longrightarrow> distinct r \<and> set r = set acc \<union> F z"
    and "distinct acc" "floors_loop f zs acc = Inr r"
  shows "distinct r \<and> set r = set acc \<union> \<Union> (F ` set zs)"
  using assms
proof (induction zs arbitrary: acc)
  case (Cons z zs)
  then obtain acc' where "f z acc = Inr acc'" "floors_loop f zs acc' = Inr r" by (auto simp: run_simps)
  moreover from this have "distinct acc' \<and> set acc' = set acc \<union> F z" by (intro Cons.prems(1)) (simp_all add: Cons.prems(2))
  ultimately show ?case using Cons.IH [of acc'] Cons.prems(1) by auto
qed simp

lemma floors_loop_total:
  assumes "\<And>z acc. z \<in> set zs \<Longrightarrow> distinct acc \<Longrightarrow> \<exists>r. f z acc = Inr r \<and> distinct r" and "distinct acc"
  shows "\<exists>r. floors_loop f zs acc = Inr r"
  using assms
proof (induction zs arbitrary: acc)
  case (Cons z zs)
  obtain r where "f z acc = Inr r" "distinct r" using Cons.prems by fastforce
  then show ?case using Cons.IH [of r] Cons.prems(1) by simp
qed simp

text \<open>The standard view: eleven tiles each way, shifted by the difference of the floors.\<close>

definition sees :: "bool \<Rightarrow> position \<Rightarrow> position \<Rightarrow> bool" where
  "sees multiFloor center p \<longleftrightarrow>
     (let (minZ, maxZ) = floors_in_view multiFloor (pos_z center); dz = uint (pos_z center) - uint (pos_z p)
      in minZ \<le> unat (pos_z p) \<and> unat (pos_z p) \<le> maxZ
        \<and> \<bar>uint (pos_x p) - (uint (pos_x center) + dz)\<bar> \<le> 11 \<and> \<bar>uint (pos_y p) - (uint (pos_y center) + dz)\<bar> \<le> 11)"

lemma floors_near:
  assumes "position_isValid center" "floors_in_view multiFloor (pos_z center) = (lo, hi)" "lo \<le> z" "z \<le> hi"
  shows "z \<le> 15" "\<bar>uint (pos_z center) - int z\<bar> \<le> 7"
proof -
  define n where "n = unat (pos_z center)"
  have n: "uint (pos_z center) = int n" "unat (pos_z center) = n" by (simp_all add: n_def)
  have "n \<le> 15" using assms(1) by (simp add: n_def position_isValid_iff word_le_nat_alt)
  moreover have "isUnderground (ucast (pos_z center)) \<longleftrightarrow> 8 \<le> n"
    by (simp add: n_def isUnderground_def word_le_nat_alt)
  ultimately show "z \<le> 15" "\<bar>uint (pos_z center) - int z\<bar> \<le> 7"
    using assms(2-4) by (auto simp: floors_in_view_def map_maxZ_def n split: if_splits)
qed

lemma clamp_between:
  assumes "0 \<le> x" "x \<le> 60000" "a \<le> 60000" "0 \<le> b" "uint limit = 60000"
  shows "clamp a limit \<le> x \<and> x \<le> clamp b limit \<longleftrightarrow> a \<le> x \<and> x \<le> b"
  using assms by (auto simp: clamp_def)

lemma uint_map_max: "uint map_maxX = 60000" "uint map_maxY = 60000"
  by (simp_all add: map_maxX_def map_maxY_def)

lemma valid_coordinates:
  "position_isValid p \<Longrightarrow> uint (pos_x p) \<le> 60000 \<and> uint (pos_y p) \<le> 60000"
  by (simp add: position_isValid_iff word_le_def)

lemma on_map_valid: "block_counts m w h \<Longrightarrow> on_map w h p \<Longrightarrow> position_isValid p"
  by (auto simp: block_counts_def on_map_def position_isValid_iff word_less_nat_alt word_le_nat_alt)

lemma on_floor_sees:
  assumes center: "position_isValid center" "floors_in_view multiFloor (pos_z center) = (lo, hi)" and p: "position_isValid p"
  shows "(\<exists>z \<in> set [lo..<Suc hi]. on_floor (uint (pos_x center) - 11) (uint (pos_x center) + 11)
      (uint (pos_y center) - 11) (uint (pos_y center) + 11) center z p) \<longleftrightarrow> sees multiFloor center p"
proof -
  have "on_floor (uint (pos_x center) - 11) (uint (pos_x center) + 11) (uint (pos_y center) - 11) (uint (pos_y center) + 11)
          center z p
      \<longleftrightarrow> unat (pos_z p) = z \<and> \<bar>uint (pos_x p) - (uint (pos_x center) + (uint (pos_z center) - uint (pos_z p)))\<bar> \<le> 11
        \<and> \<bar>uint (pos_y p) - (uint (pos_y center) + (uint (pos_z center) - uint (pos_z p)))\<bar> \<le> 11"
    if "lo \<le> z" "z \<le> hi" for z
  proof (cases "unat (pos_z p) = z")
    case True
    then have dz: "\<bar>uint (pos_z center) - uint (pos_z p)\<bar> \<le> 7" and z: "int z = uint (pos_z p)"
      using floors_near(2) [OF center that] by auto
    have between: "clamp (c - 11 + d) limit \<le> v \<and> v \<le> clamp (c + 11 + d) limit \<longleftrightarrow> \<bar>v - (c + d)\<bar> \<le> 11"
      if "0 \<le> v" "v \<le> 60000" "0 \<le> c" "c \<le> 60000" "\<bar>d\<bar> \<le> 7" "uint limit = 60000" for v c d and limit :: u16
      using clamp_between [of v "c - 11 + d" "c + 11 + d" limit] that by auto
    show ?thesis
      using True valid_coordinates [OF p] valid_coordinates [OF center(1)] dz
        between [of "uint (pos_x p)" "uint (pos_x center)" "uint (pos_z center) - uint (pos_z p)" map_maxX]
        between [of "uint (pos_y p)" "uint (pos_y center)" "uint (pos_z center) - uint (pos_z p)" map_maxY]
      by (simp add: on_floor_def Let_def in_rectangle_def z uint_map_max) argo
  qed (simp add: on_floor_def)
  then show ?thesis by (auto simp: sees_def center(2) Let_def)
qed

lemma union_of_places:
  assumes "\<And>c p. places c = Some p \<Longrightarrow> (\<exists>z \<in> Z. A z p) \<longleftrightarrow> B p"
  shows "(\<Union>z \<in> Z. {c. \<exists>p. places c = Some p \<and> A z p}) = {c. \<exists>p. places c = Some p \<and> B p}"
  using assms by blast

lemma standard_view_spec:
  assumes reg: "registry_ok m w h places" and center: "position_isValid center" "floors_in_view multiFloor (pos_z center) = (lo, hi)"
    and run: "spectators_in m (position_of places) [] center True (- 11) 11 (- 11) 11 lo hi = Inr r"
  shows "distinct r \<and> set r = {c. \<exists>p. places c = Some p \<and> sees multiFloor center p}"
proof (cases "m_creatures m")
  case None
  then show ?thesis using reg run by (simp add: registry_ok_def spectators_in_def)
next
  case (Some cs)
  let ?at = "on_floor (uint (pos_x center) - 11) (uint (pos_x center) + 11) (uint (pos_y center) - 11) (uint (pos_y center) + 11) center"
  have "distinct r \<and> set r = set [] \<union> (\<Union>z \<in> set [lo..<Suc hi]. {c. \<exists>p. places c = Some p \<and> ?at z p})"
  proof (rule floors_loop_spec)
    show "floors_loop (spectators_on_floor m cs (position_of places) center True (uint (pos_x center) - 11)
        (uint (pos_x center) + 11) (uint (pos_y center) - 11) (uint (pos_y center) + 11)) [lo..<Suc hi] [] = Inr r"
      using run Some by (simp add: spectators_in_def)
  next
    fix z acc r
    assume "z \<in> set [lo..<Suc hi]" "distinct acc" and on: "spectators_on_floor m cs (position_of places) center True
      (uint (pos_x center) - 11) (uint (pos_x center) + 11) (uint (pos_y center) - 11) (uint (pos_y center) + 11) z acc = Inr r"
    then show "distinct r \<and> set r = set acc \<union> {c. \<exists>p. places c = Some p \<and> ?at z p}"
      using floors_near(1) [OF center] by (intro spectators_on_floor_spec [OF reg Some _ _ on]) auto
  qed simp
  moreover have valid: "position_isValid p" if "places c = Some p" for c p
    using reg on_map_valid that by (auto simp: registry_ok_def)
  have "(\<Union>z \<in> set [lo..<Suc hi]. {c. \<exists>p. places c = Some p \<and> ?at z p}) = {c. \<exists>p. places c = Some p \<and> sees multiFloor center p}"
    by (rule union_of_places) (rule on_floor_sees [OF center valid])
  ultimately show ?thesis by (simp only: list.set(1) Un_empty_left)
qed

text \<open>Away from the south and east end of the blocks the standard view stays inside the array.\<close>

definition away_from_end :: "game_map \<Rightarrow> position \<Rightarrow> bool" where
  "away_from_end m center \<longleftrightarrow> uint (pos_x center) + 18 < 100 * uint (m_creatureBlockCountX m)
     \<and> uint (pos_y center) + 18 < 100 * uint (m_creatureBlockCountY m)"

lemma clamp_block: "0 \<le> v \<Longrightarrow> v < 100 * n \<Longrightarrow> clamp v limit div 100 < n"
  by (auto simp: clamp_def min_def)

lemma standard_view_total:
  assumes reg: "registry_ok m w h places" and center: "position_isValid center" "floors_in_view multiFloor (pos_z center) = (lo, hi)"
    and away: "away_from_end m center"
  shows "\<exists>r. spectators_in m (position_of places) [] center True (- 11) 11 (- 11) 11 lo hi = Inr r"
proof (cases "m_creatures m")
  case None
  then show ?thesis by (simp add: spectators_in_def)
next
  case (Some cs)
  let ?f = "spectators_on_floor m cs (position_of places) center True (uint (pos_x center) - 11)
        (uint (pos_x center) + 11) (uint (pos_y center) - 11) (uint (pos_y center) + 11)"
  have "\<exists>r. floors_loop ?f [lo..<Suc hi] [] = Inr r"
  proof (rule floors_loop_total)
    fix z acc assume z: "z \<in> set [lo..<Suc hi]" and acc: "distinct (acc :: nat list)"
    have dz: "\<bar>uint (pos_z center) - int z\<bar> \<le> 7" and z15: "z \<le> 15" using floors_near [OF center, of z] z by auto
    have "clamp (uint (pos_x center) + 11 + (uint (pos_z center) - int z)) map_maxX div 100 < uint (m_creatureBlockCountX m)"
      "clamp (uint (pos_y center) + 11 + (uint (pos_z center) - int z)) map_maxY div 100 < uint (m_creatureBlockCountY m)"
      using dz away unfolding away_from_end_def by (intro clamp_block; smt (verit) uint_ge_0)+
    from spectators_on_floor_total [OF reg Some z15 this acc]
    obtain r where "?f z acc = Inr r" by metis
    then show "\<exists>r. ?f z acc = Inr r \<and> distinct r"
      using spectators_on_floor_spec [OF reg Some z15 acc] by blast
  qed simp
  then show ?thesis using Some by (simp add: spectators_in_def)
qed

section \<open>The cache\<close>

definition in_view :: "(nat \<rightharpoonup> position) \<Rightarrow> bool \<Rightarrow> position \<Rightarrow> nat set" where
  "in_view places multiFloor center = {c. \<exists>p. places c = Some p \<and> sees multiFloor center p}"

definition cache_ok :: "game_map \<Rightarrow> (nat \<rightharpoonup> position) \<Rightarrow> bool" where
  "cache_ok m places \<longleftrightarrow> (\<forall>center l. m_spectatorCache m center = Some l \<longrightarrow> position_isValid center \<longrightarrow>
     distinct l \<and> set l = in_view places True center)"

lemma registry_cache [simp]: "registry_ok (m\<lparr>m_spectatorCache := c\<rparr>) w h places = registry_ok m w h places"
proof -
  have "creaturesIndexForPosition (m\<lparr>m_spectatorCache := c\<rparr>) = creaturesIndexForPosition m"
    by (rule ext) (simp add: creaturesIndexForPosition_def)
  then show ?thesis by (cases "m_creatures m") (simp_all add: registry_ok_def block_counts_def)
qed

lemma spectators_in_cache [simp]:
  "spectators_in (m\<lparr>m_spectatorCache := c\<rparr>) = spectators_in m"
proof -
  have "spectators_on_floor (m\<lparr>m_spectatorCache := c\<rparr>) = spectators_on_floor m"
    by (intro ext) (simp add: spectators_on_floor_def)
  then show ?thesis by (intro ext) (simp add: spectators_in_def split: option.split)
qed

lemma valid_floor: "position_isValid center \<Longrightarrow> uint (pos_z center) \<le> uint map_maxZ"
  by (simp add: position_isValid_iff word_le_def map_maxZ_def)

lemma getSpectators_cached:
  assumes "registry_ok m w h places" "cache_ok m places" "position_isValid center"
    and run: "getSpectators m (position_of places) [] False center dup multi we ea no so = Inr (l, m')"
  shows "registry_ok m' w h places \<and> cache_ok m' places
    \<and> (we = 0 \<and> ea = 0 \<and> no = 0 \<and> so = 0 \<longrightarrow> distinct l \<and> set l = in_view places multi center)"
proof -
  obtain lo hi where fl: "floors_in_view multi (pos_z center) = (lo, hi)" by force
  define a b c d where off: "a = (if we = 0 then - 11 else - we)" "b = (if ea = 0 then 11 else ea)"
    "c = (if no = 0 then - 11 else - no)" "d = (if so = 0 then 11 else so)"
  define std where "std \<longleftrightarrow> a = - 11 \<and> b = 11 \<and> c = - 11 \<and> d = 11 \<and> multi \<and> \<not> dup"
  have run': "(case (if std then m_spectatorCache m center else None) of
      Some cached \<Rightarrow> Inr (cached, m)
    | None \<Rightarrow> bind_run (spectators_in m (position_of places) [] center True a b c d lo hi) (\<lambda>l.
        Inr (l, if std then m\<lparr>m_spectatorCache := (m_spectatorCache m)(center \<mapsto> l)\<rparr> else m))) = Inr (l, m')"
    using run valid_floor [OF assms(3)]
    unfolding getSpectators_def Let_def maxViewportX_def maxViewportY_def off [symmetric] fl prod.case std_def
    by (simp only: not_less [symmetric] if_False simp_thms conj_assoc)
  have view: "spectators_in m (position_of places) [] center True (- 11) 11 (- 11) 11 lo hi = Inr r
      \<Longrightarrow> distinct r \<and> set r = in_view places multi center" for r
    unfolding in_view_def by (rule standard_view_spec [OF assms(1,3) fl])
  have cached: "m_spectatorCache m center = Some r \<Longrightarrow> distinct r \<and> set r = in_view places True center" for r
    using assms(2,3) by (auto simp: cache_ok_def)
  have zero: "we = 0 \<and> ea = 0 \<and> no = 0 \<and> so = 0 \<Longrightarrow> a = - 11 \<and> b = 11 \<and> c = - 11 \<and> d = 11"
    by (simp add: off)
  show ?thesis
  proof (cases std)
    case True
    then have "a = - 11 \<and> b = 11 \<and> c = - 11 \<and> d = 11 \<and> multi" by (simp add: std_def)
    then show ?thesis using run' assms(1,2) view cached True
      by (auto simp: run_simps cache_ok_def split: option.splits if_splits)
  next
    case False
    then show ?thesis using run' assms(1,2) view zero by (auto simp: run_simps)
  qed
qed

lemma getSpectators_at_run:
  assumes "position_isValid center"
  shows "getSpectators_at m pos center =
    (case m_spectatorCache m center of
       Some l \<Rightarrow> Inr (l, m)
     | None \<Rightarrow>
         let (lo, hi) = floors_in_view True (pos_z center)
         in bind_run (spectators_in m pos [] center True (- 11) 11 (- 11) 11 lo hi)
           (\<lambda>l. Inr (l, m\<lparr>m_spectatorCache := (m_spectatorCache m)(center \<mapsto> l)\<rparr>)))"
proof -
  let ?m = "m\<lparr>m_spectatorCache := (m_spectatorCache m)(center \<mapsto> [])\<rparr>"
  obtain lo hi where fl: "floors_in_view True (pos_z center) = (lo, hi)" by force
  have "getSpectators ?m pos [] True center False True 0 0 0 0 =
      bind_run (spectators_in m pos [] center True (- 11) 11 (- 11) 11 lo hi)
        (\<lambda>l. Inr (l, m\<lparr>m_spectatorCache := (m_spectatorCache m)(center \<mapsto> l)\<rparr>))"
    using valid_floor [OF assms] fl
    by (simp add: getSpectators_def Let_def maxViewportX_def maxViewportY_def)
  then show ?thesis using valid_floor [OF assms] fl
    by (simp add: getSpectators_at_def Let_def split: option.split)
qed

lemma getSpectators_at_cached:
  assumes "registry_ok m w h places" "cache_ok m places" "position_isValid center"
    and run: "getSpectators_at m (position_of places) center = Inr (l, m')"
  shows "registry_ok m' w h places \<and> cache_ok m' places \<and> distinct l \<and> set l = in_view places True center"
proof -
  obtain lo hi where fl: "floors_in_view True (pos_z center) = (lo, hi)" by force
  have view: "spectators_in m (position_of places) [] center True (- 11) 11 (- 11) 11 lo hi = Inr r
      \<Longrightarrow> distinct r \<and> set r = in_view places True center" for r
    unfolding in_view_def by (rule standard_view_spec [OF assms(1,3) fl])
  show ?thesis
    using run assms(1-3) view fl unfolding getSpectators_at_run [OF assms(3)]
    by (auto simp: run_simps cache_ok_def split: option.splits if_splits)
qed

section \<open>Creatures move and look\<close>

text \<open>
  The creatures of a running game: the map has been given its size; a creature appears, moves or
  disappears, when \<^verbatim>\<open>Tile::addCreature\<close> and \<^verbatim>\<open>Tile::removeCreature\<close> clear the cache, set its tile and
  call \<^verbatim>\<open>onCreatureMoved\<close>; anybody asks for spectators, also from the standard view with the caches
  filled before; the dispatcher clears the cache after a task.
\<close>

inductive world_reachable :: "u16 \<Rightarrow> u16 \<Rightarrow> game_map \<Rightarrow> (nat \<rightharpoonup> position) \<Rightarrow> bool" for w h where
  sized: "w \<le> 60001 \<Longrightarrow> h \<le> 60001 \<Longrightarrow> setSize map_new w h = Inr m \<Longrightarrow> world_reachable w h m Map.empty"
| moved: "world_reachable w h m places \<Longrightarrow> \<forall>p. toTile = Some p \<longrightarrow> on_map w h p \<Longrightarrow>
    onCreatureMoved (clearSpectatorCache m) c (places c) toTile = Inr m' \<Longrightarrow> world_reachable w h m' (places(c := toTile))"
| asked: "world_reachable w h m places \<Longrightarrow> position_isValid center \<Longrightarrow>
    getSpectators_at m (position_of places) center = Inr (l, m') \<Longrightarrow> world_reachable w h m' places"
| listed: "world_reachable w h m places \<Longrightarrow> position_isValid center \<Longrightarrow>
    getSpectators m (position_of places) [] False center dup multi we ea no so = Inr (l, m') \<Longrightarrow> world_reachable w h m' places"
| cleared: "world_reachable w h m places \<Longrightarrow> world_reachable w h (clearSpectatorCache m) places"

lemma setSize_blocks:
  assumes "w \<le> 60001" "h \<le> 60001" "setSize map_new w h = Inr m"
  shows "registry_ok m w h Map.empty" "cache_ok m Map.empty"
proof -
  have "m_creatureBlockCountX m = ucast (ucast (w div creaturesBlockSize) + 1 :: u32)"
    "m_creatureBlockCountY m = ucast (ucast (h div creaturesBlockSize) + 1 :: u32)"
    "m_creatureBlockCountZ m = ucast map_numZ" "m_creatures m = None" "m_spectatorCache m = Map.empty"
    using assms(3) by (auto simp: setSize_def run_simps map_new_def)
  moreover have "unat (ucast (ucast (v div creaturesBlockSize) + 1 :: u32) :: u16) = unat v div 100 + 1" for v :: u16
  proof -
    have v: "unat (ucast (v div creaturesBlockSize) :: u32) = unat v div 100"
      by (simp add: creaturesBlockSize_def unat_div)
    have "unat v div 100 \<le> 655" using unat_16_bound [of v] by simp
    then have "unat (ucast (v div creaturesBlockSize) + 1 :: u32) = unat v div 100 + 1"
      unfolding unat_word_ariths v by simp
    then show ?thesis using \<open>unat v div 100 \<le> 655\<close> by (simp add: unsigned_ucast_eq take_bit_nat_eq_self)
  qed
  ultimately show "registry_ok m w h Map.empty" "cache_ok m Map.empty"
    using assms(1,2) by (simp_all add: registry_ok_def block_counts_def cache_ok_def map_numZ_def map_maxZ_def)
qed

lemma world_reachable_ok: "world_reachable w h m places \<Longrightarrow> registry_ok m w h places \<and> cache_ok m places"
proof (induction rule: world_reachable.induct)
  case (sized m)
  then show ?case using setSize_blocks by simp
next
  case (moved m places toTile c m')
  then have "registry_ok (clearSpectatorCache m) w h places" by (simp add: clearSpectatorCache_def)
  then obtain m'' where "onCreatureMoved (clearSpectatorCache m) c (places c) toTile = Inr m''"
    "registry_ok m'' w h (places(c := toTile))" "m_spectatorCache m'' = m_spectatorCache (clearSpectatorCache m)"
    by (rule onCreatureMoved_spec [OF _ moved.hyps(2), of _ _ c])
  then show ?case using moved.hyps(3) by (simp add: clearSpectatorCache_def cache_ok_def fun_upd_def)
next
  case (asked m places center l m')
  then show ?case using getSpectators_at_cached by blast
next
  case (listed m places center dup multi we ea no so l m')
  then show ?case using getSpectators_cached by blast
next
  case (cleared m places)
  then show ?case by (simp add: clearSpectatorCache_def cache_ok_def)
qed

lemma reachable_blocks:
  assumes "world_reachable w h m places"
  shows "uint (m_creatureBlockCountX m) = uint w div 100 + 1" "uint (m_creatureBlockCountY m) = uint h div 100 + 1"
proof -
  have "unat (m_creatureBlockCountX m) = unat w div 100 + 1" "unat (m_creatureBlockCountY m) = unat h div 100 + 1"
    using world_reachable_ok [OF assms] by (simp_all add: registry_ok_def block_counts_def)
  then have "int (unat (m_creatureBlockCountX m)) = int (unat w div 100 + 1)" "int (unat (m_creatureBlockCountY m)) = int (unat h div 100 + 1)"
    by simp_all
  then show "uint (m_creatureBlockCountX m) = uint w div 100 + 1" "uint (m_creatureBlockCountY m) = uint h div 100 + 1"
    by (simp_all add: zdiv_int)
qed

text \<open>
  What the blocks should be: the map of \<open>w\<close> by \<open>h\<close> tiles is cut into squares of 100 tiles, sixteen
  floors each, and the list of a block holds every creature standing in it once and nobody else.
\<close>

definition block_number :: "u16 \<Rightarrow> position \<Rightarrow> nat" where
  "block_number h p =
     16 * ((unat h div 100 + 1) * (unat (pos_x p) div 100) + unat (pos_y p) div 100) + unat (pos_z p)"

definition blocks_exact :: "u16 \<Rightarrow> u16 \<Rightarrow> game_map \<Rightarrow> (nat \<rightharpoonup> position) \<Rightarrow> bool" where
  "blocks_exact w h m places \<longleftrightarrow>
     (case m_creatures m of None \<Rightarrow> places = Map.empty
      | Some cs \<Rightarrow> length cs = (unat w div 100 + 1) * (unat h div 100 + 1) * 16
          \<and> (\<forall>i < length cs. distinct (cs ! i)
               \<and> set (cs ! i) = {c. \<exists>p. places c = Some p \<and> block_number h p = i}))"

lemma registry_exact: "registry_ok m w h places \<Longrightarrow> blocks_exact w h m places"
proof -
  assume ok: "registry_ok m w h places"
  then have cnt: "block_counts m w h" by (simp add: registry_ok_def)
  then have "creaturesIndexForPosition m = block_number h"
    by (intro ext) (simp add: block_index [OF cnt] block_number_def block_counts_def)
  then show ?thesis
    using ok cnt by (simp add: registry_ok_def blocks_exact_def block_counts_def split: option.splits)
qed

text \<open>
  C14: moving a creature, letting it appear or disappear never trips the assertion of
  \<^verbatim>\<open>onCreatureMoved\<close> and never leaves the array of blocks, whatever the creatures did before, and
  it keeps the blocks exact: before and after, every block lists each creature standing in its
  square and on its floor exactly once, and nobody else.
\<close>

theorem creature_moves_never_fail:
  assumes "world_reachable w h m places" "\<forall>p. toTile = Some p \<longrightarrow> on_map w h p"
  shows "blocks_exact w h m places
    \<and> (\<exists>m'. onCreatureMoved (clearSpectatorCache m) c (places c) toTile = Inr m'
         \<and> blocks_exact w h m' (places(c := toTile)))"
proof -
  have ok: "registry_ok m w h places" "registry_ok (clearSpectatorCache m) w h places"
    using world_reachable_ok [OF assms(1)] by (simp_all add: clearSpectatorCache_def)
  obtain m' where "onCreatureMoved (clearSpectatorCache m) c (places c) toTile = Inr m'"
      "registry_ok m' w h (places(c := toTile))"
    by (rule onCreatureMoved_spec [OF ok(2) assms(2), of c])
  then show ?thesis using registry_exact ok(1) by blast
qed

text \<open>
  C13: However the creatures have moved and whatever was asked before, with the cache or without, the
  spectators of a place are exactly the creatures in the standard view around it, each once: eleven tiles
  each way, shifted by one tile for every floor, on the floors the place sees.  The place must be 18 tiles
  away from the end of the blocks.
\<close>

theorem spectators_are_those_in_view:
  assumes "world_reachable w h m places" "position_isValid center"
    and "uint (pos_x center) + 18 < 100 * (uint w div 100 + 1)" "uint (pos_y center) + 18 < 100 * (uint h div 100 + 1)"
  shows "(\<exists>l m'. getSpectators_at m (position_of places) center = Inr (l, m')
      \<and> distinct l \<and> set l = in_view places True center)
    \<and> (\<exists>l m'. getSpectators m (position_of places) [] False center checkForDuplicates multiFloor 0 0 0 0 = Inr (l, m')
      \<and> distinct l \<and> set l = in_view places multiFloor center)"
proof -
  have ok: "registry_ok m w h places" "cache_ok m places" using world_reachable_ok [OF assms(1)] by simp_all
  have away: "away_from_end m center" using assms(3,4) reachable_blocks [OF assms(1)] by (simp add: away_from_end_def)
  have view: "\<exists>r. spectators_in m (position_of places) [] center True (- 11) 11 (- 11) 11 lo hi = Inr r"
    if "floors_in_view b (pos_z center) = (lo, hi)" for b lo hi
    using standard_view_total [OF ok(1) assms(2) that away] .
  obtain lo hi lo' hi' where fl: "floors_in_view True (pos_z center) = (lo, hi)" "floors_in_view multiFloor (pos_z center) = (lo', hi')"
    by force
  obtain r r' where "spectators_in m (position_of places) [] center True (- 11) 11 (- 11) 11 lo hi = Inr r"
    "spectators_in m (position_of places) [] center True (- 11) 11 (- 11) 11 lo' hi' = Inr r'"
    using view fl by blast
  then have "\<exists>x. getSpectators_at m (position_of places) center = Inr x"
    "\<exists>y. getSpectators m (position_of places) [] False center checkForDuplicates multiFloor 0 0 0 0 = Inr y"
    using fl valid_floor [OF assms(2)]
    by (simp_all add: getSpectators_at_run [OF assms(2)] getSpectators_def Let_def maxViewportX_def maxViewportY_def split: option.split)
  then obtain x y where x: "getSpectators_at m (position_of places) center = Inr x"
    and y: "getSpectators m (position_of places) [] False center checkForDuplicates multiFloor 0 0 0 0 = Inr y" by blast
  show ?thesis
    using getSpectators_at_cached [OF ok assms(2), of "fst x" "snd x"]
      getSpectators_cached [OF ok assms(2), of checkForDuplicates multiFloor 0 0 0 0 "fst y" "snd y"] x y
    by (cases x; cases y) simp
qed

text \<open>
  C15: Near the east end of the blocks the loops run past the array: they are cut off at the largest
  coordinate there is, not at the size of the map.  On the surface every first question of a place
  whose view, on the lowest floor, reaches the column behind the last block reads outside the array.
\<close>

theorem spectators_read_past_map:
  assumes "world_reachable w h m places" "m_creatures m \<noteq> None" "m_spectatorCache m center = None"
    and "position_isValid center" "pos_z center \<le> 7"
    and "100 * (uint w div 100 + 1) \<le> uint (pos_x center) + 11 + uint (pos_z center)" "100 * (uint w div 100 + 1) \<le> 60000"
  shows "getSpectators_at m (position_of places) center = Inl Undefined_behaviour"
proof -
  have cnt: "block_counts m w h" using world_reachable_ok [OF assms(1)] by (simp add: registry_ok_def)
  obtain cs where cs: "m_creatures m = Some cs" using assms(2) by blast
  let ?X = "uint (m_creatureBlockCountX m)" and ?Y = "uint (m_creatureBlockCountY m)"
  have len: "int (length cs) = ?X * ?Y * 16" using world_reachable_ok [OF assms(1)] cs by (simp add: registry_ok_def)
  have Y: "0 < ?Y" using reachable_blocks(2) [OF assms(1)] by (simp add: pos_imp_zdiv_nonneg_iff add_nonneg_pos)
  define x x' y y' where xy: "x = clamp (uint (pos_x center) - 11 + uint (pos_z center)) map_maxX"
    "x' = clamp (uint (pos_x center) + 11 + uint (pos_z center)) map_maxX"
    "y = clamp (uint (pos_y center) - 11 + uint (pos_z center)) map_maxY"
    "y' = clamp (uint (pos_y center) + 11 + uint (pos_z center)) map_maxY"
  have ordered: "x \<le> x'" "y \<le> y'" by (auto simp: xy clamp_def)
  have "100 * ?X \<le> x'" using assms(6,7) reachable_blocks(1) [OF assms(1)] by (simp add: xy clamp_def uint_map_max)
  then have X: "?X \<le> x' div 100" by simp
  define indices where "indices = [i + j + int 0. i \<leftarrow> range_step (16 * ?Y * (x div 100)) (16 * ?Y * (x' div 100)) (16 * ?Y),
       j \<leftarrow> range_step (16 * (y div 100)) (16 * (y' div 100)) 16]"
  have "16 * ?Y * (x' div 100) + 16 * (y div 100) + int 0 \<in> set indices"
  proof -
    have "x div 100 \<le> x' div 100" "y div 100 \<le> y' div 100" using ordered by (simp_all add: zdiv_mono1)
    moreover have "set indices = {16 * ?Y * k + 16 * l + int 0 | k l.
        x div 100 \<le> k \<and> k \<le> x' div 100 \<and> y div 100 \<le> l \<and> l \<le> y' div 100}"
      unfolding indices_def by (rule visited_blocks) (simp_all add: Y)
    ultimately show ?thesis by blast
  qed
  moreover have "int (length cs) \<le> 16 * ?Y * (x' div 100) + 16 * (y div 100) + int 0"
  proof -
    have "?Y * ?X \<le> ?Y * (x' div 100)" using X Y by (intro mult_left_mono) simp_all
    moreover have "0 \<le> y" unfolding xy clamp_def by (rule max.cobounded1)
    then have "0 \<le> y div 100" by simp
    ultimately show ?thesis unfolding len by (simp add: algebra_simps)
  qed
  ultimately have "blocks_loop cs (block_loop (position_of places) True x x' y y') indices [] = Inl Undefined_behaviour"
    by (rule blocks_loop_outside)
  then have floor: "spectators_on_floor m cs (position_of places) center True (uint (pos_x center) - 11) (uint (pos_x center) + 11)
      (uint (pos_y center) - 11) (uint (pos_y center) + 11) 0 [] = Inl Undefined_behaviour"
    using Y cnt ordered
    by (simp add: spectators_on_floor_def Let_def xy [symmetric] indices_def creaturesBlockSize_def block_counts_def)
  have "floors_in_view True (pos_z center) = (0, 7)"
    using assms(5) by (simp add: floors_in_view_def isUnderground_def word_le_nat_alt)
  then show ?thesis
    using floor cs assms(3) by (simp add: getSpectators_at_run [OF assms(4)] spectators_in_def upt_rec [of 0])
qed

lemma one_creature_reachable:
  assumes "v = 200 \<or> v = 199" "on_map v 100 p"
  obtains m where "world_reachable v 100 m [1 \<mapsto> p]" "m_creatures m \<noteq> None" "m_spectatorCache m = Map.empty"
proof -
  have v: "v \<le> 60001" "unat v * unat (100 :: u16) < 2 ^ 31" using assms(1) by auto
  obtain m0 where m0: "setSize map_new v 100 = Inr m0"
    by (rule setSize_spec [OF v(1) _ v(2), of map_new]) (simp_all add: map_new_def)
  have sized: "world_reachable v 100 m0 Map.empty" by (rule world_reachable.sized [OF v(1) _ m0]) simp
  then obtain m where m: "onCreatureMoved (clearSpectatorCache m0) 1 None (Some p) = Inr m"
    using onCreatureMoved_spec [of "clearSpectatorCache m0" v 100 Map.empty "Some p" 1]
      world_reachable_ok [OF sized] assms(2) by (auto simp: clearSpectatorCache_def)
  have "world_reachable v 100 m [1 \<mapsto> p]"
    using world_reachable.moved [OF sized, of "Some p" 1 m] m assms(2) by simp
  moreover have "m_creatures m \<noteq> None" "m_spectatorCache m = Map.empty"
    using m by (auto simp: onCreatureMoved_def leave_block_def enter_block_of_def clearSpectatorCache_def Let_def run_simps
        split: option.splits)
  ultimately show thesis using that by blast
qed

lemma creature_moves_never_fail_witness:
  "\<exists>m m'. onCreatureMoved (clearSpectatorCache m) 1 (Some \<lparr>pos_x = 99, pos_y = 50, pos_z = 7\<rparr>)
     (Some \<lparr>pos_x = 100, pos_y = 50, pos_z = 7\<rparr>) = Inr m'
     \<and> blocks_exact 200 100 m [1 \<mapsto> \<lparr>pos_x = 99, pos_y = 50, pos_z = 7\<rparr>]
     \<and> blocks_exact 200 100 m' [1 \<mapsto> \<lparr>pos_x = 100, pos_y = 50, pos_z = 7\<rparr>]"
proof -
  let ?p = "\<lparr>pos_x = 99, pos_y = 50, pos_z = 7\<rparr>" and ?q = "\<lparr>pos_x = 100, pos_y = 50, pos_z = 7\<rparr>"
  obtain m where "world_reachable 200 100 m [1 \<mapsto> ?p]"
    by (rule one_creature_reachable [of 200 ?p]) (simp_all add: on_map_def)
  from creature_moves_never_fail [OF this, of "Some ?q" 1] show ?thesis by (auto simp: on_map_def)
qed

lemma spectators_are_those_in_view_witness:
  "\<exists>m l m'. getSpectators_at m (position_of [1 \<mapsto> \<lparr>pos_x = 99, pos_y = 50, pos_z = 7\<rparr>])
     \<lparr>pos_x = 105, pos_y = 45, pos_z = 7\<rparr> = Inr (l, m') \<and> l = [1]"
proof -
  let ?p = "\<lparr>pos_x = 99, pos_y = 50, pos_z = 7\<rparr>" and ?c = "\<lparr>pos_x = 105, pos_y = 45, pos_z = 7\<rparr>"
  obtain m where m: "world_reachable 200 100 m [1 \<mapsto> ?p]"
    by (rule one_creature_reachable [of 200 ?p]) (simp_all add: on_map_def)
  have "in_view [1 \<mapsto> ?p] True ?c = {1}"
    by (auto simp: in_view_def sees_def floors_in_view_def isUnderground_def)
  then obtain l m' where "getSpectators_at m (position_of [1 \<mapsto> ?p]) ?c = Inr (l, m')" "distinct l" "set l = {1}"
    using spectators_are_those_in_view [OF m, of ?c False True] by (auto simp: position_isValid_iff)
  moreover from this have "l = [1]" by (cases l) (auto simp: subset_singleton_iff)
  ultimately show ?thesis by blast
qed

lemma spectators_read_past_map_witness:
  "\<exists>m. getSpectators_at m (position_of [1 \<mapsto> \<lparr>pos_x = 195, pos_y = 50, pos_z = 7\<rparr>])
     \<lparr>pos_x = 195, pos_y = 50, pos_z = 7\<rparr> = Inl Undefined_behaviour"
proof -
  let ?p = "\<lparr>pos_x = 195, pos_y = 50, pos_z = 7\<rparr>"
  obtain m where m: "world_reachable 199 100 m [1 \<mapsto> ?p]" "m_creatures m \<noteq> None" "m_spectatorCache m = Map.empty"
    by (rule one_creature_reachable [of 199 ?p]) (simp_all add: on_map_def)
  then show ?thesis
    using spectators_read_past_map [OF m(1,2), of ?p] by (auto simp: position_isValid_iff)
qed

end
