(* ===== verification/Items.thy ===== *)
theory Items
  imports Constants Text_Tools
begin

text \<open>
  Items and what holds them (\<^verbatim>\<open>src/sources/item.h\<close>, \<^verbatim>\<open>item.cpp\<close>, \<^verbatim>\<open>items.h\<close>, \<^verbatim>\<open>thing.h\<close>,
  \<^verbatim>\<open>thing.cpp\<close>, \<^verbatim>\<open>cylinder.h\<close>): the fields of an item that its containers read and write, in a store
  from addresses to items.  Weights are exact numbers of hundredths of an ounce where the code
  adds floating point numbers.
\<close>

section \<open>Kinds and items\<close>

datatype (plugins only: code) item_group =
  ITEM_GROUP_NONE | ITEM_GROUP_GROUND | ITEM_GROUP_CONTAINER | ITEM_GROUP_WEAPON | ITEM_GROUP_AMMUNITION
| ITEM_GROUP_ARMOR | ITEM_GROUP_CHARGES | ITEM_GROUP_TELEPORTER | ITEM_GROUP_MAGICFIELD
| ITEM_GROUP_WRITEABLE | ITEM_GROUP_KEY | ITEM_GROUP_SPLASH | ITEM_GROUP_FLUID | ITEM_GROUP_DOOR
| ITEM_GROUP_DEPRECATED

datatype (plugins only: code) item_type =
  ItemType_GENERIC | ItemType_DEPOT | ItemType_MAILBOX | ItemType_TRASHHOLDER | ItemType_CONTAINER
| ItemType_DOOR | ItemType_MAGICFIELD | ItemType_TELEPORTER | ItemType_BED | ItemType_KEY

datatype (plugins only: code) floor_change =
  CHANGE_DOWN | CHANGE_NORTH | CHANGE_EAST | CHANGE_SOUTH | CHANGE_WEST | CHANGE_NORTH_EX | CHANGE_EAST_EX
| CHANGE_SOUTH_EX | CHANGE_WEST_EX | CHANGE_NONE

text \<open>The properties of a kind; \<open>k_floorChange\<close> are its ten bits for the changes of the floor.\<close>

record item_kind =
  k_id :: u16
  k_group :: item_group
  k_type :: item_type
  k_maxItems :: u16
  k_weight :: int
  k_worth :: u32
  k_charges :: u16
  k_clientCharges :: bool
  k_stackable :: bool
  k_isVertical :: bool
  k_isHorizontal :: bool
  k_isHangable :: bool
  k_moveable :: bool
  k_pickupable :: bool
  k_replaceable :: bool
  k_lookThrough :: bool
  k_hasHeight :: bool
  k_blockSolid :: bool
  k_blockProjectile :: bool
  k_blockPathFind :: bool
  k_allowPickupable :: bool
  k_alwaysOnTop :: bool
  k_alwaysOnTopOrder :: int
  k_floorChange :: "floor_change \<Rightarrow> bool"

definition isGroundTile :: "item_kind \<Rightarrow> bool" where "isGroundTile k \<longleftrightarrow> k_group k = ITEM_GROUP_GROUND"
definition isContainer :: "item_kind \<Rightarrow> bool" where "isContainer k \<longleftrightarrow> k_group k = ITEM_GROUP_CONTAINER"
definition isSplash :: "item_kind \<Rightarrow> bool" where "isSplash k \<longleftrightarrow> k_group k = ITEM_GROUP_SPLASH"
definition isFluidContainer :: "item_kind \<Rightarrow> bool" where "isFluidContainer k \<longleftrightarrow> k_group k = ITEM_GROUP_FLUID"
definition isMagicField :: "item_kind \<Rightarrow> bool" where "isMagicField k \<longleftrightarrow> k_type k = ItemType_MAGICFIELD"
definition isBed :: "item_kind \<Rightarrow> bool" where "isBed k \<longleftrightarrow> k_type k = ItemType_BED"
definition isRune :: "item_kind \<Rightarrow> bool" where "isRune k \<longleftrightarrow> k_clientCharges k"

text \<open>The C++ class of an item, chosen when it is created.\<close>

datatype (plugins only: code) item_class =
  Class_Item | Class_Depot | Class_Container | Class_Teleporter | Class_MagicField | Class_Door
| Class_TrashHolder | Class_Mailbox | Class_BedItem

text \<open>
  The cylinders, the things that hold things: a container, a creature, a tile and the virtual
  cylinder.  The objects are numbered.
\<close>

datatype cylinder = Container_at nat | Creature_at nat | Tile_at nat | Virtual_cylinder

text \<open>
  The members of \<^verbatim>\<open>Container\<close>; an item that is a container has them.  A \<^verbatim>\<open>Depot\<close> is a container that
  has a limit, too.
\<close>

record box =
  b_items :: "nat list"
  b_maxSize :: u32
  b_totalWeight :: int
  b_depotLimit :: "u32 option"

text \<open>Of the attributes the charges, the fluid type and the two identifiers are read here.\<close>

record item =
  it_kind :: item_kind
  it_class :: item_class
  it_count :: u8
  it_charges :: "int option"
  it_fluidType :: "int option"
  it_actionId :: "int option"
  it_uniqueId :: "int option"
  it_loadedFromMap :: bool
  it_parent :: "cylinder option"
  it_box :: "box option"

type_synonym store = "nat \<Rightarrow> item"

definition setCharges :: "u16 \<Rightarrow> item \<Rightarrow> item" where
  "setCharges charges i = i\<lparr>it_charges := Some (uint charges)\<rparr>"

definition setFluidType :: "u16 \<Rightarrow> item \<Rightarrow> item" where
  "setFluidType fluidType i = i\<lparr>it_fluidType := Some (uint fluidType)\<rparr>"

definition attribute_u16 :: "int option \<Rightarrow> u16" where
  "attribute_u16 v = (case v of Some v \<Rightarrow> if v \<ge> 0 then word_of_int v else 0 | None \<Rightarrow> 0)"

definition getCharges :: "item \<Rightarrow> u16" where "getCharges i = attribute_u16 (it_charges i)"
definition item_getFluidType :: "item \<Rightarrow> u16" where "item_getFluidType i = attribute_u16 (it_fluidType i)"

text \<open>The amount is kept in eight bits although the setters get sixteen.\<close>

definition getItemCount :: "item \<Rightarrow> u16" where "getItemCount i = ucast (it_count i)"
definition setItemCount :: "u16 \<Rightarrow> item \<Rightarrow> item" where "setItemCount n i = i\<lparr>it_count := ucast n\<rparr>"

text \<open>The constructor; durations are left out.\<close>

definition item_new :: "item_kind \<Rightarrow> u16 \<Rightarrow> item" where
  "item_new kind amount =
     (let i = \<lparr>it_kind = kind, it_class = Class_Item, it_count = 1, it_charges = None, it_fluidType = None,
            it_actionId = None, it_uniqueId = None, it_loadedFromMap = False, it_parent = None, it_box = None\<rparr>;
          i = (if k_charges kind \<noteq> 0 then setCharges (k_charges kind) i else i)
      in if isFluidContainer kind \<or> isSplash kind then setFluidType amount i
         else if k_stackable kind \<and> amount \<noteq> 0 then setItemCount amount i
         else if k_charges kind \<noteq> 0 \<and> amount \<noteq> 0 then setCharges amount i
         else i)"

definition container_new :: "item_kind \<Rightarrow> item" where
  "container_new kind =
     (item_new kind 0)\<lparr>it_class := Class_Container, it_box := Some \<lparr>b_items = [], b_maxSize = ucast (k_maxItems kind), b_totalWeight = 0,
       b_depotLimit = None\<rparr>\<rparr>"

definition depot_new :: "item_kind \<Rightarrow> item" where
  "depot_new kind =
     (let i = container_new kind
      in i\<lparr>it_class := Class_Depot, it_box := map_option (\<lambda>b. b\<lparr>b_maxSize := 30, b_depotLimit := Some 1000\<rparr>) (it_box i)\<rparr>)"

text \<open>
  \<^verbatim>\<open>CreateItem\<close>: \<open>kinds\<close> is the table of kinds.  An unknown kind is reported with the identifier read
  through the null pointer.
\<close>

definition created_kindId :: "u16 \<Rightarrow> u16" where
  "created_kindId kindId =
     (if kindId \<in> {2210, 2211, 2212} then kindId - 3
      else if kindId \<in> {2215, 2216} then kindId - 2
      else if kindId \<in> {2202, 2203, 2204, 2205, 2206} then kindId - 37
      else if kindId = 2640 then 6132
      else if kindId = 6301 then 6300
      else kindId)"

definition CreateItem :: "(u16 \<Rightarrow> item_kind option) \<Rightarrow> u16 \<Rightarrow> u16 \<Rightarrow> item option run" where
  "CreateItem kinds kindId amount =
     (if kindId = 0 then Inr None
      else case kinds (created_kindId kindId) of
        None \<Rightarrow> Inl Undefined_behaviour
      | Some kind \<Rightarrow>
          let special = (\<lambda>c. Inr (Some ((item_new kind 0)\<lparr>it_class := c\<rparr>)))
          in if k_group kind = ITEM_GROUP_DEPRECATED then Inr None
             else if k_type kind = ItemType_DEPOT then Inr (Some (depot_new kind))
             else if isContainer kind then Inr (Some (container_new kind))
             else if k_type kind = ItemType_TELEPORTER then special Class_Teleporter
             else if isMagicField kind then special Class_MagicField
             else if k_type kind = ItemType_DOOR then special Class_Door
             else if k_type kind = ItemType_TRASHHOLDER then special Class_TrashHolder
             else if k_type kind = ItemType_MAILBOX then special Class_Mailbox
             else if isBed kind then special Class_BedItem
             else Inr (Some (item_new kind amount)))"

definition getSubType :: "item \<Rightarrow> u16" where
  "getSubType i =
     (if isFluidContainer (it_kind i) \<or> isSplash (it_kind i) then item_getFluidType i
      else if k_charges (it_kind i) \<noteq> 0 then getCharges i
      else getItemCount i)"

definition setSubType :: "u16 \<Rightarrow> item \<Rightarrow> item" where
  "setSubType n i =
     (if isFluidContainer (it_kind i) \<or> isSplash (it_kind i) then setFluidType n i
      else if k_charges (it_kind i) \<noteq> 0 then setCharges n i
      else setItemCount n i)"

definition setDefaultSubtype :: "item \<Rightarrow> item" where
  "setDefaultSubtype i =
     (let i = setItemCount 1 i
      in if k_charges (it_kind i) \<noteq> 0 then setCharges (k_charges (it_kind i)) i else i)"

definition countByType :: "item \<Rightarrow> int \<Rightarrow> bool \<Rightarrow> u32" where
  "countByType i checkType multiCount =
     (if checkType \<noteq> - 1 \<and> checkType \<noteq> uint (getSubType i) then 0
      else if multiCount then ucast (getItemCount i)
      else if isRune (it_kind i) then ucast (getCharges i)
      else ucast (getItemCount i))"

definition getWorth :: "item \<Rightarrow> 64 word" where
  "getWorth i = ucast (getItemCount i) * ucast (k_worth (it_kind i))"

definition item_weight :: "item \<Rightarrow> int" where
  "item_weight i =
     (if k_stackable (it_kind i) then k_weight (it_kind i) * max 1 (uint (it_count i)) else k_weight (it_kind i))"

text \<open>\<^verbatim>\<open>getWeight\<close> with its override in \<^verbatim>\<open>Container\<close>.\<close>

definition getWeight :: "item \<Rightarrow> int" where
  "getWeight i = (case it_box i of None \<Rightarrow> item_weight i | Some b \<Rightarrow> item_weight i + b_totalWeight b)"

text \<open>The properties that tiles ask for; the identifiers are zero when they are not set.\<close>

datatype (plugins only: code) item_property =
  BLOCKSOLID | HASHEIGHT | BLOCKPROJECTILE | BLOCKPATH | ISVERTICAL | ISHORIZONTAL | MOVEABLE
| IMMOVABLEBLOCKSOLID | IMMOVABLEBLOCKPATH | IMMOVABLENOFIELDBLOCKPATH | NOFIELDBLOCKPATH | SUPPORTHANGABLE

definition attribute_int :: "int option \<Rightarrow> int" where
  "attribute_int v = (case v of Some v \<Rightarrow> v | None \<Rightarrow> 0)"

definition getUniqueId :: "item \<Rightarrow> int" where "getUniqueId i = attribute_int (it_uniqueId i)"
definition getActionId :: "item \<Rightarrow> int" where "getActionId i = attribute_int (it_actionId i)"

definition fixed_by_map :: "item \<Rightarrow> bool" where
  "fixed_by_map i \<longleftrightarrow> it_loadedFromMap i \<and> (getUniqueId i \<noteq> 0 \<or> getActionId i \<noteq> 0 \<and> it_box i \<noteq> None)"

definition item_hasProperty :: "item \<Rightarrow> item_property \<Rightarrow> bool" where
  "item_hasProperty i prop =
     (let k = it_kind i
      in case prop of
           BLOCKSOLID \<Rightarrow> k_blockSolid k
         | MOVEABLE \<Rightarrow> k_moveable k \<and> (\<not> it_loadedFromMap i \<or> getUniqueId i = 0 \<and> (getActionId i = 0 \<or> it_box i \<noteq> None))
         | HASHEIGHT \<Rightarrow> k_hasHeight k
         | BLOCKPROJECTILE \<Rightarrow> k_blockProjectile k
         | BLOCKPATH \<Rightarrow> k_blockPathFind k
         | ISVERTICAL \<Rightarrow> k_isVertical k
         | ISHORIZONTAL \<Rightarrow> k_isHorizontal k
         | IMMOVABLEBLOCKSOLID \<Rightarrow> k_blockSolid k \<and> (\<not> k_moveable k \<or> fixed_by_map i)
         | IMMOVABLEBLOCKPATH \<Rightarrow> k_blockPathFind k \<and> (\<not> k_moveable k \<or> fixed_by_map i)
         | SUPPORTHANGABLE \<Rightarrow> k_isHorizontal k \<or> k_isVertical k
         | IMMOVABLENOFIELDBLOCKPATH \<Rightarrow> \<not> isMagicField k \<and> k_blockPathFind k \<and> (\<not> k_moveable k \<or> fixed_by_map i)
         | NOFIELDBLOCKPATH \<Rightarrow> \<not> isMagicField k \<and> k_blockPathFind k)"

definition all_changes :: "floor_change list" where
  "all_changes = [CHANGE_DOWN, CHANGE_NORTH, CHANGE_EAST, CHANGE_SOUTH, CHANGE_WEST, CHANGE_NORTH_EX, CHANGE_EAST_EX,
     CHANGE_SOUTH_EX, CHANGE_WEST_EX]"

definition item_floorChange :: "item \<Rightarrow> floor_change \<Rightarrow> bool" where
  "item_floorChange i change =
     (if change \<noteq> CHANGE_NONE then k_floorChange (it_kind i) change
      else list_ex (k_floorChange (it_kind i)) all_changes)"

text \<open>\<^verbatim>\<open>setKind\<close>; the attributes of decay are left out.\<close>

definition setKind :: "item_kind \<Rightarrow> item \<Rightarrow> item" where "setKind kind i = i\<lparr>it_kind := kind\<rparr>"

section \<open>Parents\<close>

text \<open>The parent of a cylinder; a creature stands on the tile \<open>tiles\<close> gives.\<close>

definition cylinder_parent :: "(nat \<Rightarrow> nat option) \<Rightarrow> store \<Rightarrow> cylinder \<Rightarrow> cylinder option" where
  "cylinder_parent tiles s c =
     (case c of Container_at x \<Rightarrow> it_parent (s x)
      | Creature_at p \<Rightarrow> map_option Tile_at (tiles p)
      | Tile_at t \<Rightarrow> None
      | Virtual_cylinder \<Rightarrow> None)"

definition cylinder_getCreature :: "cylinder \<Rightarrow> nat option" where
  "cylinder_getCreature c = (case c of Creature_at p \<Rightarrow> Some p | _ \<Rightarrow> None)"

text \<open>
  The loop of \<^verbatim>\<open>getTopParent\<close> with its variables \<open>prev\<close> and \<open>aux\<close>; \<open>prev\<close> is \<open>None\<close> for a thing that is
  not a cylinder.  The loops along the parents do not return on a circle of parents.
\<close>

partial_function (option) top_loop ::
  "(nat \<Rightarrow> nat option) \<Rightarrow> store \<Rightarrow> cylinder option \<Rightarrow> cylinder \<Rightarrow> cylinder option" where
  "top_loop tiles s prev aux =
     (case cylinder_parent tiles s aux of
        Some p \<Rightarrow> top_loop tiles s (Some aux) p
      | None \<Rightarrow> Some (case prev of Some prev \<Rightarrow> prev | None \<Rightarrow> aux))"

text \<open>The top parent of an item: the outer option is not to return.\<close>

definition getTopParent :: "(nat \<Rightarrow> nat option) \<Rightarrow> store \<Rightarrow> nat \<Rightarrow> cylinder option option" where
  "getTopParent tiles s x =
     (let this = (if it_box (s x) \<noteq> None then Some (Container_at x) else None)
      in case it_parent (s x) of
           None \<Rightarrow> Some this
         | Some aux \<Rightarrow> map_option Some (top_loop tiles s this aux))"

partial_function (option) isRemoved_loop :: "store \<Rightarrow> nat \<Rightarrow> bool option" where
  "isRemoved_loop s x =
     (case it_parent (s x) of
        None \<Rightarrow> Some True
      | Some (Container_at c) \<Rightarrow> isRemoved_loop s c
      | Some _ \<Rightarrow> Some False)"

partial_function (option) holder_loop :: "(nat \<Rightarrow> nat option) \<Rightarrow> store \<Rightarrow> cylinder option \<Rightarrow> nat option option" where
  "holder_loop tiles s p =
     (case p of
        None \<Rightarrow> Some None
      | Some c \<Rightarrow>
          (case cylinder_getCreature c of
             Some k \<Rightarrow> Some (Some k)
           | None \<Rightarrow> holder_loop tiles s (cylinder_parent tiles s c)))"

definition getHoldingPlayer :: "(nat \<Rightarrow> nat option) \<Rightarrow> (nat \<Rightarrow> nat option) \<Rightarrow> store \<Rightarrow> nat \<Rightarrow> nat option option" where
  "getHoldingPlayer getPlayer tiles s x =
     map_option (\<lambda>k. Option.bind k getPlayer) (holder_loop tiles s (it_parent (s x)))"

end
