(* ===== verification/Containers.thy ===== *)
theory Containers
  imports Items
begin

text \<open>
  Containers and depots (\<^verbatim>\<open>src/sources/container.h\<close>, \<^verbatim>\<open>container.cpp\<close>, \<^verbatim>\<open>depot.cpp\<close>): the queries, the operations that add,
  change, replace and remove items and keep the weights of all containers around them, and the
  iterator over all items inside.  A container is an item with a \<open>box\<close>; the operations get its
  address and the store.  What is sent to the clients is returned as a list of notices.
\<close>

section \<open>Access\<close>

text \<open>The members of the container at an address; the code only has it for containers.\<close>

definition box_of :: "store \<Rightarrow> nat \<Rightarrow> box" where
  "box_of s c = (case it_box (s c) of Some b \<Rightarrow> b | None \<Rightarrow> \<lparr>b_items = [], b_maxSize = 0, b_totalWeight = 0, b_depotLimit = None\<rparr>)"

abbreviation itemlist :: "store \<Rightarrow> nat \<Rightarrow> nat list" where
  "itemlist s c \<equiv> b_items (box_of s c)"

definition set_box :: "nat \<Rightarrow> (box \<Rightarrow> box) \<Rightarrow> store \<Rightarrow> store" where
  "set_box c f s = s(c := (s c)\<lparr>it_box := map_option f (it_box (s c))\<rparr>)"

definition set_items :: "nat \<Rightarrow> nat list \<Rightarrow> store \<Rightarrow> store" where
  "set_items c xs = set_box c (\<lambda>b. b\<lparr>b_items := xs\<rparr>)"

definition add_weight :: "nat \<Rightarrow> int \<Rightarrow> store \<Rightarrow> store" where
  "add_weight c diff = set_box c (\<lambda>b. b\<lparr>b_totalWeight := b_totalWeight b + diff\<rparr>)"

definition setParent :: "nat \<Rightarrow> cylinder option \<Rightarrow> store \<Rightarrow> store" where
  "setParent x p s = s(x := (s x)\<lparr>it_parent := p\<rparr>)"

definition capacity :: "store \<Rightarrow> nat \<Rightarrow> u32" where "capacity s c = b_maxSize (box_of s c)"
definition container_size :: "store \<Rightarrow> nat \<Rightarrow> u32" where "container_size s c = word_of_nat (length (itemlist s c))"
definition full :: "store \<Rightarrow> nat \<Rightarrow> bool" where "full s c \<longleftrightarrow> length (itemlist s c) \<ge> unat (capacity s c)"
definition container_empty :: "store \<Rightarrow> nat \<Rightarrow> bool" where "container_empty s c \<longleftrightarrow> itemlist s c = []"

definition getParentContainer :: "store \<Rightarrow> nat \<Rightarrow> nat option" where
  "getParentContainer s c =
     (case it_parent (s c) of
        Some (Container_at p) \<Rightarrow> if it_box (s p) \<noteq> None then Some p else None
      | _ \<Rightarrow> None)"

definition addItem :: "store \<Rightarrow> nat \<Rightarrow> nat \<Rightarrow> store" where
  "addItem s c x = setParent x (Some (Container_at c)) (set_items c (itemlist s c @ [x]) s)"

partial_function (option) updateItemWeight :: "store \<Rightarrow> nat \<Rightarrow> int \<Rightarrow> store option" where
  "updateItemWeight s c diff =
     (case getParentContainer s c of
        Some parent \<Rightarrow> updateItemWeight (add_weight c diff s) parent diff
      | None \<Rightarrow> Some (add_weight c diff s))"

text \<open>
  What \<^verbatim>\<open>unserializeItemNode\<close> does with every item it has read, \<^verbatim>\<open>addItem\<close> and then
  \<^verbatim>\<open>updateItemWeight\<close>, and the items that \<^verbatim>\<open>clone\<close> puts into the copy of a container, with
  \<^verbatim>\<open>addItem\<close> alone.
\<close>

definition unserialize_add :: "store \<Rightarrow> nat \<Rightarrow> nat \<Rightarrow> store option" where
  "unserialize_add s c x = (let s = addItem s c x in updateItemWeight s c (getWeight (s x)))"

definition clone_items :: "store \<Rightarrow> nat \<Rightarrow> nat list \<Rightarrow> store" where
  "clone_items s c copies = fold (\<lambda>x s. addItem s c x) copies s"

text \<open>\<open>if (parentContainer) parentContainer->updateItemWeight(diff)\<close>.\<close>

definition update_parent_weight :: "store \<Rightarrow> nat \<Rightarrow> int \<Rightarrow> store option" where
  "update_parent_weight s c diff =
     (case getParentContainer s c of
        Some parent \<Rightarrow> updateItemWeight s parent diff
      | None \<Rightarrow> Some s)"

text \<open>\<^verbatim>\<open>getItem(index)\<close>, \<^verbatim>\<open>__getThing\<close> and \<^verbatim>\<open>__getIndexOfThing\<close>.\<close>

fun nth_item :: "nat \<Rightarrow> nat \<Rightarrow> nat list \<Rightarrow> nat option" where
  "nth_item n index [] = None"
| "nth_item n index (x # xs) = (if n = index then Some x else nth_item (n + 1) index xs)"

definition container_getItem :: "store \<Rightarrow> nat \<Rightarrow> u32 \<Rightarrow> nat option" where
  "container_getItem s c index = nth_item 0 (unat index) (itemlist s c)"

definition getThing :: "store \<Rightarrow> nat \<Rightarrow> u32 \<Rightarrow> nat option" where
  "getThing s c index =
     (if index > container_size s c then None else nth_item 0 (unat index) (itemlist s c))"

fun index_loop :: "int \<Rightarrow> nat \<Rightarrow> nat list \<Rightarrow> int" where
  "index_loop index x [] = - 1"
| "index_loop index x (y # ys) = (if y = x then index else index_loop (index + 1) x ys)"

definition getIndexOfThing :: "store \<Rightarrow> nat \<Rightarrow> nat option \<Rightarrow> int" where
  "getIndexOfThing s c thing = (case thing of None \<Rightarrow> - 1 | Some x \<Rightarrow> index_loop 0 x (itemlist s c))"

definition getFirstIndex :: int where "getFirstIndex = 0"
definition getLastIndex :: "store \<Rightarrow> nat \<Rightarrow> int" where "getLastIndex s c = sint (container_size s c)"

section \<open>The iterator\<close>

text \<open>
  \<^verbatim>\<open>ContainerIterator\<close>: the queue \<open>ci_over\<close> of containers and the position of \<^verbatim>\<open>current\<close> in the list
  of the first of them.  An iterator over nothing has an indeterminate \<^verbatim>\<open>current\<close>, zero here.
\<close>

record container_iterator =
  ci_base :: nat
  ci_over :: "nat list"
  ci_current :: nat

definition container_begin :: "store \<Rightarrow> nat \<Rightarrow> container_iterator" where
  "container_begin s c =
     (if itemlist s c \<noteq> [] then \<lparr>ci_base = c, ci_over = [c], ci_current = 0\<rparr>
      else \<lparr>ci_base = c, ci_over = [], ci_current = 0\<rparr>)"

definition container_end :: "nat \<Rightarrow> container_iterator" where
  "container_end c = \<lparr>ci_base = c, ci_over = [], ci_current = 0\<rparr>"

definition iterator_neq :: "container_iterator \<Rightarrow> container_iterator \<Rightarrow> bool" where
  "iterator_neq i rhs \<longleftrightarrow>
     (if ci_base i \<noteq> ci_base rhs then True
      else if ci_over i = [] \<and> ci_over rhs = [] then False
      else if ci_over i = [] then True
      else if ci_over rhs = [] then True
      else if hd (ci_over i) \<noteq> hd (ci_over rhs) then True
      else ci_current i \<noteq> ci_current rhs)"

definition iterator_get :: "store \<Rightarrow> container_iterator \<Rightarrow> nat run" where
  "iterator_get s i =
     (case ci_over i of [] \<Rightarrow> Inl Undefined_behaviour
      | c # _ \<Rightarrow> if ci_current i < length (itemlist s c) then Inr (itemlist s c ! ci_current i) else Inl Undefined_behaviour)"

definition iterator_next :: "store \<Rightarrow> container_iterator \<Rightarrow> container_iterator run" where
  "iterator_next s i =
     bind_run (iterator_get s i) (\<lambda>x.
       let over = (if it_box (s x) \<noteq> None \<and> \<not> container_empty s x then ci_over i @ [x] else ci_over i);
           current = ci_current i + 1
       in if current = length (itemlist s (hd over))
          then Inr (i\<lparr>ci_over := tl over, ci_current := if tl over = [] then current else 0\<rparr>)
          else Inr (i\<lparr>ci_over := over, ci_current := current\<rparr>))"

text \<open>The loops \<^verbatim>\<open>for (it = begin(); it != end(); ++it)\<close> over all items inside.\<close>

partial_function (option) inside_loop :: "store \<Rightarrow> container_iterator \<Rightarrow> nat list \<Rightarrow> nat list run option" where
  "inside_loop s i acc =
     (if iterator_neq i (container_end (ci_base i))
      then case iterator_get s i of
          Inl e \<Rightarrow> Some (Inl e)
        | Inr x \<Rightarrow>
            (case iterator_next s i of
               Inl e \<Rightarrow> Some (Inl e)
             | Inr i' \<Rightarrow> inside_loop s i' (acc @ [x]))
      else Some (Inr acc))"

definition items_inside :: "store \<Rightarrow> nat \<Rightarrow> nat list run option" where
  "items_inside s c = inside_loop s (container_begin s c) []"

partial_function (option) count_inside_loop :: "store \<Rightarrow> container_iterator \<Rightarrow> u32 \<Rightarrow> u32 run option" where
  "count_inside_loop s i counter =
     (if iterator_neq i (container_end (ci_base i))
      then case iterator_next s i of
          Inl e \<Rightarrow> Some (Inl e)
        | Inr i' \<Rightarrow> count_inside_loop s i' (counter + 1)
      else Some (Inr counter))"

definition getItemHoldingCount :: "store \<Rightarrow> nat \<Rightarrow> u32 run option" where
  "getItemHoldingCount s c = count_inside_loop s (container_begin s c) 0"

partial_function (option) holding_loop :: "store \<Rightarrow> nat \<Rightarrow> container_iterator \<Rightarrow> bool run option" where
  "holding_loop s x i =
     (if iterator_neq i (container_end (ci_base i))
      then case iterator_get s i of
          Inl e \<Rightarrow> Some (Inl e)
        | Inr y \<Rightarrow>
            if y = x then Some (Inr True)
            else (case iterator_next s i of
                    Inl e \<Rightarrow> Some (Inl e)
                  | Inr i' \<Rightarrow> holding_loop s x i')
      else Some (Inr False))"

definition isHoldingItem :: "store \<Rightarrow> nat \<Rightarrow> nat \<Rightarrow> bool run option" where
  "isHoldingItem s c x = holding_loop s x (container_begin s c)"

text \<open>\<^verbatim>\<open>getContentDescription\<close>; \<open>names\<close> is \<^verbatim>\<open>getNameDescription\<close>.\<close>

partial_function (option) description_loop ::
  "(nat \<Rightarrow> string) \<Rightarrow> store \<Rightarrow> container_iterator \<Rightarrow> bool \<Rightarrow> string \<Rightarrow> (bool \<times> string) run option" where
  "description_loop names s i first text =
     (if iterator_neq i (container_end (ci_base i))
      then case iterator_get s i of
          Inl e \<Rightarrow> Some (Inl e)
        | Inr x \<Rightarrow>
            (case iterator_next s i of
               Inl e \<Rightarrow> Some (Inl e)
             | Inr i' \<Rightarrow>
                 description_loop names s i' False ((if first then text else text @ '', '') @ names x))
      else Some (Inr (first, text)))"

definition getContentDescription :: "(nat \<Rightarrow> string) \<Rightarrow> store \<Rightarrow> nat \<Rightarrow> string run option" where
  "getContentDescription names s c =
     map_option (\<lambda>r. bind_run r (\<lambda>(first, text). Inr (if first then text @ ''nothing'' else text)))
       (description_loop names s (container_begin s c) True [])"

section \<open>Queries\<close>

definition FLAG_NOLIMIT :: u32 where "FLAG_NOLIMIT = 1"
definition FLAG_CHILDISOWNER :: u32 where "FLAG_CHILDISOWNER = 8"
definition FLAG_IGNORENOTMOVEABLE :: u32 where "FLAG_IGNORENOTMOVEABLE = 64"
definition INDEX_WHEREEVER :: int where "INDEX_WHEREEVER = - 1"

text \<open>The loop that looks for the item among the cylinders around the container.\<close>

partial_function (option) around_loop ::
  "(nat \<Rightarrow> nat option) \<Rightarrow> store \<Rightarrow> nat \<Rightarrow> cylinder option \<Rightarrow> bool option" where
  "around_loop tiles s container cylinder =
     (if cylinder = None then Some False
      else if cylinder = Some (Container_at container) then Some True
      else around_loop tiles s container (cylinder_parent tiles s (the cylinder)))"

text \<open>
  \<^verbatim>\<open>Container::__queryAdd\<close>: \<open>ask\<close> is the virtual call on the top parent, \<open>tiles\<close> tells where creatures
  stand.
\<close>

type_synonym query_add = "int \<Rightarrow> nat option \<Rightarrow> u32 \<Rightarrow> u32 \<Rightarrow> return_value run option"

definition container_queryAdd ::
  "(cylinder \<Rightarrow> query_add) \<Rightarrow> (nat \<Rightarrow> nat option) \<Rightarrow> store \<Rightarrow> nat \<Rightarrow> query_add" where
  "container_queryAdd ask tiles s c index item count flags =
     (if hasBitSet FLAG_CHILDISOWNER flags then Some (Inr RET_NOERROR)
      else case item of
        None \<Rightarrow> Some (Inr RET_NOTPOSSIBLE)
      | Some x \<Rightarrow>
          if \<not> k_pickupable (it_kind (s x)) then Some (Inr RET_CANNOTPICKUP)
          else if x = c then Some (Inr RET_THISISIMPOSSIBLE)
          else Option.bind (if it_box (s x) \<noteq> None then around_loop tiles s x (it_parent (s c)) else Some False) (\<lambda>around.
            if around then Some (Inr RET_THISISIMPOSSIBLE)
            else if index = INDEX_WHEREEVER \<and> \<not> hasBitSet FLAG_NOLIMIT flags \<and> full s c
            then Some (Inr RET_CONTAINERNOTENOUGHROOM)
            else Option.bind (getTopParent tiles s c) (\<lambda>topParent.
              case topParent of
                None \<Rightarrow> Some (Inl Undefined_behaviour)
              | Some t \<Rightarrow>
                  if t \<noteq> Container_at c then ask t INDEX_WHEREEVER item count (flags OR FLAG_CHILDISOWNER)
                  else Some (Inr RET_NOERROR))))"

text \<open>\<^verbatim>\<open>Depot::__queryAdd\<close>; \<open>added_count\<close> is \<^verbatim>\<open>addCount\<close>.\<close>

definition added_count :: "(nat \<Rightarrow> nat option) \<Rightarrow> store \<Rightarrow> nat \<Rightarrow> nat \<Rightarrow> u32 \<Rightarrow> u32 run option" where
  "added_count tiles s c x count =
     Option.bind (getTopParent tiles s x) (\<lambda>topParent.
       if topParent \<noteq> Some (Container_at c)
       then if it_box (s x) \<noteq> None then map_option (\<lambda>r. bind_run r (\<lambda>n. Inr (n + 1))) (getItemHoldingCount s x) else Some (Inr 1)
       else Some (Inr (if k_stackable (it_kind (s x)) \<and> ucast (getItemCount (s x)) \<noteq> count then 1 else 0)))"

definition depot_queryAdd ::
  "(cylinder \<Rightarrow> query_add) \<Rightarrow> (nat \<Rightarrow> nat option) \<Rightarrow> store \<Rightarrow> nat \<Rightarrow> u32 \<Rightarrow> query_add" where
  "depot_queryAdd ask tiles s c depotLimit index item count flags =
     (case item of
        None \<Rightarrow> Some (Inr RET_NOTPOSSIBLE)
      | Some x \<Rightarrow>
          if hasBitSet FLAG_NOLIMIT flags then container_queryAdd ask tiles s c index item count flags
          else Option.bind (added_count tiles s c x count) (\<lambda>added.
            Option.bind (getItemHoldingCount s c) (\<lambda>held.
              case bind_run added (\<lambda>n. bind_run held (\<lambda>m. Inr (m + n > depotLimit))) of
                Inl e \<Rightarrow> Some (Inl e)
              | Inr too_many \<Rightarrow>
                  if too_many then Some (Inr RET_DEPOTISFULL)
                  else container_queryAdd ask tiles s c index item count flags)))"

text \<open>
  The virtual call; \<open>others\<close> answers for what is not a container.  The top parent is asked with
  \<^verbatim>\<open>FLAG_CHILDISOWNER\<close> set, so it does not ask further.
\<close>

definition virtual_queryAdd ::
  "(cylinder \<Rightarrow> query_add) \<Rightarrow> (nat \<Rightarrow> nat option) \<Rightarrow> store \<Rightarrow> nat \<Rightarrow> query_add" where
  "virtual_queryAdd ask tiles s c =
     (case b_depotLimit (box_of s c) of
        None \<Rightarrow> container_queryAdd ask tiles s c
      | Some depotLimit \<Rightarrow> depot_queryAdd ask tiles s c depotLimit)"

type_synonym other_query = "cylinder \<Rightarrow> int \<Rightarrow> nat option \<Rightarrow> u32 \<Rightarrow> u32 \<Rightarrow> return_value"

definition other_queryAdd :: "other_query \<Rightarrow> cylinder \<Rightarrow> query_add" where
  "other_queryAdd others t index item count flags = Some (Inr (others t index item count flags))"

definition top_queryAdd :: "(nat \<Rightarrow> nat option) \<Rightarrow> other_query \<Rightarrow> store \<Rightarrow> cylinder \<Rightarrow> query_add" where
  "top_queryAdd tiles others s t =
     (case t of Container_at d \<Rightarrow> virtual_queryAdd (other_queryAdd others) tiles s d | _ \<Rightarrow> other_queryAdd others t)"

definition queryAdd :: "(nat \<Rightarrow> nat option) \<Rightarrow> other_query \<Rightarrow> store \<Rightarrow> nat \<Rightarrow> query_add" where
  "queryAdd tiles others s c = virtual_queryAdd (top_queryAdd tiles others s) tiles s c"

text \<open>The result is the return value and \<^verbatim>\<open>maxQueryCount\<close>.\<close>

definition queryMaxCount :: "store \<Rightarrow> nat \<Rightarrow> int \<Rightarrow> nat option \<Rightarrow> u32 \<Rightarrow> u32 \<Rightarrow> return_value \<times> u32" where
  "queryMaxCount s c index item count flags =
     (case item of None \<Rightarrow> (RET_NOTPOSSIBLE, 0)
      | Some x \<Rightarrow>
          if hasBitSet FLAG_NOLIMIT flags then (RET_NOERROR, max 1 count)
          else
            let freeSlots = max (sint (capacity s c - container_size s c)) 0
            in if k_stackable (it_kind (s x))
               then
                 let n = (if index \<noteq> INDEX_WHEREEVER
                          then case getThing s c (word_of_int index) of
                              Some d \<Rightarrow> if k_id (it_kind (s d)) = k_id (it_kind (s x))
                                        then word_of_int (100 - uint (getItemCount (s d))) else 0
                            | None \<Rightarrow> 0
                          else 0) :: u32;
                     maxQueryCount = word_of_int (freeSlots * 100) + n
                 in (if maxQueryCount < count then RET_CONTAINERNOTENOUGHROOM else RET_NOERROR, maxQueryCount)
               else
                 let maxQueryCount = word_of_int freeSlots
                 in (if maxQueryCount = 0 then RET_CONTAINERNOTENOUGHROOM else RET_NOERROR, maxQueryCount))"

definition queryRemove :: "store \<Rightarrow> nat \<Rightarrow> nat option \<Rightarrow> u32 \<Rightarrow> u32 \<Rightarrow> return_value" where
  "queryRemove s c item count flags =
     (if getIndexOfThing s c item = - 1 then RET_NOTPOSSIBLE
      else case item of
        None \<Rightarrow> RET_NOTPOSSIBLE
      | Some x \<Rightarrow>
          if count = 0 \<or> k_stackable (it_kind (s x)) \<and> uint count > uint (getItemCount (s x)) then RET_NOTPOSSIBLE
          else if \<not> k_moveable (it_kind (s x)) \<and> \<not> hasBitSet FLAG_IGNORENOTMOVEABLE flags then RET_NOTMOVEABLE
          else RET_NOERROR)"

text \<open>
  \<^verbatim>\<open>__queryDestination\<close>: the destination, the new index and \<^verbatim>\<open>*destItem\<close>.  Of the items that are
  cylinders the containers are known here.
\<close>

definition queryDestination :: "store \<Rightarrow> nat \<Rightarrow> int \<Rightarrow> nat option \<Rightarrow> nat \<times> int \<times> nat option" where
  "queryDestination s c index destItem =
     (if index = 254
      then (case it_parent (s c) of Some (Container_at p) \<Rightarrow> p | _ \<Rightarrow> c, INDEX_WHEREEVER, None)
      else if index = 255 then (c, INDEX_WHEREEVER, None)
      else
        let index = (if index \<ge> sint (capacity s c) then INDEX_WHEREEVER else index)
        in if index \<noteq> INDEX_WHEREEVER
           then
             let destItem = (case getThing s c (word_of_int index) of Some d \<Rightarrow> Some d | None \<Rightarrow> destItem)
             in case destItem of
                 Some d \<Rightarrow> if it_box (s d) \<noteq> None then (d, INDEX_WHEREEVER, None) else (c, index, destItem)
               | None \<Rightarrow> (c, index, destItem)
           else (c, index, destItem))"

section \<open>Changes\<close>

datatype notice = Item_added nat nat | Item_updated nat int nat nat | Item_removed nat int nat

definition addThing :: "store \<Rightarrow> nat \<Rightarrow> int \<Rightarrow> nat option \<Rightarrow> (store \<times> notice list) option" where
  "addThing s c index item =
     (if index \<ge> sint (capacity s c) then Some (s, [])
      else case item of
        None \<Rightarrow> Some (s, [])
      | Some x \<Rightarrow>
          let s = setParent x (Some (Container_at c)) s;
              s = set_items c (x # itemlist s c) s;
              s = add_weight c (getWeight (s x)) s
          in Option.bind (update_parent_weight s c (getWeight (s x))) (\<lambda>s.
            Some (s, if it_parent (s c) \<noteq> None \<and> it_parent (s c) \<noteq> Some Virtual_cylinder then [Item_added c x] else [])))"

definition addThing_front :: "store \<Rightarrow> nat \<Rightarrow> nat option \<Rightarrow> (store \<times> notice list) option" where
  "addThing_front s c item = addThing s c 0 item"

definition updateThing ::
  "(u16 \<Rightarrow> item_kind option) \<Rightarrow> store \<Rightarrow> nat \<Rightarrow> nat option \<Rightarrow> u16 \<Rightarrow> u32 \<Rightarrow> (store \<times> notice list) option" where
  "updateThing kinds s c item itemId count =
     (let index = getIndexOfThing s c item
      in if index = - 1 then Some (s, [])
         else case item of
           None \<Rightarrow> Some (s, [])
         | Some x \<Rightarrow>
             (case kinds itemId of
                None \<Rightarrow> Some (s, [])
              | Some newType \<Rightarrow>
                  let oldWeight = getWeight (s x);
                      s = s(x := setSubType (ucast count) (setKind newType (s x)));
                      diffWeight = - oldWeight + getWeight (s x);
                      s = add_weight c diffWeight s
                  in Option.bind (update_parent_weight s c diffWeight) (\<lambda>s.
                    Some (s, if it_parent (s c) \<noteq> None then [Item_updated c index x x] else []))))"

definition replaceThing :: "store \<Rightarrow> nat \<Rightarrow> u32 \<Rightarrow> nat option \<Rightarrow> (store \<times> notice list) option" where
  "replaceThing s c index item =
     (case item of None \<Rightarrow> Some (s, [])
      | Some x \<Rightarrow>
          if unat index \<ge> length (itemlist s c) then Some (s, [])
          else
            let i = unat index; existing = itemlist s c ! i;
                s = add_weight c (- getWeight (s existing)) s;
                s = add_weight c (getWeight (s x)) s
            in Option.bind (update_parent_weight s c (- getWeight (s existing) + getWeight (s x))) (\<lambda>s.
              let s = set_items c (take i (itemlist s c) @ x # drop i (itemlist s c)) s;
                  s = setParent x (Some (Container_at c)) s;
                  notices = (if it_parent (s c) \<noteq> None then [Item_updated c (uint index) existing x] else []);
                  s = setParent existing None s;
                  s = set_items c (take (i + 1) (itemlist s c) @ drop (i + 2) (itemlist s c)) s
              in Some (s, notices)))"

definition removeThing :: "store \<Rightarrow> nat \<Rightarrow> nat option \<Rightarrow> u32 \<Rightarrow> (store \<times> notice list) option" where
  "removeThing s c item count =
     (case item of None \<Rightarrow> Some (s, [])
      | Some x \<Rightarrow>
          let index = getIndexOfThing s c item
          in if index = - 1 then Some (s, [])
             else if k_stackable (it_kind (s x)) \<and> count \<noteq> ucast (getItemCount (s x))
             then
               let oldWeight = - getWeight (s x);
                   s = s(x := setItemCount (word_of_int (max 0 (sint (ucast (getItemCount (s x)) - count)))) (s x));
                   diffWeight = oldWeight + getWeight (s x);
                   s = add_weight c diffWeight s
               in if it_parent (s c) \<noteq> None
                  then Option.bind (update_parent_weight s c diffWeight) (\<lambda>s. Some (s, [Item_updated c index x x]))
                  else Some (s, [])
             else
               Option.bind (if it_parent (s c) \<noteq> None then update_parent_weight s c (- getWeight (s x)) else Some s) (\<lambda>s'.
                 let notices = (if it_parent (s c) \<noteq> None then [Item_removed c index x] else []);
                     s' = add_weight c (- getWeight (s' x)) s';
                     s' = setParent x None s';
                     s' = set_items c (remove1 x (itemlist s' c)) s'
                 in Some (s', notices)))"

definition internalAddThing :: "store \<Rightarrow> nat \<Rightarrow> nat \<Rightarrow> store option" where
  "internalAddThing s c x =
     (let s = set_items c (x # itemlist s c) s;
          s = setParent x (Some (Container_at c)) s;
          s = add_weight c (getWeight (s x)) s
      in update_parent_weight s c (getWeight (s x)))"

section \<open>Counting\<close>

fun type_count_loop :: "store \<Rightarrow> u16 \<Rightarrow> int \<Rightarrow> bool \<Rightarrow> nat list \<Rightarrow> u32 \<Rightarrow> u32" where
  "type_count_loop s itemId subType itemCount [] count = count"
| "type_count_loop s itemId subType itemCount (x # xs) count =
     (if k_id (it_kind (s x)) = itemId \<and> (subType = - 1 \<or> subType = uint (getSubType (s x)))
      then type_count_loop s itemId subType itemCount xs
        (count + (if \<not> itemCount \<and> isRune (it_kind (s x)) then ucast (getCharges (s x)) else ucast (getItemCount (s x))))
      else type_count_loop s itemId subType itemCount xs count)"

definition getItemTypeCount :: "store \<Rightarrow> nat \<Rightarrow> u16 \<Rightarrow> int \<Rightarrow> bool \<Rightarrow> u32" where
  "getItemTypeCount s c itemId subType itemCount = type_count_loop s itemId subType itemCount (itemlist s c) 0"

fun all_count_loop :: "store \<Rightarrow> bool \<Rightarrow> nat list \<Rightarrow> (u32 \<Rightarrow> u32 option) \<Rightarrow> (u32 \<Rightarrow> u32 option)" where
  "all_count_loop s itemCount [] countMap = countMap"
| "all_count_loop s itemCount (x # xs) countMap =
     (let id = ucast (k_id (it_kind (s x)));
          old = (case countMap id of None \<Rightarrow> 0 | Some n \<Rightarrow> n);
          new = (if \<not> itemCount \<and> isRune (it_kind (s x)) then ucast (getCharges (s x)) else ucast (getItemCount (s x)))
      in all_count_loop s itemCount xs (countMap(id \<mapsto> old + new)))"

definition getAllItemTypeCount :: "store \<Rightarrow> nat \<Rightarrow> (u32 \<Rightarrow> u32 option) \<Rightarrow> bool \<Rightarrow> (u32 \<Rightarrow> u32 option)" where
  "getAllItemTypeCount s c countMap itemCount = all_count_loop s itemCount (itemlist s c) countMap"

end
