(* ===== verification/Container_Trees.thy ===== *)
theory Container_Trees
  imports Containers "HOL-Library.Multiset"
begin

text \<open>
  The containers of the game are trees and their weights are right: the parents and the lists of
  the containers agree, no item is inside itself, every total is the sum of the weights inside.
  Every operation keeps this, and therefore returns.
\<close>

section \<open>The invariant\<close>

text \<open>The items with the containers they lie in, and the containers around one.\<close>

definition ups :: "store \<Rightarrow> (nat \<times> nat) set" where
  "ups s = {(x, p). it_parent (s x) = Some (Container_at p)}"

definition around :: "store \<Rightarrow> nat \<Rightarrow> nat set" where
  "around s c = {d. (c, d) \<in> (ups s)\<^sup>*}"

definition weight_inside :: "store \<Rightarrow> nat \<Rightarrow> int" where
  "weight_inside s c = (\<Sum>x\<leftarrow>itemlist s c. getWeight (s x))"

abbreviation total :: "store \<Rightarrow> nat \<Rightarrow> int" where
  "total s c \<equiv> b_totalWeight (box_of s c)"

definition structure_ok :: "store \<Rightarrow> bool" where
  "structure_ok s \<longleftrightarrow> (\<forall>x p. (x, p) \<in> ups s \<longrightarrow> it_box (s p) \<noteq> None)
     \<and> (\<forall>c. distinct (itemlist s c) \<and> set (itemlist s c) = {x. (x, c) \<in> ups s})
     \<and> finite (ups s) \<and> acyclic (ups s)"

definition store_ok :: "store \<Rightarrow> bool" where
  "store_ok s \<longleftrightarrow> structure_ok s \<and> (\<forall>c. total s c = weight_inside s c)"

lemma structureD:
  assumes "structure_ok s"
  shows "(x, p) \<in> ups s \<Longrightarrow> it_box (s p) \<noteq> None" "distinct (itemlist s c)" "x \<in> set (itemlist s c) \<longleftrightarrow> (x, c) \<in> ups s"
    "finite (ups s)" "acyclic (ups s)"
  using assms by (auto simp: structure_ok_def)

lemma ups_unique: "(x, p) \<in> ups s \<Longrightarrow> (x, q) \<in> ups s \<Longrightarrow> p = q"
  by (simp add: ups_def)

lemma around_refl [simp]: "c \<in> around s c"
  by (simp add: around_def)

lemma around_step: "(c, p) \<in> ups s \<Longrightarrow> around s c = insert c (around s p)"
  by (auto simp: around_def elim: converse_rtranclE dest: ups_unique intro: converse_rtrancl_into_rtrancl)

lemma around_top: "\<nexists>p. (c, p) \<in> ups s \<Longrightarrow> around s c = {c}"
  by (auto simp: around_def elim: converse_rtranclE)

lemma not_around_parent:
  assumes "structure_ok s" "(c, p) \<in> ups s"
  shows "c \<notin> around s p"
proof
  assume "c \<in> around s p"
  then have "(c, c) \<in> (ups s)\<^sup>+" using assms(2) by (auto simp: around_def intro: rtrancl_into_trancl2)
  then show False using structureD(5) [OF assms(1)] by (simp add: acyclic_def)
qed

section \<open>Climbing\<close>

text \<open>Adding a weight to a set of containers.\<close>

definition shift :: "nat set \<Rightarrow> int \<Rightarrow> store \<Rightarrow> store" where
  "shift A w s = (\<lambda>x. if x \<in> A then add_weight x w s x else s x)"

lemma shift_sel [simp]:
  "it_kind (shift A w s x) = it_kind (s x)" "it_count (shift A w s x) = it_count (s x)"
  "it_charges (shift A w s x) = it_charges (s x)" "it_fluidType (shift A w s x) = it_fluidType (s x)"
  "it_parent (shift A w s x) = it_parent (s x)" "it_box (shift A w s x) = None \<longleftrightarrow> it_box (s x) = None"
  "itemlist (shift A w s) x = itemlist s x" "b_maxSize (box_of (shift A w s) x) = b_maxSize (box_of s x)"
  by (simp_all add: shift_def add_weight_def set_box_def box_of_def split: option.split)

lemma shift_total: "total (shift A w s) x = (if x \<in> A \<and> it_box (s x) \<noteq> None then total s x + w else total s x)"
  by (auto simp: shift_def add_weight_def set_box_def box_of_def split: option.split)

lemma item_weight_cong: "it_kind i = it_kind j \<Longrightarrow> it_count i = it_count j \<Longrightarrow> item_weight i = item_weight j"
  by (simp add: item_weight_def)

lemma shift_item_weight [simp]: "item_weight (shift A w s x) = item_weight (s x)"
  by (rule item_weight_cong) simp_all

lemma getWeight_total: "getWeight (s x) = item_weight (s x) + (if it_box (s x) = None then 0 else total s x)"
  by (simp add: getWeight_def box_of_def split: option.split)

lemma getWeight_shift:
  "getWeight (shift A w s x) = (if x \<in> A \<and> it_box (s x) \<noteq> None then getWeight (s x) + w else getWeight (s x))"
  unfolding getWeight_total by (auto simp: shift_total)

lemma ups_shift [simp]: "ups (shift A w s) = ups s" "around (shift A w s) c = around s c"
  by (simp_all add: ups_def around_def)

lemma structure_shift [simp]: "structure_ok (shift A w s) = structure_ok s"
  by (simp add: structure_ok_def)

lemma add_weight_shift: "add_weight c w s = shift {c} w s"
  by (rule ext) (simp add: shift_def add_weight_def set_box_def)

lemma shift_shift: "A \<inter> B = {} \<Longrightarrow> shift A w (shift B w s) = shift (A \<union> B) w s"
  by (rule ext) (auto simp: shift_def add_weight_def set_box_def)

lemma getParentContainer_ups:
  "structure_ok s \<Longrightarrow> getParentContainer s c = Some p \<longleftrightarrow> (c, p) \<in> ups s"
  "structure_ok s \<Longrightarrow> getParentContainer s c = None \<longleftrightarrow> (\<nexists>p. (c, p) \<in> ups s)"
  by (auto simp: getParentContainer_def ups_def structure_ok_def split: option.splits cylinder.splits)

text \<open>\<open>updateItemWeight\<close> returns and reaches exactly the containers around.\<close>

lemma updateItemWeight_run: "structure_ok s \<Longrightarrow> updateItemWeight s c w = Some (shift (around s c) w s)"
proof -
  have "wf ((ups s)\<inverse>)" if "structure_ok s"
    using structureD(4,5) [OF that] by (rule finite_acyclic_wf_converse)
  moreover have "updateItemWeight t c w = Some (shift (around t c) w t)"
    if "wf ((ups s)\<inverse>)" "structure_ok t" "ups t = ups s" for t
    using that
  proof (induction c arbitrary: t rule: wf_induct_rule)
    case (less c)
    let ?t = "add_weight c w t"
    have t: "structure_ok ?t" "ups ?t = ups s" using less.prems by (simp_all add: add_weight_shift)
    show ?case
    proof (cases "getParentContainer t c")
      case None
      then have "around t c = {c}" using getParentContainer_ups(2) [OF less.prems(1)] around_top by blast
      then show ?thesis using None by (simp add: updateItemWeight.simps [of t] add_weight_shift)
    next
      case (Some p)
      then have p: "(c, p) \<in> ups t" using getParentContainer_ups(1) [OF less.prems(1)] by blast
      have "updateItemWeight ?t p w = Some (shift (around ?t p) w ?t)"
        using p less.prems(2) by (intro less.IH t) simp
      moreover have "shift (around ?t p) w ?t = shift (around t c) w t"
        using not_around_parent [OF less.prems(1) p]
        by (simp add: add_weight_shift around_step [OF p] shift_shift)
      ultimately show ?thesis using Some by (simp add: updateItemWeight.simps [of t])
    qed
  qed
  ultimately show "structure_ok s \<Longrightarrow> updateItemWeight s c w = Some (shift (around s c) w s)" by blast
qed

lemma update_parent_run:
  assumes "structure_ok s"
  shows "update_parent_weight s c w = Some (shift (around s c - {c}) w s)"
proof (cases "getParentContainer s c")
  case None
  then have "around s c = {c}" using getParentContainer_ups(2) [OF assms] around_top by blast
  moreover have "shift {} w s = s" by (simp add: shift_def)
  ultimately show ?thesis using None by (simp add: update_parent_weight_def)
next
  case (Some p)
  then have p: "(c, p) \<in> ups s" using getParentContainer_ups(1) [OF assms] by blast
  then have "around s c - {c} = around s p" using not_around_parent [OF assms p] around_step [OF p] by auto
  then show ?thesis using Some updateItemWeight_run [OF assms] by (simp add: update_parent_weight_def)
qed

lemma climb_run:
  assumes "structure_ok s"
  shows "update_parent_weight (add_weight c w s) c w = Some (shift (around s c) w s)"
proof -
  have "around s c - {c} \<union> {c} = around s c" by auto
  then show ?thesis using assms by (simp add: update_parent_run add_weight_shift shift_shift)
qed

section \<open>Weights after a climb\<close>

text \<open>Of the items of a container around \<open>c\<close> exactly one is on the way, of any other none.\<close>

lemma one_child_around:
  assumes ok: "structure_ok s" and d: "d \<in> around s c" "d \<noteq> c"
  obtains e where "{x \<in> set (itemlist s d). x \<in> around s c} = {e}"
proof -
  obtain e where e: "e \<in> around s c" "(e, d) \<in> ups s"
    using d by (auto simp: around_def elim: rtranclE)
  have single: "single_valued (ups s)" by (auto simp: single_valued_def dest: ups_unique)
  have no_way: "x = y" if xy: "(x, d) \<in> ups s" "(y, d) \<in> ups s" "(x, y) \<in> (ups s)\<^sup>*" for x y
    using xy(3)
  proof (cases rule: converse_rtranclE)
    case (step z)
    then have "(d, y) \<in> (ups s)\<^sup>*" using ups_unique [OF xy(1)] by blast
    then have "(d, d) \<in> (ups s)\<^sup>+" using xy(2) by (rule rtrancl_into_trancl1)
    then show ?thesis using structureD(5) [OF ok] by (simp add: acyclic_def)
  qed
  have "x = e" if "x \<in> around s c" "(x, d) \<in> ups s" for x
    using single_valued_confluent [OF single, of c x e] that e no_way unfolding around_def by blast
  then have "{x \<in> set (itemlist s d). x \<in> around s c} = {e}" using e structureD(3) [OF ok] by blast
  then show thesis by (rule that)
qed

lemma no_child_around:
  assumes ok: "structure_ok s" and d: "d \<notin> around s c \<or> d = c"
  shows "{x \<in> set (itemlist s d). x \<in> around s c} = {}"
proof (rule ccontr)
  assume "{x \<in> set (itemlist s d). x \<in> around s c} \<noteq> {}"
  then obtain x where x: "(c, x) \<in> (ups s)\<^sup>*" "(x, d) \<in> ups s" using structureD(3) [OF ok] by (auto simp: around_def)
  then have "(c, d) \<in> (ups s)\<^sup>+" by (rule rtrancl_into_trancl1)
  then show False using d structureD(5) [OF ok] by (auto simp: around_def acyclic_def dest: trancl_into_rtrancl)
qed

lemma around_box: "structure_ok s \<Longrightarrow> it_box (s c) \<noteq> None \<Longrightarrow> x \<in> around s c \<Longrightarrow> it_box (s x) \<noteq> None"
  unfolding around_def by (metis mem_Collect_eq rtranclE structureD(1))

lemma weight_inside_shift:
  assumes ok: "structure_ok s" and c: "it_box (s c) \<noteq> None"
  shows "weight_inside (shift (around s c) w s) d = weight_inside s d + (if d \<in> around s c \<and> d \<noteq> c then w else 0)"
proof -
  let ?xs = "itemlist s d" and ?A = "around s c"
  have sum: "(\<Sum>x\<leftarrow>?xs. f x) = sum f (set ?xs)" for f :: "nat \<Rightarrow> int"
    using structureD(2) [OF ok] by (rule sum_list_distinct_conv_sum_set)
  have "weight_inside (shift ?A w s) d = (\<Sum>x \<in> set ?xs. getWeight (s x) + (if x \<in> ?A then w else 0))"
    unfolding weight_inside_def shift_sel sum
    by (rule sum.cong) (auto simp: getWeight_shift dest: around_box [OF ok c])
  also have "\<dots> = weight_inside s d + (\<Sum>x \<in> {x \<in> set ?xs. x \<in> ?A}. w)"
    unfolding weight_inside_def sum sum.distrib by (simp only: sum.inter_filter [OF finite_set])
  also have "(\<Sum>x \<in> {x \<in> set ?xs. x \<in> ?A}. w) = (if d \<in> ?A \<and> d \<noteq> c then w else 0)"
  proof (cases "d \<in> ?A \<and> d \<noteq> c")
    case True
    then obtain e where "{x \<in> set ?xs. x \<in> ?A} = {e}" using one_child_around [OF ok] by blast
    then show ?thesis using True by simp
  next
    case False
    then have "{x \<in> set ?xs. x \<in> ?A} = {}" by (intro no_child_around [OF ok]) blast
    then show ?thesis using False by (simp only: sum.empty if_False)
  qed
  finally show ?thesis .
qed

text \<open>Climbing from the one container whose total is not right puts all totals right.\<close>

lemma climb_store_ok:
  assumes ok: "structure_ok s" and c: "it_box (s c) \<noteq> None"
    and others: "\<And>d. d \<noteq> c \<Longrightarrow> total s d = weight_inside s d" and here: "total s c + w = weight_inside s c"
  shows "store_ok (shift (around s c) w s)"
  unfolding store_ok_def
proof (intro conjI allI)
  fix d
  show "total (shift (around s c) w s) d = weight_inside (shift (around s c) w s) d"
    unfolding weight_inside_shift [OF ok c]
    using others [of d] here around_box [OF ok c, of d] by (cases "d = c") (auto simp: shift_total c)
qed (simp add: ok)

section \<open>Changes of the structure\<close>

text \<open>Entering an item at the front of a container.\<close>

definition link :: "store \<Rightarrow> nat \<Rightarrow> nat \<Rightarrow> store" where
  "link s c x = set_items c (x # itemlist s c) (setParent x (Some (Container_at c)) s)"

definition loose :: "store \<Rightarrow> nat \<Rightarrow> bool" where
  "loose s x \<longleftrightarrow> (\<forall>p. (x, p) \<notin> ups s)"

lemma link_sel [simp]:
  "it_kind (link s c x y) = it_kind (s y)" "it_count (link s c x y) = it_count (s y)"
  "it_parent (link s c x y) = (if y = x then Some (Container_at c) else it_parent (s y))"
  "it_box (link s c x y) = None \<longleftrightarrow> it_box (s y) = None" "total (link s c x) y = total s y"
  by (simp_all add: link_def set_items_def set_box_def setParent_def box_of_def split: option.split)

lemma link_items: "itemlist (link s c x) d = (if d = c \<and> it_box (s c) \<noteq> None then x # itemlist s c else itemlist s d)"
  by (auto simp: link_def set_items_def set_box_def setParent_def box_of_def split: option.split)

lemma getWeight_cong:
  "it_kind (t x) = it_kind (s x) \<Longrightarrow> it_count (t x) = it_count (s x) \<Longrightarrow> it_box (t x) = None \<longleftrightarrow> it_box (s x) = None
    \<Longrightarrow> total t x = total s x \<Longrightarrow> getWeight (t x) = getWeight (s x)"
  unfolding getWeight_total by (simp add: item_weight_def)

lemma link_weight [simp]: "getWeight (link s c x y) = getWeight (s y)"
  by (rule getWeight_cong) simp_all

lemma ups_link: "loose s x \<Longrightarrow> ups (link s c x) = insert (x, c) (ups s)"
  by (auto simp: ups_def loose_def split: if_splits)

lemma link_ok:
  assumes ok: "structure_ok s" and c: "it_box (s c) \<noteq> None" and x: "loose s x" "x \<notin> around s c"
  shows "structure_ok (link s c x)" "x \<notin> around (link s c x) c" "around (link s c x) c = around s c"
proof -
  have ups: "ups (link s c x) = insert (x, c) (ups s)" by (rule ups_link [OF x(1)])
  have "(c, x) \<notin> (ups s)\<^sup>*" using x(2) by (simp add: around_def)
  then have "acyclic (ups (link s c x))" using structureD(5) [OF ok] unfolding ups by (simp add: acyclic_insert)
  moreover have "finite (ups (link s c x))" using structureD(4) [OF ok] unfolding ups by simp
  moreover have "distinct (itemlist (link s c x) d) \<and> set (itemlist (link s c x) d) = {y. (y, d) \<in> ups (link s c x)}" for d
    using structureD(2,3) [OF ok] x(1) c unfolding ups by (auto simp: link_items loose_def)
  moreover have "\<forall>y p. (y, p) \<in> ups (link s c x) \<longrightarrow> it_box (link s c x p) \<noteq> None"
    using structureD(1) [OF ok] c unfolding ups by auto
  ultimately show "structure_ok (link s c x)" unfolding structure_ok_def by blast
  have "around (link s c x) c = around s c"
    using x(2) unfolding around_def ups by (auto simp: rtrancl_insert)
  then show "x \<notin> around (link s c x) c" "around (link s c x) c = around s c" using x(2) by simp_all
qed

text \<open>Adding an item: the store after the operation, which is right again.\<close>

lemma added_store:
  assumes ok: "store_ok s" and c: "it_box (s c) \<noteq> None" and x: "loose s x" "x \<notin> around s c"
  defines "t \<equiv> link s c x"
  shows "update_parent_weight (add_weight c (getWeight (s x)) t) c (getWeight (s x)) = Some (shift (around s c) (getWeight (s x)) t)"
    and "store_ok (shift (around s c) (getWeight (s x)) t)"
proof -
  have str: "structure_ok s" and w: "\<And>d. total s d = weight_inside s d" using ok by (auto simp: store_ok_def)
  note l = link_ok [OF str c x]
  show "update_parent_weight (add_weight c (getWeight (s x)) t) c (getWeight (s x)) = Some (shift (around s c) (getWeight (s x)) t)"
    using climb_run [OF l(1), of c] unfolding t_def l(3) by blast
  have "store_ok (shift (around t c) (getWeight (s x)) t)"
  proof (rule climb_store_ok)
    show "structure_ok t" "it_box (t c) \<noteq> None" using l(1) c by (simp_all add: t_def)
    show "total t d = weight_inside t d" if "d \<noteq> c" for d
      using w [of d] that by (simp add: t_def weight_inside_def link_items)
    show "total t c + getWeight (s x) = weight_inside t c"
      using w [of c] c by (simp add: t_def weight_inside_def link_items)
  qed
  then show "store_ok (shift (around s c) (getWeight (s x)) t)" unfolding t_def l(3) .
qed

lemma addThing_run:
  assumes ok: "store_ok s" and c: "it_box (s c) \<noteq> None" and x: "loose s x" "x \<notin> around s c"
  obtains s' ns where "addThing s c index (Some x) = Some (s', ns)" "store_ok s'" "ups s' \<subseteq> insert (x, c) (ups s)"
proof (cases "index \<ge> sint (capacity s c)")
  case True
  then show thesis using that [of s] ok by (auto simp: addThing_def)
next
  case False
  let ?s = "setParent x (Some (Container_at c)) s"
  have "itemlist ?s c = itemlist s c" by (simp add: setParent_def box_of_def)
  then have link: "set_items c (x # itemlist ?s c) ?s = link s c x" by (simp add: link_def)
  have not_c: "x \<noteq> c" using x(2) by auto
  have w: "getWeight (add_weight c (getWeight (s x)) (link s c x) x) = getWeight (s x)"
    using not_c by (simp add: add_weight_shift getWeight_shift)
  show thesis
    using that added_store [OF ok c x] False not_c link w ups_link [OF x(1)]
    by (simp add: addThing_def Let_def)
qed

lemma internalAddThing_run:
  assumes ok: "store_ok s" and c: "it_box (s c) \<noteq> None" and x: "loose s x" "x \<notin> around s c"
  obtains s' where "internalAddThing s c x = Some s'" "store_ok s'"
proof -
  have not_c: "x \<noteq> c" using x(2) by auto
  then have link: "setParent x (Some (Container_at c)) (set_items c (x # itemlist s c) s) = link s c x"
    by (simp add: link_def setParent_def set_items_def set_box_def fun_upd_twist)
  have w: "getWeight (add_weight c (getWeight (s x)) (link s c x) x) = getWeight (s x)"
    using not_c by (simp add: add_weight_shift getWeight_shift)
  show thesis
    using that added_store [OF ok c x] link w by (simp add: internalAddThing_def Let_def)
qed

text \<open>Changing an item where it lies.\<close>

lemma sum_list_one_changed:
  fixes f g :: "nat \<Rightarrow> int"
  assumes "distinct xs" "\<And>y. y \<noteq> x \<Longrightarrow> g y = f y"
  shows "(\<Sum>y\<leftarrow>xs. g y) = (\<Sum>y\<leftarrow>xs. f y) + (if x \<in> set xs then g x - f x else 0)"
  using assms(1)
proof (induction xs)
  case (Cons y ys)
  then show ?case using assms(2) [of y] by (cases "y = x") auto
qed simp

lemma changed_store:
  assumes ok: "store_ok s" and x: "x \<in> set (itemlist s c)"
    and i: "it_parent i = it_parent (s x)" "it_box i = it_box (s x)"
  defines "t \<equiv> s(x := i)" and "w \<equiv> getWeight i - getWeight (s x)"
  shows "structure_ok t" "around t c = around s c" "store_ok (shift (around s c) w t)"
proof -
  have str: "structure_ok s" and totals: "\<And>d. total s d = weight_inside s d" using ok by (auto simp: store_ok_def)
  have box: "it_box (t d) = it_box (s d)" for d using i by (simp add: t_def)
  have ups: "ups t = ups s" using i by (auto simp: ups_def t_def split: if_splits)
  have same: "box_of t d = box_of s d" for d by (simp add: box_of_def box)
  show t: "structure_ok t" using str unfolding structure_ok_def ups same box .
  show around: "around t c = around s c" by (simp add: around_def ups)
  have "(x, c) \<in> ups s" using x structureD(3) [OF str] by blast
  then have c: "it_box (s c) \<noteq> None" and elsewhere: "x \<in> set (itemlist s d) \<Longrightarrow> d = c" for d
    using structureD(1,3) [OF str] ups_unique by blast+
  have here: "x \<in> set (itemlist s d) \<longleftrightarrow> d = c" for d using elsewhere x by blast
  have inside: "weight_inside t d = weight_inside s d + (if d = c then w else 0)" for d
    unfolding weight_inside_def same w_def here [symmetric]
    using sum_list_one_changed [OF structureD(2) [OF str], of x "\<lambda>y. getWeight (t y)" "\<lambda>y. getWeight (s y)" d]
    by (simp add: t_def)
  have "store_ok (shift (around t c) w t)"
  proof (rule climb_store_ok [OF t])
    show "it_box (t c) \<noteq> None" using c unfolding box .
    show "total t d = weight_inside t d" if "d \<noteq> c" for d unfolding same inside totals using that by simp
    show "total t c + w = weight_inside t c" unfolding same inside totals by simp
  qed
  then show "store_ok (shift (around s c) w t)" by (simp only: around)
qed

text \<open>Taking an item out of its container.\<close>

definition unlink :: "store \<Rightarrow> nat \<Rightarrow> nat \<Rightarrow> store" where
  "unlink s c x = set_items c (remove1 x (itemlist s c)) (setParent x None s)"

lemma unlink_sel [simp]:
  "it_kind (unlink s c x y) = it_kind (s y)" "it_count (unlink s c x y) = it_count (s y)"
  "it_parent (unlink s c x y) = (if y = x then None else it_parent (s y))"
  "it_box (unlink s c x y) = None \<longleftrightarrow> it_box (s y) = None" "total (unlink s c x) y = total s y"
  by (simp_all add: unlink_def set_items_def set_box_def setParent_def box_of_def split: option.split)

lemma unlink_items: "itemlist (unlink s c x) d = (if d = c then remove1 x (itemlist s c) else itemlist s d)"
  by (auto simp: unlink_def set_items_def set_box_def setParent_def box_of_def split: option.split)

lemma unlink_weight [simp]: "getWeight (unlink s c x y) = getWeight (s y)"
  by (rule getWeight_cong) simp_all

lemma unlink_ok:
  assumes ok: "structure_ok s" and x: "(x, c) \<in> ups s"
  shows "structure_ok (unlink s c x)" "around (unlink s c x) c = around s c" "loose (unlink s c x) x" "x \<notin> around s c"
proof -
  have ups: "ups (unlink s c x) = ups s - {(x, c)}"
    using x by (auto simp: ups_def split: if_splits)
  have "distinct (itemlist (unlink s c x) d) \<and> set (itemlist (unlink s c x) d) = {y. (y, d) \<in> ups (unlink s c x)}" for d
    using structureD(2,3) [OF ok] ups_unique [OF x] unfolding ups by (auto simp: unlink_items)
  moreover have "acyclic (ups (unlink s c x))" using structureD(5) [OF ok] unfolding ups by (rule acyclic_subset) blast
  ultimately show "structure_ok (unlink s c x)"
    using structureD(1,4) [OF ok] unfolding structure_ok_def ups by auto
  show out: "x \<notin> around s c" by (rule not_around_parent [OF ok x])
  have "ups s = insert (x, c) (ups (unlink s c x))" using x unfolding ups by blast
  then have "around s c = {d. (c, d) \<in> (ups (unlink s c x))\<^sup>* \<or> (c, x) \<in> (ups (unlink s c x))\<^sup>* \<and> (c, d) \<in> (ups (unlink s c x))\<^sup>*}"
    by (simp only: around_def rtrancl_insert) blast
  then show "around (unlink s c x) c = around s c" by (auto simp: around_def)
  show "loose (unlink s c x) x" using ups_unique [OF x] unfolding loose_def ups by blast
qed

lemma weight_remove1: "x \<in> set xs \<Longrightarrow> (\<Sum>y\<leftarrow>remove1 x xs. f y) = (\<Sum>y\<leftarrow>xs. f y) - (f x :: int)"
  by (induction xs) auto

lemma unlink_inside:
  assumes "structure_ok s" "(x, c) \<in> ups s"
  shows "weight_inside (unlink s c x) d = weight_inside s d - (if d = c then getWeight (s x) else 0)"
  using assms structureD(3) [OF assms(1)] by (simp add: weight_inside_def unlink_items weight_remove1)

lemma removed_store:
  assumes ok: "store_ok s" and x: "(x, c) \<in> ups s"
  shows "store_ok (shift (around s c) (- getWeight (s x)) (unlink s c x))"
proof -
  have str: "structure_ok s" and totals: "\<And>d. total s d = weight_inside s d" using ok by (auto simp: store_ok_def)
  have "store_ok (shift (around (unlink s c x) c) (- getWeight (s x)) (unlink s c x))"
    using structureD(1) [OF str x]
    by (intro climb_store_ok unlink_ok [OF str x]) (simp_all add: totals unlink_inside [OF str x])
  then show ?thesis by (simp only: unlink_ok(2) [OF str x])
qed

text \<open>The order of the items in a container does not matter.\<close>

lemma relist_ok:
  assumes ok: "structure_ok s" and ys: "mset ys = mset (itemlist s c)" and c: "it_box (s c) \<noteq> None"
  shows "structure_ok (set_items c ys s)" "around (set_items c ys s) d = around s d"
    "total (set_items c ys s) d = total s d" "weight_inside (set_items c ys s) d = weight_inside s d"
proof -
  let ?t = "set_items c ys s"
  have items: "itemlist ?t d = (if d = c then ys else itemlist s d)" for d
    using c by (auto simp: set_items_def set_box_def box_of_def)
  have box: "it_box (?t d) = None \<longleftrightarrow> it_box (s d) = None" for d by (simp add: set_items_def set_box_def)
  have ups: "ups ?t = ups s" by (auto simp: ups_def set_items_def set_box_def split: if_splits)
  have "distinct ys \<longleftrightarrow> distinct (itemlist s c)" "set ys = set (itemlist s c)"
    using ys by (metis mset_eq_imp_distinct_iff, metis mset_eq_setD)
  then show "structure_ok ?t" using ok unfolding structure_ok_def ups items box by simp
  show "around ?t d = around s d" by (simp add: around_def ups)
  show tot: "total ?t d = total s d" for d by (auto simp: set_items_def set_box_def box_of_def split: option.split)
  have w: "getWeight (?t y) = getWeight (s y)" for y
    by (rule getWeight_cong [OF _ _ box tot]) (simp_all add: set_items_def set_box_def)
  have "(\<Sum>y\<leftarrow>ys. f y) = (\<Sum>y\<leftarrow>itemlist s c. f y)" for f :: "nat \<Rightarrow> int"
    using ys by (metis mset_map sum_mset_sum_list)
  then show "weight_inside ?t d = weight_inside s d" by (simp add: weight_inside_def items w)
qed

lemma shift_commutes:
  "set_items c ys (shift A w s) = shift A w (set_items c ys s)" "setParent x p (shift A w s) = shift A w (setParent x p s)"
  by (rule ext, auto simp: shift_def set_items_def set_box_def setParent_def add_weight_def map_option_case split: option.split)+

lemma setParent_items [simp]:
  "itemlist (setParent x p s) c = itemlist s c" "it_box (setParent x p s y) = it_box (s y)"
  by (simp_all add: setParent_def box_of_def)

lemma unserialize_add_run:
  assumes ok: "store_ok s" and c: "it_box (s c) \<noteq> None" and x: "loose s x" "x \<notin> around s c"
  obtains s' where "unserialize_add s c x = Some s'" "store_ok s'"
proof -
  let ?t = "link s c x" and ?ys = "itemlist s c @ [x]"
  let ?u = "set_items c ?ys ?t"
  have str: "structure_ok s" and totals: "\<And>d. total s d = weight_inside s d" using ok by (auto simp: store_ok_def)
  note l = link_ok [OF str c x]
  have c_t: "it_box (?t c) \<noteq> None" using c by simp
  have "mset ?ys = mset (itemlist ?t c)" using c by (simp add: link_items)
  note u = relist_ok [OF l(1) this c_t]
  have not_c: "x \<noteq> c" using x(2) by auto
  then have add: "addItem s c x = ?u"
    by (auto simp: addItem_def link_def setParent_def set_items_def set_box_def fun_eq_iff option.map_comp comp_def)
  have w: "getWeight (?u x) = getWeight (s x)"
    using not_c by (simp add: set_items_def set_box_def)
  have "store_ok (shift (around ?u c) (getWeight (s x)) ?u)"
  proof (rule climb_store_ok [OF u(1)])
    show "it_box (?u c) \<noteq> None" using c by (simp add: set_items_def set_box_def)
    show "total ?u d = weight_inside ?u d" if "d \<noteq> c" for d
      unfolding u(3,4) using totals [of d] that by (simp add: weight_inside_def link_items)
    show "total ?u c + getWeight (s x) = weight_inside ?u c"
      unfolding u(3,4) using totals [of c] c by (simp add: weight_inside_def link_items)
  qed
  then show thesis
    using that updateItemWeight_run [OF u(1)] by (simp add: unserialize_add_def Let_def add w)
qed

text \<open>The items a clone gets do not count: its total stays what it was.\<close>

lemma clone_items_total: "total (clone_items s c copies) d = total s d"
proof (induction copies arbitrary: s)
  case (Cons x xs)
  have "total (addItem s c x) d = total s d"
    by (simp add: addItem_def set_items_def set_box_def setParent_def box_of_def split: option.split)
  then show ?case using Cons [of "addItem s c x"] by (simp add: clone_items_def)
qed (simp add: clone_items_def)

lemma clone_items_list: "it_box (s c) \<noteq> None \<Longrightarrow> itemlist (clone_items s c copies) c = itemlist s c @ copies"
proof (induction copies arbitrary: s)
  case (Cons x xs)
  have "it_box (addItem s c x c) \<noteq> None" "itemlist (addItem s c x) c = itemlist s c @ [x]"
    using Cons.prems by (auto simp: addItem_def set_items_def set_box_def setParent_def box_of_def)
  then show ?case using Cons.IH [of "addItem s c x"] by (simp add: clone_items_def)
qed (simp add: clone_items_def)

section \<open>Every operation keeps the store right\<close>

lemma index_loop_iff: "0 \<le> k \<Longrightarrow> index_loop k x xs = - 1 \<longleftrightarrow> x \<notin> set xs"
  by (induction xs arbitrary: k) auto

lemma getIndexOfThing_iff: "getIndexOfThing s c (Some x) = - 1 \<longleftrightarrow> x \<notin> set (itemlist s c)"
  by (simp add: getIndexOfThing_def index_loop_iff)

lemma setSubType_sel [simp]:
  "it_parent (setSubType m i) = it_parent i" "it_box (setSubType m i) = it_box i"
  "it_parent (setItemCount m i) = it_parent i" "it_box (setItemCount m i) = it_box i"
  "it_parent (setKind k i) = it_parent i" "it_box (setKind k i) = it_box i"
  by (simp_all add: setSubType_def setFluidType_def setCharges_def setItemCount_def setKind_def)

lemma changed_run:
  assumes ok: "store_ok s" and x: "x \<in> set (itemlist s c)"
    and i: "it_parent i = it_parent (s x)" "it_box i = it_box (s x)"
  obtains s' where
    "update_parent_weight (add_weight c (- getWeight (s x) + getWeight i) (s(x := i))) c (- getWeight (s x) + getWeight i) = Some s'"
    "store_ok s'" "ups s' = ups s" "\<And>d. it_box (s' d) = None \<longleftrightarrow> it_box (s d) = None"
proof -
  have "ups (s(x := i)) = ups s" using i(1) by (auto simp: ups_def split: if_splits)
  moreover have "it_box ((s(x := i)) d) = it_box (s d)" for d using i(2) by simp
  ultimately show thesis
    using that [OF _ changed_store(3) [OF ok x i]] changed_store(1,2) [OF ok x i]
      climb_run [of "s(x := i)" c "- getWeight (s x) + getWeight i"] by simp
qed

lemma updateThing_run:
  assumes "store_ok s"
  obtains s' ns where "updateThing kinds s c item itemId n = Some (s', ns)" "store_ok s'"
proof (cases "getIndexOfThing s c item = - 1 \<or> item = None \<or> kinds itemId = None")
  case True
  then have "updateThing kinds s c item itemId n = Some (s, [])"
    by (auto simp: updateThing_def Let_def split: option.split)
  then show thesis using that assms by blast
next
  case False
  then obtain x kind where x: "item = Some x" "x \<in> set (itemlist s c)" "kinds itemId = Some kind"
    by (auto simp: getIndexOfThing_iff)
  let ?i = "setSubType (ucast n) (setKind kind (s x))"
  obtain s' where "update_parent_weight (add_weight c (- getWeight (s x) + getWeight ?i) (s(x := ?i))) c
      (- getWeight (s x) + getWeight ?i) = Some s'" "store_ok s'"
    by (rule changed_run [OF assms x(2), of ?i]) simp_all
  then show thesis using that False x(1,3) by (simp add: updateThing_def Let_def)
qed

lemma no_parent_climb:
  assumes "structure_ok s" "it_parent (s c) = None"
  shows "update_parent_weight s c w = Some s"
  using assms(2) by (simp add: update_parent_weight_def getParentContainer_def)

lemma removeThing_run:
  assumes ok: "store_ok s"
  obtains s' ns where "removeThing s c item n = Some (s', ns)" "store_ok s'" "ups s' \<subseteq> ups s"
    "\<And>d. it_box (s' d) = None \<longleftrightarrow> it_box (s d) = None"
proof (cases "getIndexOfThing s c item = - 1 \<or> item = None")
  case True
  then have "removeThing s c item n = Some (s, [])" by (auto simp: removeThing_def split: option.split)
  then show thesis using that ok by blast
next
  case False
  then obtain x where x: "item = Some x" "x \<in> set (itemlist s c)" by (auto simp: getIndexOfThing_iff)
  have str: "structure_ok s" using ok by (simp add: store_ok_def)
  have up: "(x, c) \<in> ups s" using x(2) structureD(3) [OF str] by blast
  show thesis
  proof (cases "k_stackable (it_kind (s x)) \<and> n \<noteq> ucast (getItemCount (s x))")
    case True
    let ?i = "setItemCount (word_of_int (max 0 (sint (ucast (getItemCount (s x)) - n)))) (s x)"
    let ?t = "add_weight c (- getWeight (s x) + getWeight ?i) (s(x := ?i))"
    obtain s' where s': "update_parent_weight ?t c (- getWeight (s x) + getWeight ?i) = Some s'" "store_ok s'"
        "ups s' = ups s" "\<And>d. it_box (s' d) = None \<longleftrightarrow> it_box (s d) = None"
      by (rule changed_run [OF ok x(2), of ?i]) simp_all
    have "structure_ok ?t" using changed_store(1) [OF ok x(2), of ?i] by (simp add: add_weight_shift)
    then have "it_parent (?t c) = None \<Longrightarrow> ?t = s'" using s'(1) no_parent_climb by fastforce
    then show thesis using that False x(1) True s' by (cases "it_parent (?t c)") (auto simp: removeThing_def Let_def)
  next
    case no_part: False
    let ?w = "- getWeight (s x)"
    let ?s' = "shift (around s c - {c}) ?w s"
    have out: "x \<notin> around s c" by (rule unlink_ok(4) [OF str up])
    have w: "getWeight (?s' x) = getWeight (s x)" using out by (simp add: getWeight_shift)
    have "add_weight c ?w ?s' = shift (around s c) ?w s"
      unfolding add_weight_shift by (subst shift_shift) (auto simp: insert_absorb)
    then have last: "set_items c (remove1 x (itemlist (setParent x None (add_weight c ?w ?s')) c)) (setParent x None (add_weight c ?w ?s'))
        = shift (around s c) ?w (unlink s c x)"
      by (simp add: shift_commutes unlink_def)
    have "\<exists>ns. removeThing s c item n = Some (shift (around s c) ?w (unlink s c x), ns)"
    proof (cases "it_parent (s c)")
      case None
      then have "?s' = s" using update_parent_run [OF str, of c ?w] no_parent_climb [OF str None, of ?w] by simp
      then show ?thesis using False x(1) no_part None last by (auto simp: removeThing_def Let_def)
    next
      case (Some p)
      then show ?thesis using False x(1) no_part last w update_parent_run [OF str, of c ?w]
        by (auto simp: removeThing_def Let_def)
    qed
    moreover have "ups (shift (around s c) ?w (unlink s c x)) \<subseteq> ups s"
      by (auto simp: ups_def split: if_splits)
    ultimately show thesis using that removed_store [OF ok up] by fastforce
  qed
qed

lemma shift_twice: "shift A a (shift A b s) = shift A (b + a) s"
  by (rule ext) (simp add: shift_def add_weight_def set_box_def option.map_comp comp_def add.assoc)

lemma set_items_simps:
  "setParent x p (set_items c ys s) = set_items c ys (setParent x p s)"
  "set_items c ys (set_items c zs s) = set_items c ys s"
  "it_box (s c) \<noteq> None \<Longrightarrow> itemlist (set_items c ys s) c = ys"
  "x \<noteq> y \<Longrightarrow> setParent x p (setParent y q s) = setParent y q (setParent x p s)"
  by (auto simp: setParent_def set_items_def set_box_def box_of_def fun_eq_iff option.map_comp comp_def)

lemma replaceThing_run:
  assumes ok: "store_ok s" and x: "loose s x" "x \<notin> around s c"
  obtains s' ns where "replaceThing s c index (Some x) = Some (s', ns)" "store_ok s'"
proof (cases "unat index \<ge> length (itemlist s c)")
  case True
  then show thesis using that ok by (simp add: replaceThing_def)
next
  case False
  let ?xs = "itemlist s c" and ?i = "unat index"
  let ?e = "?xs ! ?i" and ?A = "around s c"
  let ?w = "- getWeight (s ?e) + getWeight (s x)"
  have str: "structure_ok s" and totals: "\<And>d. total s d = weight_inside s d" using ok by (auto simp: store_ok_def)
  have e: "(?e, c) \<in> ups s" using False structureD(3) [OF str] nth_mem by (metis not_le)
  have c: "it_box (s c) \<noteq> None" by (rule structureD(1) [OF str e])
  note un = unlink_ok [OF str e]
  have loose: "loose (unlink s c ?e) x" using x(1) e by (auto simp: loose_def ups_def split: if_splits)
  let ?t = "link (unlink s c ?e) c x"
  have t: "structure_ok ?t" "around ?t c = ?A"
    using link_ok [OF un(1) _ loose, of c] c x(2) un(2) by simp_all
  let ?ys = "take ?i ?xs @ x # drop (?i + 1) ?xs"
  have "mset ?ys = mset (itemlist ?t c)"
  proof -
    have "mset ?xs = add_mset ?e (mset (take ?i ?xs) + mset (drop (?i + 1) ?xs))"
      using False id_take_nth_drop [of ?i ?xs] by (metis Suc_eq_plus1 mset.simps(2) mset_append not_le union_mset_add_mset_right)
    then show ?thesis using c by (simp add: link_items unlink_items)
  qed
  note u = relist_ok [OF t(1) this]
  let ?u = "set_items c ?ys ?t"
  have c_t: "it_box (?t c) \<noteq> None" using c by simp
  have inside: "weight_inside ?u d = weight_inside s d + (if d = c then ?w else 0)" for d
  proof -
    have "weight_inside ?t d = weight_inside (unlink s c ?e) d + (if d = c then getWeight (s x) else 0)"
      using c by (simp add: weight_inside_def link_items)
    then show ?thesis unfolding u(4) [OF c_t] unlink_inside [OF str e] by simp
  qed
  have "store_ok (shift (around ?u c) ?w ?u)"
  proof (rule climb_store_ok [OF u(1) [OF c_t]])
    show "it_box (?u c) \<noteq> None" using c by (simp add: set_items_def set_box_def)
    show "total ?u d = weight_inside ?u d" if "d \<noteq> c" for d unfolding u(3) [OF c_t] inside using that by (simp add: totals)
    show "total ?u c + ?w = weight_inside ?u c" unfolding u(3) [OF c_t] inside by (simp add: totals)
  qed
  then have right: "store_ok (shift ?A ?w ?u)" by (simp only: u(2) [OF c_t] t(2))
  have ne: "x \<noteq> c" "?e \<noteq> c" "?e \<noteq> x" using x e un(4) by (auto simp: loose_def)
  let ?s2 = "add_weight c (getWeight (s x)) (add_weight c (- getWeight (s ?e)) s)"
  have s2: "?s2 = shift {c} ?w s" by (simp add: add_weight_shift shift_twice)
  have climb: "update_parent_weight ?s2 c ?w = Some (shift ?A ?w s)"
    unfolding s2 using update_parent_run [of "shift {c} ?w s" c ?w] str
    by (simp add: shift_shift insert_absorb)
  define L where "L = take ?i ?xs @ x # drop ?i ?xs"
  have L: "take (?i + 1) L @ drop (?i + 2) L = ?ys" using False by (simp add: L_def)
  have unfolded: "replaceThing s c index (Some x) = Some (shift ?A ?w ?u,
      if it_parent (s c) \<noteq> None then [Item_updated c (uint index) ?e x] else [])"
  proof -
    have "set_items c ?ys (setParent ?e None (setParent x (Some (Container_at c)) s)) = ?u"
      using ne by (simp add: link_def unlink_def set_items_simps)
    moreover have "set_items c (take (?i + 1) (itemlist (setParent ?e None (setParent x (Some (Container_at c)) (set_items c L (shift ?A ?w s)))) c)
        @ drop (?i + 2) (itemlist (setParent ?e None (setParent x (Some (Container_at c)) (set_items c L (shift ?A ?w s)))) c))
        (setParent ?e None (setParent x (Some (Container_at c)) (set_items c L (shift ?A ?w s))))
      = shift ?A ?w (set_items c ?ys (setParent ?e None (setParent x (Some (Container_at c)) s)))"
      using c L by (simp add: shift_commutes set_items_simps)
    moreover have "getWeight (add_weight c (- getWeight (s ?e)) s x) = getWeight (s x)"
      "getWeight (?s2 x) = getWeight (s x)" "getWeight (?s2 ?e) = getWeight (s ?e)"
      using ne by (simp_all add: add_weight_shift getWeight_shift)
    moreover have "it_parent (setParent x (Some (Container_at c)) (set_items c L (shift ?A ?w s)) c) = it_parent (s c)"
      using ne by (simp add: setParent_def set_items_def set_box_def)
    ultimately show ?thesis
      using False climb by (simp add: replaceThing_def Let_def L_def)
  qed
  show thesis using that [OF unfolded right] .
qed

end
