(* ===== verification/Container_Walk.thy ===== *)
theory Container_Walk
  imports Container_Trees
begin

text \<open>
  The iterator over a container visits every item inside it, at any depth, exactly once; so the loops
  over it return with what they look for.
\<close>

section \<open>Trees of items\<close>

definition inside :: "store \<Rightarrow> nat \<Rightarrow> nat set" where
  "inside s c = {x. (x, c) \<in> (ups s)\<^sup>+}"

definition trees :: "store \<Rightarrow> nat list \<Rightarrow> nat set" where
  "trees s xs = {y. \<exists>x \<in> set xs. (y, x) \<in> (ups s)\<^sup>*}"

text \<open>A list of items none of which is inside another.\<close>

definition apart :: "store \<Rightarrow> nat list \<Rightarrow> bool" where
  "apart s xs \<longleftrightarrow> distinct xs \<and> (\<forall>x \<in> set xs. \<forall>y \<in> set xs. (x, y) \<notin> (ups s)\<^sup>+)"

lemma ups_trancl_parent: "(x, p) \<in> ups s \<Longrightarrow> (x, y) \<in> (ups s)\<^sup>+ \<Longrightarrow> (p, y) \<in> (ups s)\<^sup>*"
  by (auto dest: tranclD ups_unique)

lemma trees_children:
  assumes "structure_ok s"
  shows "trees s (itemlist s c) = inside s c"
  using structureD(3) [OF assms] by (auto simp: trees_def inside_def trancl_unfold_right)

lemma trees_Nil: "trees s [] = {}"
  by (simp add: trees_def)

lemma trees_step:
  assumes "structure_ok s"
  shows "trees s (x # xs) = insert x (trees s (xs @ itemlist s x))"
proof -
  have "{y. (y, x) \<in> (ups s)\<^sup>*} = insert x (trees s (itemlist s x))"
    unfolding trees_children [OF assms] by (auto simp: inside_def rtrancl_eq_or_trancl)
  then show ?thesis by (auto simp: trees_def)
qed

lemma apart_children:
  assumes ok: "structure_ok s"
  shows "apart s (itemlist s c)"
proof -
  have "(x, y) \<notin> (ups s)\<^sup>+" if "(x, c) \<in> ups s" "(y, c) \<in> ups s" for x y
    using ups_trancl_parent [OF that(1), of y] that(2) structureD(5) [OF ok]
    by (auto simp: acyclic_def intro: rtrancl_into_trancl2 dest: rtrancl_into_trancl1)
  then show ?thesis using structureD(2,3) [OF ok] by (auto simp: apart_def)
qed

lemma apart_step:
  assumes ok: "structure_ok s" and xs: "apart s (x # xs)"
  shows "apart s (xs @ itemlist s x)" "x \<notin> trees s (xs @ itemlist s x)"
proof -
  have not: "(x, y) \<notin> (ups s)\<^sup>*" "(y, x) \<notin> (ups s)\<^sup>+" if "y \<in> set xs" for y
    using xs that by (auto simp: apart_def rtrancl_eq_or_trancl)
  have child: "(z, y) \<notin> (ups s)\<^sup>+" "(y, z) \<notin> (ups s)\<^sup>+" "z \<noteq> y" if "y \<in> set xs" "(z, x) \<in> ups s" for y z
    using not [OF that(1)] that(2) ups_trancl_parent [OF that(2), of y]
    by (auto intro: trancl_into_trancl)
  have in_x: "z \<in> set (itemlist s x) \<Longrightarrow> (z, x) \<in> ups s" for z using structureD(3) [OF ok] by blast
  show "apart s (xs @ itemlist s x)"
    using xs apart_children [OF ok, of x] child in_x unfolding apart_def by (auto, blast+)
  have "(x, z) \<notin> (ups s)\<^sup>*" if "(z, x) \<in> ups s" for z
    using that structureD(5) [OF ok] by (auto simp: acyclic_def dest: rtrancl_into_trancl1)
  then show "x \<notin> trees s (xs @ itemlist s x)" using not(1) in_x by (auto simp: trees_def)
qed

lemma finite_trees:
  assumes "structure_ok s"
  shows "finite (trees s xs)"
proof -
  have "trees s xs \<subseteq> set xs \<union> Domain (ups s)" by (auto simp: trees_def elim: converse_rtranclE)
  then show ?thesis using structureD(4) [OF assms] by (auto intro: finite_subset simp: finite_Domain)
qed

section \<open>The iterator\<close>

text \<open>An iterator that stands on an item, and the items it still has to visit without their contents.\<close>

definition iterator_ok :: "store \<Rightarrow> container_iterator \<Rightarrow> bool" where
  "iterator_ok s i \<longleftrightarrow> (\<forall>c \<in> set (ci_over i). itemlist s c \<noteq> [])
     \<and> (ci_over i \<noteq> [] \<longrightarrow> ci_current i < length (itemlist s (hd (ci_over i))))"

definition ahead :: "store \<Rightarrow> container_iterator \<Rightarrow> nat list" where
  "ahead s i = (case ci_over i of [] \<Rightarrow> [] | c # cs \<Rightarrow> drop (ci_current i) (itemlist s c) @ concat (map (itemlist s) cs))"

lemma iterator_neq_end: "iterator_neq i (container_end (ci_base i)) \<longleftrightarrow> ci_over i \<noteq> []"
  by (simp add: iterator_neq_def container_end_def)

lemma ahead_Nil: "iterator_ok s i \<Longrightarrow> ahead s i = [] \<longleftrightarrow> ci_over i = []"
  by (auto simp: ahead_def iterator_ok_def split: list.splits)

lemma itemlist_no_box: "it_box (s x) = None \<Longrightarrow> itemlist s x = []"
  by (simp add: box_of_def)

lemma iterator_step:
  assumes ok: "iterator_ok s i" and going: "ci_over i \<noteq> []"
  obtains x xs i' where "ahead s i = x # xs" "iterator_get s i = Inr x" "iterator_next s i = Inr i'"
    "iterator_ok s i'" "ci_base i' = ci_base i" "ahead s i' = xs @ itemlist s x"
proof -
  obtain c cs where over: "ci_over i = c # cs" using going by (cases "ci_over i") auto
  let ?k = "ci_current i"
  have k: "?k < length (itemlist s c)" using ok over by (simp add: iterator_ok_def)
  let ?x = "itemlist s c ! ?k" and ?xs = "drop (?k + 1) (itemlist s c) @ concat (map (itemlist s) cs)"
  have get: "iterator_get s i = Inr ?x" using over k by (simp add: iterator_get_def)
  have ahead: "ahead s i = ?x # ?xs" using over k by (simp add: ahead_def Cons_nth_drop_Suc)
  define new where "new = (if it_box (s ?x) \<noteq> None \<and> \<not> container_empty s ?x then [?x] else [])"
  have new: "concat (map (itemlist s) new) = itemlist s ?x" "\<forall>d \<in> set new. itemlist s d \<noteq> []"
    using itemlist_no_box [of s ?x] by (auto simp: container_empty_def new_def)
  define over' where "over' = cs @ new"
  have full: "\<forall>d \<in> set over'. itemlist s d \<noteq> []" using ok over new(2) by (auto simp: iterator_ok_def over'_def)
  have cat: "concat (map (itemlist s) over') = concat (map (itemlist s) cs) @ itemlist s ?x" using new(1) by (simp add: over'_def)
  let ?i = "if ?k + 1 = length (itemlist s c)
      then i\<lparr>ci_over := over', ci_current := if over' = [] then ?k + 1 else 0\<rparr>
      else i\<lparr>ci_over := c # over', ci_current := ?k + 1\<rparr>"
  have "iterator_next s i = Inr ?i"
    using over get by (auto simp: iterator_next_def Let_def new_def over'_def)
  moreover have "iterator_ok s ?i"
    using full k over ok by (cases over') (auto simp: iterator_ok_def)
  moreover have "ahead s ?i = ?xs @ itemlist s ?x"
    using cat k by (cases over') (auto simp: ahead_def)
  ultimately show thesis using that ahead get by force
qed

section \<open>The walk\<close>

text \<open>The items an iterator gives until it is at the end.\<close>

inductive walks :: "store \<Rightarrow> container_iterator \<Rightarrow> nat list \<Rightarrow> bool" for s where
  at_end: "ci_over i = [] \<Longrightarrow> walks s i []"
| onward: "ci_over i \<noteq> [] \<Longrightarrow> iterator_get s i = Inr x \<Longrightarrow> iterator_next s i = Inr i' \<Longrightarrow> ci_base i' = ci_base i
    \<Longrightarrow> walks s i' xs \<Longrightarrow> walks s i (x # xs)"

lemma walk_all:
  assumes "structure_ok s" "iterator_ok s i" "apart s (ahead s i)"
  shows "\<exists>xs. walks s i xs \<and> distinct xs \<and> set xs = trees s (ahead s i)"
  using assms(2,3)
proof (induction "card (trees s (ahead s i))" arbitrary: i rule: less_induct)
  case less
  show ?case
  proof (cases "ci_over i = []")
    case True
    then show ?thesis by (auto simp: ahead_def trees_Nil intro: walks.at_end)
  next
    case False
    obtain x xs i' where step: "ahead s i = x # xs" "iterator_get s i = Inr x" "iterator_next s i = Inr i'"
      "iterator_ok s i'" "ci_base i' = ci_base i" "ahead s i' = xs @ itemlist s x"
      by (rule iterator_step [OF less.prems(1) False])
    have apart: "apart s (ahead s i')" "x \<notin> trees s (ahead s i')"
      using apart_step [OF assms(1)] less.prems(2) unfolding step(1,6) by blast+
    have all: "trees s (ahead s i) = insert x (trees s (ahead s i'))"
      unfolding step(1,6) by (rule trees_step [OF assms(1)])
    have "card (trees s (ahead s i')) < card (trees s (ahead s i))"
      using apart(2) finite_trees [OF assms(1)] unfolding all by simp
    then obtain ys where "walks s i' ys" "distinct ys" "set ys = trees s (ahead s i')"
      using less.hyps step(4) apart(1) by blast
    then show ?thesis
      using apart(2) step(2,3,5) False by (intro exI [of _ "x # ys"]) (auto simp: all intro: walks.onward)
  qed
qed

lemma begin_ok: "iterator_ok s (container_begin s c)" "ahead s (container_begin s c) = itemlist s c"
  by (auto simp: iterator_ok_def ahead_def container_begin_def)

lemma walk_container:
  assumes "structure_ok s"
  obtains xs where "walks s (container_begin s c) xs" "distinct xs" "set xs = inside s c"
  using walk_all [OF assms begin_ok(1), of c] apart_children [OF assms, of c] trees_children [OF assms, of c]
  unfolding begin_ok(2) by auto

lemma inside_loop_walk: "walks s i xs \<Longrightarrow> inside_loop s i acc = Some (Inr (acc @ xs))"
  by (induction arbitrary: acc rule: walks.induct) (simp_all add: inside_loop.simps iterator_neq_end)

lemma count_loop_walk: "walks s i xs \<Longrightarrow> count_inside_loop s i n = Some (Inr (n + word_of_nat (length xs)))"
  by (induction arbitrary: n rule: walks.induct) (simp_all add: count_inside_loop.simps iterator_neq_end)

lemma holding_loop_walk: "walks s i xs \<Longrightarrow> holding_loop s x i = Some (Inr (x \<in> set xs))"
  by (induction rule: walks.induct) (auto simp: holding_loop.simps iterator_neq_end)

lemma description_loop_walk:
  "walks s i xs \<Longrightarrow> description_loop names s i first out = Some (Inr (first \<and> xs = [],
     out @ (case xs of [] \<Rightarrow> [] | x # ys \<Rightarrow> (if first then [] else '', '') @ names x @ concat (map (\<lambda>y. '', '' @ names y) ys))))"
  by (induction arbitrary: first out rule: walks.induct)
    (auto simp: description_loop.simps iterator_neq_end split: list.split)

end
