(* ===== verification/Container_Life.thy ===== *)
theory Container_Life
  imports Container_Walk
begin

text \<open>
  The containers of a running game: from loose items, through any additions that \<^verbatim>\<open>__queryAdd\<close>
  allows and any updates, replacements and removals.  The containers stay trees with right weights,
  so every operation and every loop over them returns.
\<close>

section \<open>What the query guarantees\<close>

lemma around_loop_run:
  assumes "structure_ok s"
  shows "around_loop tiles s x p = Some (case p of Some (Container_at d) \<Rightarrow> x \<in> around s d | _ \<Rightarrow> False)"
proof -
  have wf: "wf ((ups s)\<inverse>)" using structureD(4,5) [OF assms] by (rule finite_acyclic_wf_converse)
  have other: "around_loop tiles s x p = Some False" if "\<And>d. p \<noteq> Some (Container_at d)" for p
  proof -
    have "around_loop tiles s x None = Some False" by (simp add: around_loop.simps)
    moreover have "around_loop tiles s x (Some (Tile_at t)) = Some False" for t
      by (simp add: around_loop.simps cylinder_parent_def)
    ultimately show ?thesis
      using that by (cases p; cases "the p"; cases "tiles (case the p of Creature_at k \<Rightarrow> k | _ \<Rightarrow> 0)")
        (auto simp: around_loop.simps [of _ _ _ "Some _"] cylinder_parent_def)
  qed
  have "around_loop tiles s x (Some (Container_at d)) = Some (x \<in> around s d)" for d
    using wf
  proof (induction d rule: wf_induct_rule)
    case (less d)
    show ?case
    proof (cases "\<exists>q. (d, q) \<in> ups s")
      case True
      then obtain q where q: "(d, q) \<in> ups s" by blast
      then show ?thesis using less.IH [of q] around_step [OF q]
        by (auto simp: around_loop.simps [of _ _ _ "Some _"] cylinder_parent_def ups_def)
    next
      case False
      then show ?thesis using around_top [OF False] other [of "it_parent (s d)"]
        by (auto simp: around_loop.simps [of _ _ _ "Some _"] cylinder_parent_def ups_def)
    qed
  qed
  then show ?thesis using other [of p] by (auto split: option.split cylinder.split)
qed

lemma top_loop_returns:
  assumes "structure_ok s"
  shows "\<exists>r. top_loop tiles s prev aux = Some r"
proof -
  have wf: "wf ((ups s)\<inverse>)" using structureD(4,5) [OF assms] by (rule finite_acyclic_wf_converse)
  have tile: "\<exists>r. top_loop tiles s prev (Tile_at t) = Some r" for prev t
    by (simp add: top_loop.simps cylinder_parent_def)
  have other: "\<exists>r. top_loop tiles s prev aux = Some r" if "\<And>d. aux \<noteq> Container_at d" for prev aux
    using that tile by (cases aux) (auto simp: top_loop.simps [of _ _ _ "Creature_at _"]
        top_loop.simps [of _ _ _ Virtual_cylinder] cylinder_parent_def split: option.split)
  have "\<exists>r. top_loop tiles s prev (Container_at d) = Some r" for d prev
    using wf
  proof (induction d arbitrary: prev rule: wf_induct_rule)
    case (less d)
    show ?case
    proof (cases "it_parent (s d)")
      case (Some q)
      then show ?thesis using less.IH other [of q]
        by (cases q) (auto simp: top_loop.simps [of _ _ _ "Container_at d"] cylinder_parent_def ups_def)
    qed (simp add: top_loop.simps cylinder_parent_def)
  qed
  then show ?thesis using other [of aux prev] by (cases aux) auto
qed

lemma container_queryAdd_run:
  assumes ok: "structure_ok s" and ask: "\<And>t i y m f. \<exists>r. ask t i y m f = Some r"
  shows "\<exists>r. container_queryAdd ask tiles s c index item n flags = Some r
    \<and> (r = Inr RET_NOERROR \<and> \<not> hasBitSet FLAG_CHILDISOWNER flags \<longrightarrow> (\<exists>x. item = Some x \<and> x \<notin> around s c))"
proof -
  obtain t where t: "getTopParent tiles s c = Some t"
    using top_loop_returns [OF ok, of tiles] by (cases "it_parent (s c)") (force simp: getTopParent_def Let_def)+
  have no_box: "x \<notin> around s c" if "x \<noteq> c" "it_box (s x) = None" for x
  proof
    assume "x \<in> around s c"
    then obtain y where "(y, x) \<in> ups s" using \<open>x \<noteq> c\<close> unfolding around_def by (metis mem_Collect_eq rtranclE)
    then show False using structureD(1) [OF ok] that(2) by blast
  qed
  have parent: "x \<notin> around s c" if "x \<noteq> c" "(case it_parent (s c) of Some (Container_at d) \<Rightarrow> x \<in> around s d | _ \<Rightarrow> False) = False" for x
    using that around_step [of c] around_top [of c s]
    by (cases "it_parent (s c)"; cases "the (it_parent (s c))") (auto simp: ups_def)
  show ?thesis
  proof (cases item)
    case None
    then show ?thesis by (simp add: container_queryAdd_def)
  next
    case (Some x)
    define p where "p = (case it_parent (s c) of Some (Container_at d) \<Rightarrow> x \<in> around s d | _ \<Rightarrow> False)"
    have p: "around_loop tiles s x (it_parent (s c)) = Some p" unfolding p_def by (rule around_loop_run [OF ok])
    have free: "x \<noteq> c \<Longrightarrow> \<not> p \<Longrightarrow> x \<notin> around s c" using parent [of x] by (simp add: p_def)
    show ?thesis
    proof (cases "hasBitSet FLAG_CHILDISOWNER flags \<or> \<not> k_pickupable (it_kind (s x)) \<or> x = c \<or> it_box (s x) \<noteq> None \<and> p")
      case True
      then show ?thesis by (auto simp: container_queryAdd_def Some p)
    next
      case False
      then have "x \<notin> around s c" using no_box [of x] free by blast
      moreover have bind: "Option.bind (if it_box (s x) \<noteq> None then around_loop tiles s x (it_parent (s c)) else Some False) f = f False"
        for f :: "bool \<Rightarrow> return_value run option"
        using False p by (cases "it_box (s x)") auto
      have go: "hasBitSet FLAG_CHILDISOWNER flags = False" "(\<not> k_pickupable (it_kind (s x))) = False" "(x = c) = False"
        using False by blast+
      have "\<exists>r. (case t of None \<Rightarrow> Some (Inl Undefined_behaviour) | Some t \<Rightarrow> if t \<noteq> Container_at c
          then ask t INDEX_WHEREEVER item n (flags OR FLAG_CHILDISOWNER) else Some (Inr RET_NOERROR)) = Some r"
        using ask by (auto split: option.split)
      then have "\<exists>r. container_queryAdd ask tiles s c index item n flags = Some r"
        unfolding container_queryAdd_def Some option.case go if_False bind t bind.bind_lunit by (auto split: if_split)
      ultimately show ?thesis using Some by blast
    qed
  qed
qed

lemma getItemHoldingCount_run:
  assumes "structure_ok s"
  shows "getItemHoldingCount s c = Some (Inr (word_of_nat (card (inside s c))))"
proof -
  obtain xs where xs: "walks s (container_begin s c) xs" "distinct xs" "set xs = inside s c"
    by (rule walk_container [OF assms])
  have "card (inside s c) = length xs" using xs(2,3) distinct_card by metis
  then show ?thesis using count_loop_walk [OF xs(1), of 0] by (simp add: getItemHoldingCount_def)
qed

lemma added_count_run:
  assumes "structure_ok s"
  obtains t where "getTopParent tiles s x = Some t" "added_count tiles s c x n = Some (Inr
    (if t \<noteq> Some (Container_at c) then if it_box (s x) \<noteq> None then word_of_nat (card (inside s x)) + 1 else 1
     else if k_stackable (it_kind (s x)) \<and> ucast (getItemCount (s x)) \<noteq> n then 1 else 0))"
proof -
  obtain t where t: "getTopParent tiles s x = Some t"
    using top_loop_returns [OF assms, of tiles] by (cases "it_parent (s x)") (force simp: getTopParent_def Let_def)+
  show thesis by (rule that [OF t]) (simp add: added_count_def t getItemHoldingCount_run [OF assms])
qed

lemma virtual_queryAdd_run:
  assumes ok: "structure_ok s" and ask: "\<And>t i y m f. \<exists>r. ask t i y m f = Some r"
  shows "\<exists>r. virtual_queryAdd ask tiles s c index item n flags = Some r
    \<and> (r = Inr RET_NOERROR \<and> \<not> hasBitSet FLAG_CHILDISOWNER flags \<longrightarrow> (\<exists>x. item = Some x \<and> x \<notin> around s c))"
proof -
  note run = container_queryAdd_run [where ask = ask and tiles = tiles, OF ok ask]
  have "\<exists>r. depot_queryAdd ask tiles s c limit index item n flags = Some r
    \<and> (r = Inr RET_NOERROR \<and> \<not> hasBitSet FLAG_CHILDISOWNER flags \<longrightarrow> (\<exists>x. item = Some x \<and> x \<notin> around s c))" for limit
  proof (cases item)
    case (Some x)
    obtain a where a: "added_count tiles s c x n = Some (Inr a)" by (rule added_count_run [OF ok])
    show ?thesis
      using run [of c index item n flags] unfolding Some
      by (auto simp: depot_queryAdd_def a getItemHoldingCount_run [OF ok])
  qed (simp add: depot_queryAdd_def)
  then show ?thesis using run by (cases "b_depotLimit (box_of s c)") (simp_all add: virtual_queryAdd_def)
qed

lemma other_queryAdd_returns: "\<exists>r. other_queryAdd others t i y m f = Some r"
  by (simp add: other_queryAdd_def)

lemma queryAdd_run:
  assumes ok: "structure_ok s"
  obtains r where "queryAdd tiles others s c index item n flags = Some r"
    "r = Inr RET_NOERROR \<and> \<not> hasBitSet FLAG_CHILDISOWNER flags \<longrightarrow> (\<exists>x. item = Some x \<and> x \<notin> around s c)"
proof -
  have "\<exists>r. virtual_queryAdd (other_queryAdd others) tiles s d i y m f = Some r" for d i y m f
    using virtual_queryAdd_run [where ask = "other_queryAdd others", OF ok other_queryAdd_returns] by blast
  then have "\<exists>r. top_queryAdd tiles others s t i y m f = Some r" for t i y m f
    using other_queryAdd_returns by (cases t) (simp_all add: top_queryAdd_def)
  then show thesis using that virtual_queryAdd_run [OF ok] unfolding queryAdd_def by blast
qed

section \<open>Weights\<close>

lemma inside_children:
  assumes "structure_ok s"
  shows "inside s c = (\<Union>x \<in> set (itemlist s c). insert x (inside s x))"
proof -
  have "{y. (y, x) \<in> (ups s)\<^sup>*} = insert x (inside s x)" for x
    by (auto simp: inside_def rtrancl_eq_or_trancl)
  then have "trees s xs = (\<Union>x \<in> set xs. insert x (inside s x))" for xs
    unfolding trees_def by blast
  then show ?thesis using trees_children [OF assms, of c] by simp
qed

lemma children_disjoint:
  assumes ok: "structure_ok s" and xy: "x \<in> set (itemlist s c)" "y \<in> set (itemlist s c)" "x \<noteq> y"
  shows "insert x (inside s x) \<inter> insert y (inside s y) = {}"
proof -
  have single: "single_valued (ups s)" by (auto simp: single_valued_def dest: ups_unique)
  have "(x, y) \<notin> (ups s)\<^sup>*" "(y, x) \<notin> (ups s)\<^sup>*"
    using apart_children [OF ok, of c] xy by (auto simp: apart_def rtrancl_eq_or_trancl)
  then have "\<not> ((z, x) \<in> (ups s)\<^sup>* \<and> (z, y) \<in> (ups s)\<^sup>*)" for z
    using single_valued_confluent [OF single] by blast
  then show ?thesis by (auto simp: inside_def rtrancl_eq_or_trancl)
qed

lemma finite_inside: "structure_ok s \<Longrightarrow> finite (inside s c)"
  using finite_trees trees_children by metis

lemma total_inside:
  assumes "store_ok s"
  shows "total s c = (\<Sum>x \<in> inside s c. item_weight (s x))"
proof -
  have ok: "structure_ok s" and totals: "\<And>d. total s d = weight_inside s d" using assms by (auto simp: store_ok_def)
  have "wf (ups s)" using structureD(4,5) [OF ok] by (rule finite_acyclic_wf)
  then show ?thesis
  proof (induction c rule: wf_induct_rule)
    case (less c)
    let ?W = "\<lambda>x. item_weight (s x)" and ?xs = "itemlist s c"
    have no_box: "inside s x = {}" if "it_box (s x) = None" for x
      using inside_children [OF ok, of x] itemlist_no_box [of s x] that by simp
    have item: "getWeight (s x) = sum ?W (insert x (inside s x))" if "x \<in> set ?xs" for x
    proof -
      have "(x, c) \<in> ups s" using that structureD(3) [OF ok] by blast
      moreover have "x \<notin> inside s x" using structureD(5) [OF ok] by (simp add: inside_def acyclic_def)
      ultimately show ?thesis
        using less.IH [of x] no_box [of x] finite_inside [OF ok, of x] by (auto simp: getWeight_total)
    qed
    have "total s c = (\<Sum>x \<in> set ?xs. getWeight (s x))"
      using totals [of c] sum_list_distinct_conv_sum_set [OF structureD(2) [OF ok], of "\<lambda>x. getWeight (s x)" c]
      by (simp add: weight_inside_def)
    also have "\<dots> = (\<Sum>x \<in> set ?xs. sum ?W (insert x (inside s x)))" using item by (simp cong: sum.cong)
    also have "\<dots> = sum ?W (\<Union>x \<in> set ?xs. insert x (inside s x))"
      using finite_inside [OF ok] children_disjoint [OF ok, of _ c] by (intro sum.UNION_disjoint [symmetric]) auto
    finally show ?case by (simp only: inside_children [OF ok, of c])
  qed
qed

section \<open>The life of items\<close>

text \<open>
  Items start outside containers and empty.  An item outside containers gets and leaves other places.
  One that \<^verbatim>\<open>__queryAdd\<close> allowed is added; the loaders, which build the contents first, put a
  container with all that is inside at once into another by \<^verbatim>\<open>__internalAddThing\<close> (players and
  depots from the database) or by \<^verbatim>\<open>addItem\<close> and \<^verbatim>\<open>updateItemWeight\<close> (the map), as long as it is
  not put into itself; items are replaced, change and are removed in part or whole.
  Only \<^verbatim>\<open>clone\<close>, which fills a copy with \<^verbatim>\<open>addItem\<close> alone, is not among the steps: it breaks the
  weights (lemma \<open>clone_weighs_nothing\<close>).
\<close>

inductive items_reachable :: "(u16 \<Rightarrow> item_kind option) \<Rightarrow> store \<Rightarrow> bool" for kinds where
  created: "\<forall>x. loose s x \<and> (\<forall>b. it_box (s x) = Some b \<longrightarrow> b_items b = [] \<and> b_totalWeight b = 0) \<Longrightarrow>
    items_reachable kinds s"
| placed: "items_reachable kinds s \<Longrightarrow> loose s x \<Longrightarrow> \<forall>c. p \<noteq> Some (Container_at c) \<Longrightarrow>
    items_reachable kinds (setParent x p s)"
| added: "items_reachable kinds s \<Longrightarrow> it_box (s c) \<noteq> None \<Longrightarrow> loose s x \<Longrightarrow> \<not> hasBitSet FLAG_CHILDISOWNER flags \<Longrightarrow>
    queryAdd tiles others s c index (Some x) n flags = Some (Inr RET_NOERROR) \<Longrightarrow>
    addThing s c index' (Some x) = Some (s', ns) \<Longrightarrow> items_reachable kinds s'"
| filled: "items_reachable kinds s \<Longrightarrow> it_box (s c) \<noteq> None \<Longrightarrow> loose s x \<Longrightarrow> x \<notin> around s c \<Longrightarrow>
    internalAddThing s c x = Some s' \<Longrightarrow> items_reachable kinds s'"
| unserialized: "items_reachable kinds s \<Longrightarrow> it_box (s c) \<noteq> None \<Longrightarrow> loose s x \<Longrightarrow> x \<notin> around s c \<Longrightarrow>
    unserialize_add s c x = Some s' \<Longrightarrow> items_reachable kinds s'"
| replaced: "items_reachable kinds s \<Longrightarrow> loose s x \<Longrightarrow> x \<notin> around s c \<Longrightarrow>
    replaceThing s c i (Some x) = Some (s', ns) \<Longrightarrow> items_reachable kinds s'"
| updated: "items_reachable kinds s \<Longrightarrow> updateThing kinds s c item itemId n = Some (s', ns) \<Longrightarrow> items_reachable kinds s'"
| removed: "items_reachable kinds s \<Longrightarrow> removeThing s c item n = Some (s', ns) \<Longrightarrow> items_reachable kinds s'"

lemma created_ok:
  assumes "\<forall>x. loose s x \<and> (\<forall>b. it_box (s x) = Some b \<longrightarrow> b_items b = [] \<and> b_totalWeight b = 0)"
  shows "store_ok s"
proof -
  have "ups s = {}" using assms by (auto simp: loose_def)
  moreover have "itemlist s c = [] \<and> total s c = 0" for c using assms by (auto simp: box_of_def split: option.split)
  ultimately show ?thesis by (simp add: store_ok_def structure_ok_def weight_inside_def acyclic_def)
qed

lemma placed_ok:
  assumes "store_ok s" "loose s x" "\<forall>c. p \<noteq> Some (Container_at c)"
  shows "store_ok (setParent x p s)"
proof -
  have ups: "ups (setParent x p s) = ups s" using assms(2,3) by (auto simp: ups_def setParent_def loose_def split: if_splits)
  have box: "box_of (setParent x p s) c = box_of s c" for c by (simp add: box_of_def)
  have "getWeight (setParent x p s y) = getWeight (s y)" for y
    by (rule getWeight_cong) (simp_all add: setParent_def box_of_def)
  then show ?thesis using assms(1)
    by (simp add: store_ok_def structure_ok_def ups box weight_inside_def)
qed

lemma empty_not_around:
  assumes "structure_ok s" "x \<noteq> c" "itemlist s x = []"
  shows "x \<notin> around s c"
proof
  assume "x \<in> around s c"
  then obtain y where "(y, x) \<in> ups s" using assms(2) unfolding around_def by (metis mem_Collect_eq rtranclE)
  then show False using structureD(3) [OF assms(1), of y x] assms(3) by simp
qed

lemma items_reachable_ok: "items_reachable kinds s \<Longrightarrow> store_ok s"
proof (induction rule: items_reachable.induct)
  case (created s)
  then show ?case by (rule created_ok)
next
  case (placed s x p)
  then show ?case by (intro placed_ok)
next
  case (added s c x flags tiles others index n index' s' ns)
  have str: "structure_ok s" using added.IH by (simp add: store_ok_def)
  obtain r where r: "queryAdd tiles others s c index (Some x) n flags = Some r"
    "r = Inr RET_NOERROR \<and> \<not> hasBitSet FLAG_CHILDISOWNER flags \<longrightarrow> (\<exists>y. Some x = Some y \<and> y \<notin> around s c)"
    by (rule queryAdd_run [OF str])
  then have "x \<notin> around s c" using added.hyps by auto
  then obtain t ms where "addThing s c index' (Some x) = Some (t, ms)" "store_ok t" "ups t \<subseteq> insert (x, c) (ups s)"
    by (rule addThing_run [OF added.IH added.hyps(2,3)])
  then show ?case using added.hyps by simp
next
  case (filled s c x s')
  obtain t where "internalAddThing s c x = Some t" "store_ok t"
    by (rule internalAddThing_run [OF filled.IH filled.hyps(2-4)])
  then show ?case using filled.hyps by simp
next
  case (unserialized s c x s')
  obtain t where "unserialize_add s c x = Some t" "store_ok t"
    by (rule unserialize_add_run [OF unserialized.IH unserialized.hyps(2-4)])
  then show ?case using unserialized.hyps by simp
next
  case (replaced s x c i s' ns)
  obtain t ms where "replaceThing s c i (Some x) = Some (t, ms)" "store_ok t"
    by (rule replaceThing_run [OF replaced.IH replaced.hyps(2,3)])
  then show ?case using replaced.hyps by simp
next
  case (updated s c item itemId n s' ns)
  obtain t ms where "updateThing kinds s c item itemId n = Some (t, ms)" "store_ok t"
    by (rule updateThing_run [OF updated.IH])
  then show ?case using updated.hyps by simp
next
  case (removed s c item n s' ns)
  obtain t ms where "removeThing s c item n = Some (t, ms)" "store_ok t"
    by (rule removeThing_run [OF removed.IH])
  then show ?case using removed.hyps by simp
qed

section \<open>The properties\<close>

text \<open>
  C16: Whatever is done with the items, the containers stay trees: the lists of the containers and
  the parents of the items agree, no item is in a list twice and none is inside itself.
\<close>

theorem containers_are_trees:
  assumes "items_reachable kinds s"
  shows "(\<forall>c x. x \<in> set (itemlist s c) \<longleftrightarrow> it_parent (s x) = Some (Container_at c))
    \<and> (\<forall>c. distinct (itemlist s c)) \<and> (\<forall>x. x \<notin> inside s x)"
proof -
  have ok: "structure_ok s" using items_reachable_ok [OF assms] by (simp add: store_ok_def)
  then show ?thesis
    using structureD(2,3,5) [OF ok] by (auto simp: ups_def inside_def acyclic_def)
qed

text \<open>
  C17: After any additions by \<^verbatim>\<open>__addThing\<close>, \<^verbatim>\<open>__internalAddThing\<close> and \<^verbatim>\<open>unserializeItemNode\<close>, updates,
  replacements and removals the weight of a container is its own weight and the weights of all items
  inside it at any depth, although every operation changes only the totals around the place it
  changes.  Containers filled by \<^verbatim>\<open>addItem\<close> alone, as \<^verbatim>\<open>clone\<close> does, are left out: for them it is
  false (lemma \<open>clone_weighs_nothing\<close>).
\<close>

theorem container_weight_is_sum:
  assumes "items_reachable kinds s" "it_box (s c) \<noteq> None"
  shows "getWeight (s c) = item_weight (s c) + (\<Sum>x \<in> inside s c. item_weight (s x))"
  using total_inside [OF items_reachable_ok [OF assms(1)]] assms(2) by (auto simp: getWeight_total)

text \<open>
  What \<^verbatim>\<open>clone\<close> does to the weights: the copy of a container, which starts empty and right, gets copies
  of the items by \<^verbatim>\<open>addItem\<close>; it weighs as much as before, whatever they weigh.
\<close>

lemma clone_weighs_nothing:
  assumes "items_reachable kinds s" "it_box (s c) \<noteq> None" "itemlist s c = []"
  shows "itemlist (clone_items s c copies) c = copies"
    and "getWeight (clone_items s c copies c) = item_weight (s c)"
proof -
  show "itemlist (clone_items s c copies) c = copies" using clone_items_list [of s c copies] assms(2,3) by simp
  have "total s c = 0"
    using items_reachable_ok [OF assms(1)] assms(3) by (simp add: store_ok_def weight_inside_def)
  moreover have "it_kind (clone_items s c copies c) = it_kind (s c) \<and> it_count (clone_items s c copies c) = it_count (s c)
      \<and> (it_box (clone_items s c copies c) = None \<longleftrightarrow> it_box (s c) = None)"
  proof (induction copies arbitrary: s)
    case (Cons x xs)
    have "it_kind (addItem s c x c) = it_kind (s c) \<and> it_count (addItem s c x c) = it_count (s c)
        \<and> (it_box (addItem s c x c) = None \<longleftrightarrow> it_box (s c) = None)" for s
      by (simp add: addItem_def set_items_def set_box_def setParent_def)
    then show ?case using Cons [of "addItem s c x"] by (simp add: clone_items_def)
  qed (simp add: clone_items_def)
  ultimately show "getWeight (clone_items s c copies c) = item_weight (s c)"
    by (simp add: getWeight_total clone_items_total item_weight_def)
qed

text \<open>
  C20: No operation on containers runs forever: the queries, the changes and the climb along the parents
  that updates the weights return for every item, count, index and flags; an item must be outside
  containers and allowed to be added.
\<close>

theorem container_operations_return:
  assumes "items_reachable kinds s" "it_box (s c) \<noteq> None" "loose s x"
  shows "(\<exists>r. queryAdd tiles others s c index item n flags = Some r)
    \<and> (\<exists>r. updateThing kinds s c item itemId n = Some r) \<and> (\<exists>r. removeThing s c item n = Some r)
    \<and> (queryAdd tiles others s c index (Some x) n 0 = Some (Inr RET_NOERROR) \<longrightarrow>
         (\<exists>r. addThing s c index (Some x) = Some r) \<and> (\<exists>r. internalAddThing s c x = Some r)
         \<and> (\<exists>r. replaceThing s c i (Some x) = Some r))"
proof -
  have ok: "store_ok s" by (rule items_reachable_ok [OF assms(1)])
  then have str: "structure_ok s" by (simp add: store_ok_def)
  have flag: "\<not> hasBitSet FLAG_CHILDISOWNER 0" by (simp add: hasBitSet_def FLAG_CHILDISOWNER_def)
  obtain r where r: "queryAdd tiles others s c index (Some x) n 0 = Some r"
    "r = Inr RET_NOERROR \<and> \<not> hasBitSet FLAG_CHILDISOWNER 0 \<longrightarrow> (\<exists>y. Some x = Some y \<and> y \<notin> around s c)"
    by (rule queryAdd_run [OF str])
  have free: "x \<notin> around s c" if "queryAdd tiles others s c index (Some x) n 0 = Some (Inr RET_NOERROR)"
    using r that flag by auto
  have q: "\<exists>r. queryAdd tiles others s c index item n flags = Some r" by (rule queryAdd_run [OF str]) blast
  have u: "\<exists>r. updateThing kinds s c item itemId n = Some r" by (rule updateThing_run [OF ok]) blast
  have m: "\<exists>r. removeThing s c item n = Some r" by (rule removeThing_run [OF ok]) blast
  have a: "\<exists>r. addThing s c index (Some x) = Some r" if "x \<notin> around s c"
    by (rule addThing_run [OF ok assms(2,3) that]) blast
  have f: "\<exists>r. internalAddThing s c x = Some r" if "x \<notin> around s c"
    by (rule internalAddThing_run [OF ok assms(2,3) that]) blast
  have p: "\<exists>r. replaceThing s c i (Some x) = Some r" if "x \<notin> around s c"
    by (rule replaceThing_run [OF ok assms(3) that]) blast
  show ?thesis using q u m a f p free by blast
qed

text \<open>
  C19: The iterator of a container visits every item inside it at any depth exactly once and ends; so
  \<^verbatim>\<open>isHoldingItem\<close> holds exactly for the items inside, \<^verbatim>\<open>getItemHoldingCount\<close> is their number, and
  \<^verbatim>\<open>getContentDescription\<close> names each of them once, with commas between, or says nothing.
\<close>

theorem container_loops_see_everything:
  assumes "items_reachable kinds s"
  shows "\<exists>xs. distinct xs \<and> set xs = inside s c
    \<and> (\<forall>x. isHoldingItem s c x = Some (Inr (x \<in> inside s c)))
    \<and> getItemHoldingCount s c = Some (Inr (word_of_nat (card (inside s c))))
    \<and> (\<forall>names. getContentDescription names s c = Some (Inr
         (case xs of [] \<Rightarrow> ''nothing'' | x # ys \<Rightarrow> names x @ concat (map (\<lambda>y. '', '' @ names y) ys))))"
proof -
  have ok: "structure_ok s" using items_reachable_ok [OF assms] by (simp add: store_ok_def)
  obtain xs where xs: "walks s (container_begin s c) xs" "distinct xs" "set xs = inside s c"
    by (rule walk_container [OF ok])
  show ?thesis
    using xs(2,3) holding_loop_walk [OF xs(1)] description_loop_walk [OF xs(1), of _ True "[]"]
    by (intro exI [of _ xs])
      (auto simp: isHoldingItem_def getItemHoldingCount_run [OF ok] getContentDescription_def split: list.split)
qed

section \<open>How much fits\<close>

lemma free_slots:
  assumes "unat (capacity s c) < 65536" "length (itemlist s c) < 2 ^ 31"
  shows "sint (capacity s c - container_size s c) = int (unat (capacity s c)) - int (length (itemlist s c))"
proof -
  define n k where "n = unat (capacity s c)" and "k = length (itemlist s c)"
  have "capacity s c = word_of_nat n" by (simp add: n_def)
  then have "capacity s c - container_size s c = word_of_int (int n - int k)"
    by (simp add: container_size_def k_def)
  moreover have "sint (word_of_int (int n - int k) :: u32) = int n - int k"
  proof -
    have "n < 65536" "k < 2147483648" using assms by (simp_all add: n_def k_def)
    then have "- (2 ^ 31) \<le> int n - int k" "int n - int k < 2 ^ 31" by simp_all
    then show ?thesis unfolding sint_sbintrunc' by (intro signed_take_bit_int_eq_self) simp_all
  qed
  ultimately show ?thesis by (simp only: n_def k_def)
qed

text \<open>What fits on the stack at the index, if it is one of the same kind.\<close>

definition stack_room :: "store \<Rightarrow> nat \<Rightarrow> int \<Rightarrow> nat \<Rightarrow> nat" where
  "stack_room s c index x =
     (if index = INDEX_WHEREEVER then 0
      else case getThing s c (word_of_int index) of None \<Rightarrow> 0
        | Some d \<Rightarrow> if k_id (it_kind (s d)) = k_id (it_kind (s x)) then 100 - unat (getItemCount (s d)) else 0)"

text \<open>
  C21: What \<^verbatim>\<open>__queryMaxCount\<close> lets into a container fits, when no stack is higher than a hundred: for an
  item that does not stack there is a free slot, for one that does the amount is at most a hundred for
  each free slot and what fits on the stack it is put on.  The arithmetic does not wrap around, even
  for a container with more items than slots.
\<close>

theorem max_count_fits:
  assumes "queryMaxCount s c index (Some x) n flags = (RET_NOERROR, m)" "\<not> hasBitSet FLAG_NOLIMIT flags"
    and "unat (capacity s c) < 65536" "length (itemlist s c) < 2 ^ 31" "\<forall>d. getItemCount (s d) \<le> 100"
  shows "if k_stackable (it_kind (s x))
    then unat m = 100 * (unat (capacity s c) - length (itemlist s c)) + stack_room s c index x \<and> n \<le> m
    else unat m = unat (capacity s c) - length (itemlist s c) \<and> length (itemlist s c) < unat (capacity s c)"
proof -
  define k where "k = unat (capacity s c) - length (itemlist s c)"
  have k: "k < 65536" using assms(3) by (simp add: k_def)
  have cut: "max (int a - int b) 0 = int (a - b)" for a b by simp
  have free: "max (sint (capacity s c - container_size s c)) 0 = int k"
    unfolding free_slots [OF assms(3,4)] k_def by (rule cut)
  define r where "r = stack_room s c index x"
  have r: "r \<le> 100" by (auto simp: r_def stack_room_def split: option.split)
  show ?thesis
  proof (cases "k_stackable (it_kind (s x))")
    case True
    have high: "100 - uint (getItemCount (s d)) = int (100 - unat (getItemCount (s d)))" for d
    proof -
      have "unat (getItemCount (s d)) \<le> 100" using assms(5) by (simp add: word_le_nat_alt)
      then show ?thesis by (simp add: of_nat_diff)
    qed
    have "(if index \<noteq> INDEX_WHEREEVER then case getThing s c (word_of_int index) of
          Some d \<Rightarrow> if k_id (it_kind (s d)) = k_id (it_kind (s x)) then word_of_int (100 - uint (getItemCount (s d))) else 0
        | None \<Rightarrow> 0 else 0) = (word_of_nat r :: u32)"
      unfolding high by (auto simp: r_def stack_room_def split: option.split)
    then have "m = word_of_int (int k * 100) + word_of_nat r" "n \<le> m"
      using assms(1,2) True free by (auto simp: queryMaxCount_def Let_def not_less split: if_splits)
    moreover have "unat (word_of_int (int k * 100) + word_of_nat r :: u32) = k * 100 + r"
    proof -
      have "word_of_int (int k * 100) + word_of_nat r = (word_of_nat (k * 100 + r) :: u32)" by simp
      then show ?thesis using k r by (simp only: unat_of_nat) (simp add: take_bit_nat_eq_self)
    qed
    ultimately show ?thesis using True by (simp add: k_def r_def)
  next
    case False
    then have "m = word_of_int (int k)" "m \<noteq> 0"
      using assms(1,2) free by (auto simp: queryMaxCount_def Let_def split: if_splits)
    moreover have "unat (word_of_int (int k) :: u32) = k" using k by (simp add: take_bit_nat_eq_self unat_of_nat)
    moreover have "k \<noteq> 0"
    proof
      assume "k = 0"
      then have "m = 0" using \<open>m = word_of_int (int k)\<close> by simp
      then show False using \<open>m \<noteq> 0\<close> by simp
    qed
    ultimately show ?thesis using False unfolding k_def by simp
  qed
qed

section \<open>Witnesses\<close>

text \<open>A shop: an empty bag at address zero and loose piles of five gold coins at all others.\<close>

definition gold :: item_kind where
  "gold = \<lparr>k_id = 2148, k_group = ITEM_GROUP_NONE, k_type = ItemType_GENERIC, k_maxItems = 0, k_weight = 10, k_worth = 1,
     k_charges = 0, k_clientCharges = False, k_stackable = True, k_isVertical = False, k_isHorizontal = False,
     k_isHangable = False, k_moveable = True, k_pickupable = True, k_replaceable = False, k_lookThrough = False,
     k_hasHeight = False, k_blockSolid = False, k_blockProjectile = False, k_blockPathFind = False,
     k_allowPickupable = False, k_alwaysOnTop = False, k_alwaysOnTopOrder = 0, k_floorChange = (\<lambda>_. False)\<rparr>"

definition bag :: item_kind where
  "bag = gold\<lparr>k_id := 1987, k_group := ITEM_GROUP_CONTAINER, k_maxItems := 8, k_weight := 800, k_stackable := False\<rparr>"

definition shop :: store where "shop x = (if x = 0 then container_new bag else item_new gold 5)"

lemmas shop_defs = shop_def isFluidContainer_def isSplash_def setItemCount_def getItemCount_def bag_def gold_def item_new_def container_new_def

definition shop_filled :: store where
  "shop_filled = the (internalAddThing shop 0 1)"

lemma shop_parent: "it_parent (shop x) = None" by (simp add: shop_defs Let_def)

lemma shop_created: "items_reachable kinds shop"
  by (rule items_reachable.created) (auto simp: loose_def ups_def shop_defs Let_def)

lemma shop_box: "it_box (shop 0) \<noteq> None" "it_box (shop 1) = None" by (simp_all add: shop_defs Let_def)

lemma shop_filling:
  "internalAddThing shop 0 1 = Some (add_weight 0 50 (setParent 1 (Some (Container_at 0)) (set_items 0 [1] shop)))"
  by (simp add: internalAddThing_def Let_def update_parent_weight_def getParentContainer_def add_weight_def
      set_box_def setParent_def set_items_def box_of_def getWeight_def item_weight_def shop_defs)

lemma shop_filled_eq: "shop_filled = add_weight 0 50 (setParent 1 (Some (Container_at 0)) (set_items 0 [1] shop))"
  unfolding shop_filled_def shop_filling by simp

lemma shop_filled_reachable: "items_reachable kinds shop_filled"
proof (rule items_reachable.filled [OF shop_created])
  show "1 \<notin> around shop 0" using items_reachable_ok [OF shop_created] shop_box
    by (intro empty_not_around) (simp_all add: store_ok_def box_of_def)
  show "internalAddThing shop 0 1 = Some shop_filled" unfolding shop_filled_def shop_filling by simp
  show "loose shop 1" by (auto simp: loose_def ups_def shop_defs Let_def)
qed (use shop_box in \<open>simp_all add: box_of_def\<close>)

lemma shop_filled_items: "itemlist shop_filled 0 = [1]" "it_box (shop_filled 0) \<noteq> None"
    "getWeight (shop_filled 0) = 850"
  by (simp_all add: shop_filled_eq add_weight_def set_box_def setParent_def set_items_def box_of_def getWeight_def
      item_weight_def shop_defs Let_def)

lemma containers_are_trees_witness:
  "it_parent (shop_filled 1) = Some (Container_at 0) \<and> (\<forall>x. x \<notin> inside shop_filled x)"
  using containers_are_trees [OF shop_filled_reachable] shop_filled_items(1)
  by (metis list.set_intros(1))

lemma container_weight_is_sum_witness: "(\<Sum>x \<in> inside shop_filled 0. item_weight (shop_filled x)) = 50"
proof -
  have "item_weight (shop_filled 0) = 800"
    by (simp add: shop_filled_eq add_weight_def set_box_def setParent_def set_items_def item_weight_def shop_defs Let_def)
  then show ?thesis
    using container_weight_is_sum [OF shop_filled_reachable shop_filled_items(2)] shop_filled_items(3) by simp
qed

lemma container_operations_return_witness:
  "\<exists>r. addThing shop 0 0 (Some 1) = Some r"
proof -
  have "loose shop 1" by (auto simp: loose_def ups_def shop_defs Let_def)
  moreover have "queryAdd (\<lambda>k. None) (\<lambda>_ _ _ _ _. RET_NOERROR) shop 0 0 (Some 1) 1 0 = Some (Inr RET_NOERROR)"
    by (simp add: queryAdd_def virtual_queryAdd_def container_queryAdd_def box_of_def hasBitSet_def FLAG_CHILDISOWNER_def INDEX_WHEREEVER_def getTopParent_def shop_defs Let_def)
  ultimately show ?thesis
    using container_operations_return [OF shop_created shop_box(1), of 1] by blast
qed

lemma container_loops_see_everything_witness:
  "\<exists>xs. set xs = inside shop_filled 0 \<and> isHoldingItem shop_filled 0 1 = Some (Inr True)"
proof -
  have "(1, 0) \<in> ups shop_filled"
    by (simp add: ups_def shop_filled_eq add_weight_def set_box_def setParent_def set_items_def shop_defs Let_def)
  then have "1 \<in> inside shop_filled 0" by (auto simp: inside_def)
  then show ?thesis using container_loops_see_everything [OF shop_filled_reachable, of 0] by auto
qed

lemma max_count_fits_witness: "\<exists>m. queryMaxCount shop 0 (- 1) (Some 1) 5 0 = (RET_NOERROR, m) \<and> unat m = 800"
proof -
  have "capacity shop 0 = 8" "itemlist shop 0 = []" by (simp_all add: capacity_def box_of_def shop_defs Let_def)
  moreover have "\<forall>d. getItemCount (shop d) \<le> 100" by (simp add: shop_defs Let_def)
  moreover have "queryMaxCount shop 0 (- 1) (Some 1) 5 0 = (RET_NOERROR, 800)"
    using calculation by (simp add: queryMaxCount_def container_size_def hasBitSet_def FLAG_NOLIMIT_def
        INDEX_WHEREEVER_def shop_defs Let_def)
  ultimately show ?thesis
    using max_count_fits [of shop 0 "- 1" 1 5 0 800]
    by (simp add: hasBitSet_def stack_room_def INDEX_WHEREEVER_def shop_defs Let_def)
qed

end
