(* ===== verification/Depots.thy ===== *)
theory Depots
  imports Container_Life
begin

text \<open>
  Depots (\<^verbatim>\<open>src/sources/depot.cpp\<close>): the limit holds because \<^verbatim>\<open>__queryAdd\<close> counts what is inside and
  a container asks its top parent.
\<close>

section \<open>The top parent\<close>

lemma top_loop_in:
  assumes "top_loop tiles s prev aux = Some r" "\<forall>d p. d \<in> A \<longrightarrow> (d, p) \<in> ups s \<longrightarrow> p \<in> A"
    and "\<forall>d. prev = Some (Container_at d) \<or> aux = Container_at d \<longrightarrow> d \<in> A"
  shows "\<forall>e. r = Container_at e \<longrightarrow> e \<in> A"
  using assms
proof (induction rule: top_loop.raw_induct)
  case (1 loop tiles s prev aux r)
  show ?case
  proof (cases "cylinder_parent tiles s aux")
    case None
    then show ?thesis using 1(2,5) None by (auto split: option.splits)
  next
    case (Some p)
    have "d \<in> A" if "p = Container_at d" for d
      using Some 1(4,5) that by (cases aux) (auto simp: cylinder_parent_def ups_def)
    then show ?thesis using 1(1) [of tiles s "Some aux" p r] 1(2-5) Some top_loop.simps [of tiles s prev aux] by auto
  qed
qed (fact assms(1))

lemma top_parent_around:
  assumes "getTopParent tiles s c = Some (Some (Container_at d))"
  shows "d \<in> around s c"
proof -
  have closed: "\<forall>d p. d \<in> around s c \<longrightarrow> (d, p) \<in> ups s \<longrightarrow> p \<in> around s c" by (auto simp: around_def)
  show ?thesis
  proof (cases "it_parent (s c)")
    case None
    then show ?thesis using assms by (simp add: getTopParent_def Let_def around_def split: if_splits)
  next
    case (Some p)
    then obtain prev where "top_loop tiles s prev p = Some (Container_at d)" "prev = None \<or> prev = Some (Container_at c)"
      using assms by (auto simp: getTopParent_def Let_def split: if_splits)
    moreover have "q \<in> around s c" if "p = Container_at q" for q
      using Some that by (auto simp: around_def ups_def)
    moreover have "c \<in> around s c" by (simp add: around_def)
    ultimately show ?thesis using top_loop_in [OF _ closed, of tiles prev p] by auto
  qed
qed

lemma loose_around: "loose s x \<Longrightarrow> around s x = {x}"
  by (rule around_top) (simp add: loose_def)

section \<open>The limit\<close>

lemma inside_insert:
  assumes "ups t \<subseteq> insert (x, c) (ups s)" "d \<in> around s c"
  shows "inside t d \<subseteq> inside s d \<union> insert x (inside s x)"
proof
  fix y assume "y \<in> inside t d"
  then have "(y, d) \<in> (insert (x, c) (ups s))\<^sup>+"
    using trancl_mono assms(1) by (auto simp: inside_def)
  then show "y \<in> inside s d \<union> insert x (inside s x)"
    by (auto simp: trancl_insert inside_def rtrancl_eq_or_trancl)
qed

text \<open>The room the query of a depot leaves: the number \<^verbatim>\<open>addCount\<close> of the code.\<close>

definition counted :: "(nat \<Rightarrow> nat option) \<Rightarrow> store \<Rightarrow> nat \<Rightarrow> nat \<Rightarrow> u32 \<Rightarrow> nat" where
  "counted tiles s d x n =
     (if getTopParent tiles s x \<noteq> Some (Some (Container_at d))
      then (if it_box (s x) \<noteq> None then card (inside s x) + 1 else 1)
      else if k_stackable (it_kind (s x)) \<and> ucast (getItemCount (s x)) \<noteq> n then 1 else 0)"

lemma depot_room:
  assumes ok: "structure_ok s" and limit: "b_depotLimit (box_of s d) = Some limit"
    and ask: "virtual_queryAdd ask tiles s d index (Some x) n flags = Some (Inr RET_NOERROR)" "\<not> hasBitSet FLAG_NOLIMIT flags"
    and bound: "card (inside s d) + card (inside s x) + 1 < 2 ^ 32"
  shows "card (inside s d) + counted tiles s d x n \<le> unat limit"
proof -
  obtain t where t: "getTopParent tiles s x = Some t" "added_count tiles s d x n = Some (Inr
    (if t \<noteq> Some (Container_at d) then if it_box (s x) \<noteq> None then word_of_nat (card (inside s x)) + 1 else 1
     else if k_stackable (it_kind (s x)) \<and> ucast (getItemCount (s x)) \<noteq> n then 1 else 0))"
    by (rule added_count_run [OF ok])
  let ?k = "counted tiles s d x n"
  have added: "added_count tiles s d x n = Some (Inr (word_of_nat ?k))"
    using t by (auto simp: counted_def add.commute)
  have "\<not> (word_of_nat (card (inside s d)) + word_of_nat ?k > limit)"
    using ask limit added by (auto simp: virtual_queryAdd_def depot_queryAdd_def getItemHoldingCount_run [OF ok] split: if_splits)
  then have "word_of_nat (card (inside s d) + ?k) \<le> limit" by (simp add: not_less ac_simps)
  then have "unat (word_of_nat (card (inside s d) + ?k) :: u32) \<le> unat limit"
    by (simp only: word_le_nat_alt)
  moreover have "card (inside s d) + ?k < 2 ^ 32" using bound by (auto simp: counted_def)
  ultimately show ?thesis by (simp only: unat_of_nat) (simp add: take_bit_nat_eq_self)
qed

text \<open>What is inside the depot after the addition is counted by the query.\<close>

lemma counted_enough:
  assumes ok: "structure_ok s" and top: "it_box (s x) = None \<longrightarrow> inside s x = {}" and x: "x \<noteq> d"
    and y: "y = x \<or> inside s y = {} \<and> k_stackable (it_kind (s x)) \<and> ucast (getItemCount (s x)) \<noteq> n"
  shows "card (inside s d \<union> insert y (inside s y)) \<le> card (inside s d) + counted tiles s d x n"
proof -
  have fin: "finite (inside s e)" for e by (rule finite_inside [OF ok])
  have "card (inside s d \<union> insert y (inside s y)) \<le> card (inside s d) + card (insert y (inside s y))"
    by (rule card_Un_le)
  moreover have "card (insert y (inside s y)) \<le> card (inside s y) + 1"
    by (simp add: card_insert_if fin)
  ultimately have all: "card (inside s d \<union> insert y (inside s y)) \<le> card (inside s d) + card (inside s y) + 1" by simp
  show ?thesis
  proof (cases "getTopParent tiles s x = Some (Some (Container_at d)) \<and> y = x")
    case True
    then have "d \<in> around s x" using top_parent_around by blast
    then have "x \<in> inside s d" using x by (auto simp: around_def inside_def rtrancl_eq_or_trancl)
    then have "inside s d \<union> insert y (inside s y) = inside s d" using True by (auto simp: inside_def)
    then show ?thesis by simp
  next
    case False
    then have "card (inside s y) + 1 \<le> counted tiles s d x n" using y top by (auto simp: counted_def)
    then show ?thesis using all by linarith
  qed
qed

lemma container_queryAdd_asks:
  assumes "container_queryAdd ask tiles s c index (Some x) n flags = Some (Inr RET_NOERROR)"
    and "\<not> hasBitSet FLAG_CHILDISOWNER flags" "getTopParent tiles s c = Some (Some t)" "t \<noteq> Container_at c"
  shows "ask t INDEX_WHEREEVER (Some x) n (flags OR FLAG_CHILDISOWNER) = Some (Inr RET_NOERROR)"
  using assms by (auto simp: container_queryAdd_def split: if_splits bind_splits)

lemma virtual_queryAdd_asks:
  assumes "virtual_queryAdd ask tiles s c index (Some x) n flags = Some (Inr RET_NOERROR)"
    and "\<not> hasBitSet FLAG_CHILDISOWNER flags" "getTopParent tiles s c = Some (Some t)" "t \<noteq> Container_at c"
  shows "ask t INDEX_WHEREEVER (Some x) n (flags OR FLAG_CHILDISOWNER) = Some (Inr RET_NOERROR)"
proof -
  have "container_queryAdd ask tiles s c index (Some x) n flags = Some (Inr RET_NOERROR)"
    using assms(1) by (auto simp: virtual_queryAdd_def depot_queryAdd_def split: if_splits bind_splits option.splits sum.splits)
  then show ?thesis using container_queryAdd_asks assms(2-) by blast
qed

lemma nolimit_child: "hasBitSet FLAG_NOLIMIT (flags OR FLAG_CHILDISOWNER) = hasBitSet FLAG_NOLIMIT flags"
  by (simp add: hasBitSet_def FLAG_NOLIMIT_def FLAG_CHILDISOWNER_def bit.conj_disj_distrib2)

text \<open>
  How an item comes to be added after \<^verbatim>\<open>__queryAdd\<close> allowed it: it lies outside the containers and
  stays as it is, or it lies in a container, is removed from there as a whole and added itself, or
  part of a pile is removed and a new pile, a fresh item \<open>y\<close>, is added.
\<close>

inductive taken :: "store \<Rightarrow> nat \<Rightarrow> u32 \<Rightarrow> store \<Rightarrow> nat \<Rightarrow> bool" for s x n where
  outside: "loose s x \<Longrightarrow> taken s x n s x"
| whole: "removeThing s b (Some x) n = Some (s1, ns) \<Longrightarrow> loose s1 x \<Longrightarrow> taken s x n s1 x"
| part: "removeThing s b (Some x) n = Some (s1, ns) \<Longrightarrow> k_stackable (it_kind (s x)) \<Longrightarrow>
    n \<noteq> ucast (getItemCount (s x)) \<Longrightarrow> loose s1 y \<Longrightarrow> itemlist s y = [] \<Longrightarrow> taken s x n s1 y"

lemma taken_ok:
  assumes ok: "store_ok s" and t: "taken s x n s1 y"
  shows "store_ok s1" "ups s1 \<subseteq> ups s" "\<And>d. it_box (s1 d) = None \<longleftrightarrow> it_box (s d) = None" "loose s1 y"
    "y = x \<or> itemlist s y = [] \<and> k_stackable (it_kind (s x)) \<and> ucast (getItemCount (s x)) \<noteq> n"
proof -
  have rem: "store_ok s1 \<and> ups s1 \<subseteq> ups s \<and> (\<forall>d. it_box (s1 d) = None \<longleftrightarrow> it_box (s d) = None)"
    if "removeThing s b (Some x) n = Some (s1, ns)" for b ns
    by (rule removeThing_run [OF ok, of b "Some x" n]) (use that in auto)
  show "store_ok s1" "ups s1 \<subseteq> ups s" "\<And>d. it_box (s1 d) = None \<longleftrightarrow> it_box (s d) = None" "loose s1 y"
    "y = x \<or> itemlist s y = [] \<and> k_stackable (it_kind (s x)) \<and> ucast (getItemCount (s x)) \<noteq> n"
    using t ok rem by (cases rule: taken.cases; blast)+
qed

text \<open>
  C18: a depot never holds more than its limit by additions that ask for it.  When \<^verbatim>\<open>__queryAdd\<close> without
  \<^verbatim>\<open>FLAG_NOLIMIT\<close> and \<^verbatim>\<open>FLAG_CHILDISOWNER\<close> allows an item for the depot itself, or for a container
  whose top parent the depot is, and the item, with all that is inside it, or a part of its pile, is
  then taken from where it lies, outside the containers or in any container, even inside the same
  depot, and added, the depot holds at most its limit of items at any depth.  Additions with
  \<^verbatim>\<open>FLAG_NOLIMIT\<close> (as \<^verbatim>\<open>house.cpp\<close> makes them) are not limited, nor are those to a container inside a
  depot that lies in something else.
\<close>

theorem depot_keeps_limit:
  assumes "items_reachable kinds s" "it_box (s c) \<noteq> None"
    and "b_depotLimit (box_of s d) = Some limit" "d = c \<or> getTopParent tiles s c = Some (Some (Container_at d))"
    and "\<not> hasBitSet FLAG_NOLIMIT flags" "\<not> hasBitSet FLAG_CHILDISOWNER flags"
    and "queryAdd tiles others s c index (Some x) n flags = Some (Inr RET_NOERROR)"
    and "taken s x n s1 y" "y \<noteq> c" "addThing s1 c index' (Some y) = Some (s', ns)"
    and "card (inside s d) + card (inside s x) + 1 < 2 ^ 32"
  shows "card (inside s' d) \<le> unat limit"
proof -
  have ok: "store_ok s" by (rule items_reachable_ok [OF assms(1)])
  then have str: "structure_ok s" by (simp add: store_ok_def)
  note tk = taken_ok [OF ok assms(8)]
  obtain r where "queryAdd tiles others s c index (Some x) n flags = Some r"
    "r = Inr RET_NOERROR \<and> \<not> hasBitSet FLAG_CHILDISOWNER flags \<longrightarrow> (\<exists>y. Some x = Some y \<and> y \<notin> around s c)"
    by (rule queryAdd_run [OF str])
  then have out: "x \<notin> around s c" using assms(6,7) by simp
  have above: "d \<in> around s c" using assms(4) top_parent_around by (auto simp: around_def)
  have empty: "itemlist s z = [] \<Longrightarrow> inside s z = {}" for z using inside_children [OF str, of z] by simp
  have "card (inside s d) + counted tiles s d x n \<le> unat limit"
  proof (cases "d = c")
    case True
    have "virtual_queryAdd (top_queryAdd tiles others s) tiles s d index (Some x) n flags = Some (Inr RET_NOERROR)"
      using assms(7) unfolding queryAdd_def True .
    then show ?thesis by (rule depot_room [OF str assms(3) _ assms(5,11)])
  next
    case False
    then have "virtual_queryAdd (other_queryAdd others) tiles s d INDEX_WHEREEVER (Some x) n (flags OR FLAG_CHILDISOWNER) = Some (Inr RET_NOERROR)"
      using virtual_queryAdd_asks [of "top_queryAdd tiles others s" tiles s c index x n flags "Container_at d"] assms(4,6,7)
      by (simp add: queryAdd_def top_queryAdd_def)
    moreover have "\<not> hasBitSet FLAG_NOLIMIT (flags OR FLAG_CHILDISOWNER)" using assms(5) by (simp add: nolimit_child)
    ultimately show ?thesis by (rule depot_room [OF str assms(3) _ _ assms(11)])
  qed
  moreover have "card (inside s d \<union> insert y (inside s y)) \<le> card (inside s d) + counted tiles s d x n"
    using out above tk(5) empty itemlist_no_box [of s x] by (intro counted_enough [OF str]) auto
  moreover have "inside s' d \<subseteq> inside s d \<union> insert y (inside s y)"
  proof -
    have "y \<notin> around s c"
      using tk(5) out empty_not_around [OF str assms(9)] by blast
    then have "y \<notin> around s1 c" using rtrancl_mono [OF tk(2)] by (auto simp: around_def)
    moreover have "it_box (s1 c) \<noteq> None" using assms(2) tk(3) by simp
    ultimately obtain t ms where "addThing s1 c index' (Some y) = Some (t, ms)" "ups t \<subseteq> insert (y, c) (ups s1)"
      using addThing_run [OF tk(1) _ tk(4)] by metis
    then have "ups s' \<subseteq> insert (y, c) (ups s)" using assms(10) tk(2) by auto
    then show ?thesis by (rule inside_insert [OF _ above])
  qed
  then have "card (inside s' d) \<le> card (inside s d \<union> insert y (inside s y))"
    using finite_inside [OF str] by (intro card_mono) auto
  ultimately show ?thesis by simp
qed

definition locker :: store where "locker x = (if x = 0 then depot_new bag else item_new gold 5)"

lemma depot_keeps_limit_witness:
  "\<exists>s' ns. addThing locker 0 0 (Some 1) = Some (s', ns) \<and> card (inside s' 0) \<le> 1000"
proof -
  have created: "items_reachable kinds locker" for kinds
    by (rule items_reachable.created) (auto simp: loose_def ups_def locker_def depot_new_def shop_defs Let_def)
  have ups: "ups locker = {}" by (auto simp: ups_def locker_def depot_new_def shop_defs Let_def)
  have box: "it_box (locker 0) \<noteq> None" "b_depotLimit (box_of locker 0) = Some 1000" "it_box (locker 1) = None"
    by (simp_all add: locker_def depot_new_def box_of_def shop_defs Let_def)
  have str: "structure_ok locker" using items_reachable_ok [OF created] by (simp add: store_ok_def)
  have loose: "loose locker 1" by (simp add: loose_def ups)
  have out: "(1 :: nat) \<notin> around locker 0" by (simp add: around_def ups)
  obtain s' ns where add: "addThing locker 0 0 (Some 1) = Some (s', ns)"
    by (rule addThing_run [OF items_reachable_ok [OF created] box(1) loose out])
  have empty: "inside locker x = {}" for x by (simp add: inside_def ups)
  have flags: "\<not> hasBitSet FLAG_NOLIMIT 0" "\<not> hasBitSet FLAG_CHILDISOWNER 0"
    by (simp_all add: hasBitSet_def FLAG_NOLIMIT_def FLAG_CHILDISOWNER_def)
  have parents: "getTopParent tiles locker 1 = Some None" "getTopParent tiles locker 0 = Some (Some (Container_at 0))" for tiles
    by (simp_all add: getTopParent_def locker_def depot_new_def shop_defs Let_def)
  have "added_count (\<lambda>_. None) locker 0 1 5 = Some (Inr 1)" using parents box by (simp add: added_count_def)
  moreover have "getItemHoldingCount locker 0 = Some (Inr 0)" by (simp add: getItemHoldingCount_run [OF str] empty)
  moreover have "k_pickupable (it_kind (locker 1))" by (simp add: locker_def shop_defs Let_def)
  ultimately have "queryAdd (\<lambda>_. None) (\<lambda>_ _ _ _ _. RET_NOERROR) locker 0 0 (Some 1) 5 0 = Some (Inr RET_NOERROR)"
    using parents flags box
    by (simp add: queryAdd_def virtual_queryAdd_def depot_queryAdd_def container_queryAdd_def INDEX_WHEREEVER_def)
  then have "card (inside s' 0) \<le> unat (1000 :: u32)"
    by (intro depot_keeps_limit [OF created box(1,2) _ flags _ taken.outside [OF loose] _ add]) (simp_all add: empty)
  then show ?thesis using add by simp
qed

end
