(* ===== verification/Spec2Isabelle.thy ===== *)
theory Spec2Isabelle
  imports Constants Positions Text_Tools Name_Tables Checksum File_Props Connection_Safety Packet_Round_Trip Dispatcher Scheduler Wait_List Rsa Path_To Path_Matching Spectators Depots
begin

text \<open>
  A model of the core of the Tyano game server (\<^verbatim>\<open>src/sources\<close>, C++) with the theorems that make it
  correct.  The server reads its map from node files, talks to its clients through encrypted
  packets, runs all game code on one dispatcher thread that a scheduler feeds, and keeps the
  players on a map of tiles and items in containers.  The theories follow these parts.

  \<^bold>\<open>Ground.\<close>  \<open>Prelude\<close> has the machine types, the outcome \<open>run\<close> of code that an
  \<^verbatim>\<open>assert\<close> may abort or that reads outside a block, byte codecs and list lemmas.  \<open>Constants\<close> holds
  the enumerations of \<^verbatim>\<open>const.h\<close>, \<open>Positions\<close> the coordinates and directions of \<^verbatim>\<open>position.h\<close>,
  \<^verbatim>\<open>position.cpp\<close> and \<^verbatim>\<open>tools.cpp\<close>, \<open>Text_Tools\<close> and \<open>Name_Tables\<close> the string helpers and name
  tables of \<^verbatim>\<open>tools.cpp\<close>.

  \<^bold>\<open>Node files.\<close>  \<open>File_Loader\<close> is \<^verbatim>\<open>fileloader.cpp\<close>: writer, parser, cache, properties.
  \<open>File_Tree\<close> says what the format means, \<open>File_Sources\<close> shows that the plain and the cached file
  meet one contract (locale \<open>byte_source\<close>), \<open>File_Round_Trip\<close> and \<open>File_Props\<close> prove that what is
  written is read back and that the parser always returns, and say where this ends: properties are cut
  at 65536 bytes when they are written, and \<^verbatim>\<open>getProps\<close> overflows its buffer above 2048 escaped
  bytes.  \<open>serves\<close> is what an opened loader keeps through all calls.  The parser's fuel is the length of the
  file plus two, since every step but the last reads a byte; the fuel of \<^verbatim>\<open>readBytes\<close> is the number
  of bytes wanted plus one.  \<open>Codecs\<close> is the contract of encoders and decoders, which
  \<open>Prop_Stream\<close> (property streams of \<^verbatim>\<open>fileloader.h\<close>) and \<open>Message_Codec\<close> interpret.

  \<^bold>\<open>Network.\<close>  \<open>Network_Message\<close> (\<^verbatim>\<open>networkmessage.cpp\<close>, \<^verbatim>\<open>outputmessage.cpp\<close>), \<open>Checksum\<close>
  (\<^verbatim>\<open>adlerChecksum\<close>), \<open>Protocol_Crypto\<close> (\<^verbatim>\<open>protocol.cpp\<close>, XTEA) and \<open>Rsa\<close> (\<^verbatim>\<open>rsa.cpp\<close>) are the
  packets; \<open>Connection\<close> is every handler of \<^verbatim>\<open>connection.cpp\<close> over an explicit state, and
  \<open>Connection_Safety\<close> lets them run in any order the socket, the timers and the dispatcher allow,
  with timer handlers that were queued before their timer was cancelled and with the pointers that
  keep the connection alive.
  \<open>Packet_Round_Trip\<close> puts sender and receiver together.

  \<^bold>\<open>Threads.\<close>  \<open>Tasks\<close>, \<open>Dispatcher\<close> and \<open>Scheduler\<close> model \<^verbatim>\<open>dispatcher.cpp\<close> and
  \<^verbatim>\<open>scheduler.cpp\<close>: the threads and their callers are step relations whose steps are the sections
  between two locks, and the invariants of the reachable states are proved by rule induction.
  \<open>Tasks\<close> holds the locale \<open>stoppable_worker\<close> both threads interpret.  \<open>Wait_List\<close> is the login
  queue of \<^verbatim>\<open>waitlist.cpp\<close>.

  \<^bold>\<open>Map.\<close>  \<open>Map_Layers\<close> is \<^verbatim>\<open>MapLayer\<close> of \<^verbatim>\<open>map.cpp\<close>, one floor in an array that shrinks to the
  loaded rectangle, with the locales \<open>tile_store\<close> and \<open>write_once_store\<close>; \<open>Game_Map\<close> is the map of
  sixteen floors over them.  \<open>Sight_Lines\<close> has the rays of \<^verbatim>\<open>checkSightLine\<close>; its fuel is the number
  of steps of the ray plus two, and it is shown to be enough.
  \<open>Spectators\<close> has the blocks of creatures and \<^verbatim>\<open>getSpectators\<close> with its cache; its relation
  \<open>world_reachable\<close> lets creatures move and look in any order.
  \<open>Path_Finding\<close> has the node pool \<^verbatim>\<open>AStarNodes\<close> and the two searches over it as partial functions,
  \<open>Path_Search\<close> what they share: the invariant of the pool, and a measure (nodes left, cost below
  the bound 85 times the pool's 512, open nodes) that every turn of a search decreases although it
  reopens nodes.  \<open>Path_To\<close> and \<open>Path_Matching\<close> prove that the searches return, that their routes can
  be walked, and that within distance ten, where the pool suffices, they miss nothing.

  \<^bold>\<open>Items.\<close>  \<open>Items\<close> (\<^verbatim>\<open>item.cpp\<close>, \<^verbatim>\<open>thing.cpp\<close>) has what containers need of items, in a store from
  addresses to items, with exact weights where the code adds floating point numbers.  \<open>Containers\<close>
  is \<^verbatim>\<open>container.cpp\<close> with the query of \<^verbatim>\<open>depot.cpp\<close>; the queries of creatures and tiles above a
  container are a parameter.  \<open>Container_Trees\<close> has the invariant (parents and lists agree, the
  parents have no circle, each total is the weight inside) and what each operation does to it,
  \<open>Container_Walk\<close> the iterator as a walk over everything inside.  \<open>Container_Life\<close> lets items be
  created, loaded, placed, added, replaced, changed and removed in any order (\<open>items_reachable\<close>) and
  states the properties, \<open>Depots\<close> the limit of depots.  The copies that \<^verbatim>\<open>clone\<close> makes are outside this
  relation, because their totals are wrong (\<open>clone_weighs_nothing\<close>).  The loops along parents are partial functions
  that need not return; that they do follows from the invariant.

  \<^bold>\<open>Conventions.\<close>  Definitions keep the names of the functions they model.  Integers keep their
  width where the code could wrap; elsewhere they are exact and the theory says why.  The code's
  assertions are live, for the build never defines \<^verbatim>\<open>NDEBUG\<close>.

  \<^bold>\<open>Not modelled.\<close>  The Lua binding, XML and SQL access and the socket library (glue and I/O), the
  object graph of creatures and tiles with combat, spells, the client protocol and scripted
  events (not yet modelled), the random generator, clock and file helpers of \<^verbatim>\<open>tools.cpp\<close>, memory
  management; of items and containers the descriptions, serialization, cloning (but for its loop), decay and the
  notification of players.  GMP's modular inverse is a parameter of \<open>Rsa\<close>; the order in which the scheduler's
  priority queue ranks equal tasks is a parameter of \<open>Scheduler\<close>.
\<close>

end
